(* ===== verification/Chain_Prelude.thy ===== *)
theory Chain_Prelude
  imports Main "HOL-Library.Word"
begin

text \<open>
  Shared vocabulary of the development: the Rust integer types as words, byte
  strings, the two ways a Rust function can fail (a \<open>Result\<close>, modelled by a sum
  type with the error on the left, and a panic, modelled by \<open>run\<close>), the checked
  integer operations of the standard library, decimal printing and parsing of
  \<open>u64\<close>, and the generic lemmas the components share.  All arithmetic that Rust
  leaves unchecked is word arithmetic and wraps, as it does in the release
  profile of the repository (its Cargo profiles do not set overflow-checks).
\<close>

named_theorems word_val \<open>reading word operations as natural numbers\<close>
named_theorems run_simps \<open>evaluation of panicking and failing computations\<close>

type_synonym u8 = "8 word"
type_synonym u16 = "16 word"
type_synonym u32 = "32 word"
type_synonym u64 = "64 word"
type_synonym u128 = "128 word"
type_synonym bytes = "u8 list"
type_synonym h256 = bytes

section \<open>Results and panics\<close>

text \<open>
  \<open>Inl e\<close> is \<open>Err(e)\<close> and \<open>Inr v\<close> is \<open>Ok(v)\<close>.  A function that can also panic
  (\<open>expect\<close>, \<open>unwrap\<close>, \<open>assert!\<close>, integer division by zero, indexing) returns a
  \<open>run\<close>.
\<close>

datatype 'a run = Panic string | Done 'a

abbreviation Err :: "'e \<Rightarrow> 'e + 'a" where "Err \<equiv> Inl"
abbreviation Ok :: "'a \<Rightarrow> 'e + 'a" where "Ok \<equiv> Inr"

definition and_then :: "'e + 'a \<Rightarrow> ('a \<Rightarrow> 'e + 'b) \<Rightarrow> 'e + 'b" where
  "and_then r f = (case r of Inl e \<Rightarrow> Inl e | Inr v \<Rightarrow> f v)"

definition map_err :: "('e \<Rightarrow> 'f) \<Rightarrow> 'e + 'a \<Rightarrow> 'f + 'a" where
  "map_err f r = (case r of Inl e \<Rightarrow> Inl (f e) | Inr v \<Rightarrow> Inr v)"

definition run_bind :: "'a run \<Rightarrow> ('a \<Rightarrow> 'b run) \<Rightarrow> 'b run" where
  "run_bind m f = (case m of Panic s \<Rightarrow> Panic s | Done v \<Rightarrow> f v)"

definition expect :: "'e + 'a \<Rightarrow> string \<Rightarrow> 'a run" where
  "expect r s = (case r of Inl e \<Rightarrow> Panic s | Inr v \<Rightarrow> Done v)"

definition expect_opt :: "'a option \<Rightarrow> string \<Rightarrow> 'a run" where
  "expect_opt r s = (case r of None \<Rightarrow> Panic s | Some v \<Rightarrow> Done v)"

definition assert_run :: "bool \<Rightarrow> string \<Rightarrow> unit run" where
  "assert_run b s = (if b then Done () else Panic s)"

text \<open>The operator \<open>?\<close> inside a function that can panic as well.\<close>

definition try_run :: "('e + 'a) run \<Rightarrow> ('a \<Rightarrow> ('e + 'b) run) \<Rightarrow> ('e + 'b) run" where
  "try_run m f = run_bind m (\<lambda>r. case r of Inl e \<Rightarrow> Done (Inl e) | Inr v \<Rightarrow> f v)"

lemma and_then_simps [simp, run_simps]:
  "and_then (Inl e) f = Inl e" "and_then (Inr v) f = f v"
  by (simp_all add: and_then_def)

lemma map_err_simps [simp, run_simps]:
  "map_err f (Inl e) = Inl (f e)" "map_err f (Inr v) = Inr v"
  by (simp_all add: map_err_def)

lemma run_bind_simps [simp, run_simps]:
  "run_bind (Panic s) g = Panic s" "run_bind (Done v) g = g v"
  by (simp_all add: run_bind_def)

lemma expect_simps [simp, run_simps]:
  "expect (Inl e) s = Panic s" "expect (Inr v) s = Done v"
  by (simp_all add: expect_def)

lemma expect_opt_simps [simp, run_simps]:
  "expect_opt None s = Panic s" "expect_opt (Some v) s = Done v"
  by (simp_all add: expect_opt_def)

lemma assert_run_simps [simp, run_simps]:
  "assert_run True s = Done ()" "assert_run False s = Panic s"
  by (simp_all add: assert_run_def)

lemma try_run_simps [simp, run_simps]:
  "try_run (Panic s) g = Panic s" "try_run (Done (Inl e)) g = Done (Inl e)"
  "try_run (Done (Inr v)) g = g v"
  by (simp_all add: try_run_def)

lemma and_then_eq_Ok: "and_then r f = Inr w \<longleftrightarrow> (\<exists>v. r = Inr v \<and> f v = Inr w)"
  by (cases r) auto

lemma run_bind_eq_Done: "run_bind m f = Done w \<longleftrightarrow> (\<exists>v. m = Done v \<and> f v = Done w)"
  by (cases m) auto

lemma run_bind_eq_Panic:
  "run_bind m f = Panic s \<longleftrightarrow> m = Panic s \<or> (\<exists>v. m = Done v \<and> f v = Panic s)"
  by (cases m) auto

lemma try_run_eq_Ok:
  "try_run m f = Done (Inr w) \<longleftrightarrow> (\<exists>v. m = Done (Inr v) \<and> f v = Done (Inr w))"
  by (cases m) (auto simp: try_run_def split: sum.splits)

lemma expect_eq_Done: "expect r s = Done w \<longleftrightarrow> r = Inr w"
  by (cases r) auto

lemma expect_opt_eq_Done: "expect_opt r s = Done w \<longleftrightarrow> r = Some w"
  by (cases r) auto

lemma assert_run_eq_Done: "assert_run b s = Done u \<longleftrightarrow> b"
  by (cases b) auto

lemmas run_elims = and_then_eq_Ok run_bind_eq_Done try_run_eq_Ok expect_eq_Done
  expect_opt_eq_Done assert_run_eq_Done

lemma map_err_eq_Ok: "map_err f r = Inr v \<longleftrightarrow> r = Inr v"
  by (cases r) auto

text \<open>Collecting a list of results: all values, or the first error.\<close>

fun collect_results :: "('e + 'a) list \<Rightarrow> 'e + 'a list" where
  "collect_results [] = Ok []"
| "collect_results (r # rs) = and_then r (\<lambda>v. and_then (collect_results rs) (\<lambda>vs. Ok (v # vs)))"

lemma collect_results_Ok:
  "collect_results (map f xs) = Ok ys \<longleftrightarrow> list_all2 (\<lambda>x y. f x = Ok y) xs ys"
  by (induction xs arbitrary: ys) (auto simp: and_then_eq_Ok list_all2_Cons1)

section \<open>Checked integer operations\<close>

definition checked_add :: "'a::len word \<Rightarrow> 'a word \<Rightarrow> 'a word option" where
  "checked_add a b = (if unat a + unat b < 2 ^ LENGTH('a) then Some (a + b) else None)"

definition checked_sub :: "'a::len word \<Rightarrow> 'a word \<Rightarrow> 'a word option" where
  "checked_sub a b = (if b \<le> a then Some (a - b) else None)"

definition checked_mul :: "'a::len word \<Rightarrow> 'a word \<Rightarrow> 'a word option" where
  "checked_mul a b = (if unat a * unat b < 2 ^ LENGTH('a) then Some (a * b) else None)"

definition checked_div :: "'a::len word \<Rightarrow> 'a word \<Rightarrow> 'a word option" where
  "checked_div a b = (if b = 0 then None else Some (a div b))"

definition checked_rem :: "'a::len word \<Rightarrow> 'a word \<Rightarrow> 'a word option" where
  "checked_rem a b = (if b = 0 then None else Some (a mod b))"

definition ok_or :: "'a option \<Rightarrow> 'e \<Rightarrow> 'e + 'a" where
  "ok_or r e = (case r of None \<Rightarrow> Inl e | Some v \<Rightarrow> Inr v)"

lemma ok_or_simps [simp, run_simps]: "ok_or None e = Inl e" "ok_or (Some v) e = Inr v"
  by (simp_all add: ok_or_def)

lemma ok_or_eq_Ok: "ok_or r e = Inr w \<longleftrightarrow> r = Some w"
  by (cases r) auto

lemma unat_add_no_wrap [word_val]:
  fixes a b :: "'a::len word"
  shows "unat a + unat b < 2 ^ LENGTH('a) \<Longrightarrow> unat (a + b) = unat a + unat b"
  by (simp add: unat_word_ariths)

lemma unat_mul_no_wrap [word_val]:
  fixes a b :: "'a::len word"
  shows "unat a * unat b < 2 ^ LENGTH('a) \<Longrightarrow> unat (a * b) = unat a * unat b"
  by (simp add: unat_word_ariths)

lemma unat_sub_no_wrap [word_val]:
  fixes a b :: "'a::len word"
  shows "b \<le> a \<Longrightarrow> unat (a - b) = unat a - unat b"
  by (simp add: unat_sub)

lemma unat_div_val [word_val]: "unat (a div b) = unat a div unat (b :: 'a::len word)"
  by (simp add: unat_div)

lemma unat_mod_val [word_val]: "unat (a mod b) = unat a mod unat (b :: 'a::len word)"
  by (simp add: unat_mod)

lemma unat_bound: "unat (a :: 'a::len word) < 2 ^ LENGTH('a)"
  by (rule unsigned_less)

lemma unat_ucast_up:
  fixes x :: "'a::len word"
  assumes "LENGTH('a) \<le> LENGTH('b::len)"
  shows "unat (ucast x :: 'b word) = unat x"
proof -
  have "unat x < 2 ^ LENGTH('b)"
    using unat_bound [of x] assms by (meson less_le_trans one_le_numeral power_increasing)
  then show ?thesis by (simp add: unsigned_ucast_eq take_bit_nat_eq_self)
qed

lemma unat_ucast_small:
  fixes x :: "'a::len word"
  assumes "unat x < 2 ^ LENGTH('b::len)"
  shows "unat (ucast x :: 'b word) = unat x"
  using assms by (simp add: unsigned_ucast_eq take_bit_nat_eq_self)

lemma checked_add_eq_Some: "checked_add a b = Some c \<longleftrightarrow> unat c = unat a + unat b"
proof
  assume "unat c = unat a + unat b"
  then show "checked_add a b = Some c"
    using unat_bound [of c] by (simp add: checked_add_def word_val word_unat_eq_iff)
qed (auto simp: checked_add_def word_val split: if_splits)

lemma checked_sub_eq_Some: "checked_sub a b = Some c \<longleftrightarrow> unat a = unat c + unat b"
proof
  assume *: "unat a = unat c + unat b"
  then have "b \<le> a" by (simp add: word_le_nat_alt)
  with * show "checked_sub a b = Some c"
    by (simp add: checked_sub_def word_val word_unat_eq_iff)
qed (auto simp: checked_sub_def word_val word_le_nat_alt split: if_splits)

lemma checked_mul_eq_Some: "checked_mul a b = Some c \<longleftrightarrow> unat c = unat a * unat b"
proof
  assume "unat c = unat a * unat b"
  then show "checked_mul a b = Some c"
    using unat_bound [of c] by (simp add: checked_mul_def word_val word_unat_eq_iff)
qed (auto simp: checked_mul_def word_val split: if_splits)

lemma checked_sub_eq_None: "checked_sub a b = None \<longleftrightarrow> unat a < unat b"
  by (auto simp: checked_sub_def word_le_nat_alt)

lemma checked_add_eq_None: "checked_add a b = None \<longleftrightarrow> 2 ^ LENGTH('a) \<le> unat a + unat (b :: 'a::len word)"
  by (auto simp: checked_add_def)

end
