(* ===== verification/Decimal_Text.thy ===== *)
theory Decimal_Text
  imports Chain_Prelude
begin

text \<open>
  The formatting and parsing of unsigned integers that the sources take from the
  Rust standard library: \<open>to_string\<close>, the paddings \<open>{:08}\<close>, \<open>{:0>3}\<close> and
  \<open>{:0<3}\<close>, \<open>str::parse::<u64>\<close> and \<open>str::split\<close>.  The main lemma is the round
  trip \<open>parse_u64_dec_str\<close>.
\<close>

definition digit_char :: "nat \<Rightarrow> char" where
  "digit_char d = char_of (48 + d)"

definition is_digit :: "char \<Rightarrow> bool" where
  "is_digit c \<longleftrightarrow> 48 \<le> (of_char c :: nat) \<and> (of_char c :: nat) \<le> 57"

definition digit_val :: "char \<Rightarrow> nat" where
  "digit_val c = of_char c - 48"

fun dec_str :: "nat \<Rightarrow> string" where
  "dec_str n = (if n < 10 then [digit_char n] else dec_str (n div 10) @ [digit_char (n mod 10)])"

declare dec_str.simps [simp del]

definition digits_val :: "string \<Rightarrow> nat" where
  "digits_val s = foldl (\<lambda>n c. 10 * n + digit_val c) 0 s"

text \<open>Zero padding on the left (\<open>{:08}\<close>, \<open>{:0>3}\<close>) and on the right (\<open>{:0<3}\<close>).\<close>

definition pad_left :: "nat \<Rightarrow> string \<Rightarrow> string" where
  "pad_left w s = replicate (w - length s) (CHR ''0'') @ s"

definition pad_right :: "nat \<Rightarrow> string \<Rightarrow> string" where
  "pad_right w s = s @ replicate (w - length s) (CHR ''0'')"

text \<open>
  \<open>str::parse::<u64>\<close>: an optional leading \<open>+\<close>, then at least one decimal digit
  and nothing else; a value that does not fit is an error.
\<close>

definition parse_u64 :: "string \<Rightarrow> u64 option" where
  "parse_u64 s = (let ds = (case s of [] \<Rightarrow> [] | c # cs \<Rightarrow> if c = CHR ''+'' then cs else s) in
     if ds = [] \<or> \<not> list_all is_digit ds then None
     else if digits_val ds < 2 ^ 64 then Some (of_nat (digits_val ds)) else None)"

text \<open>\<open>str::split(c)\<close>: never empty; one part more than there are separators.\<close>

fun split_on :: "char \<Rightarrow> string \<Rightarrow> string list" where
  "split_on c [] = [[]]"
| "split_on c (x # xs) =
     (if x = c then [] # split_on c xs
      else (case split_on c xs of [] \<Rightarrow> [[x]] | p # ps \<Rightarrow> (x # p) # ps))"

lemma of_char_digit [simp]: "d < 10 \<Longrightarrow> of_char (digit_char d) = 48 + d"
  by (simp add: digit_char_def)

lemma is_digit_digit_char [simp]: "d < 10 \<Longrightarrow> is_digit (digit_char d)"
  by (simp add: is_digit_def)

lemma digit_val_digit_char [simp]: "d < 10 \<Longrightarrow> digit_val (digit_char d) = d"
  by (simp add: digit_val_def)

lemma digits_val_append [simp]: "digits_val (s @ [c]) = 10 * digits_val s + digit_val c"
  by (simp add: digits_val_def)

lemma digits_val_Nil [simp]: "digits_val [] = 0"
  by (simp add: digits_val_def)

lemma dec_str_not_Nil [simp]: "dec_str n \<noteq> []"
  by (subst dec_str.simps) simp

lemma all_digits_dec_str [simp]: "list_all is_digit (dec_str n)"
  by (induction n rule: dec_str.induct) (subst dec_str.simps, simp)

lemma digits_val_dec_str [simp]: "digits_val (dec_str n) = n"
proof (induction n rule: dec_str.induct)
  case (1 n)
  show ?case
  proof (cases "n < 10")
    case True
    then show ?thesis
      using digits_val_append [of "[]" "digit_char n"] by (subst dec_str.simps) simp
  next
    case False
    with 1 show ?thesis by (subst dec_str.simps) simp
  qed
qed

lemma is_digit_not_plus: "is_digit c \<Longrightarrow> c \<noteq> CHR ''+''"
  by (auto simp: is_digit_def)

lemma is_digit_not_dot: "is_digit c \<Longrightarrow> c \<noteq> CHR ''.''"
  by (auto simp: is_digit_def)

lemma is_digit_zero [simp]: "is_digit (CHR ''0'')"
  by (simp add: is_digit_def)

lemma parse_u64_digits:
  assumes "s \<noteq> []" "list_all is_digit s"
  shows "parse_u64 s = (if digits_val s < 2 ^ 64 then Some (of_nat (digits_val s)) else None)"
  using assms by (cases s) (auto simp: parse_u64_def dest: is_digit_not_plus)

lemma parse_u64_dec_str [simp]: "parse_u64 (dec_str (unat w)) = Some w"
  using unat_bound [of w] by (simp add: parse_u64_digits)

lemma parse_u64_non_digit:
  assumes "c \<in> set s" "\<not> is_digit c" "c \<noteq> CHR ''+''"
  shows "parse_u64 s = None"
  using assms by (cases s) (auto simp: parse_u64_def list_all_iff)

lemma foldl_zeros: "digits_val (replicate k (CHR ''0'')) = 0"
  by (induction k) (auto simp: digits_val_def digit_val_def)

lemma foldl_digits_zero_prefix:
  "digits_val (replicate k (CHR ''0'') @ s) = digits_val s"
  using foldl_zeros [of k] by (simp add: digits_val_def)

lemma digits_val_pad_left [simp]: "digits_val (pad_left w s) = digits_val s"
  by (simp add: pad_left_def foldl_digits_zero_prefix)

lemma all_digits_pad_left [simp]: "list_all is_digit (pad_left w s) = list_all is_digit s"
  by (auto simp: pad_left_def list_all_iff)

lemma pad_left_not_Nil [simp]: "s \<noteq> [] \<Longrightarrow> pad_left w s \<noteq> []"
  by (simp add: pad_left_def)

lemma length_pad_left: "length (pad_left w s) = max w (length s)"
  by (simp add: pad_left_def)

lemma pad_right_id: "w \<le> length s \<Longrightarrow> pad_right w s = s"
  by (simp add: pad_right_def)

lemma split_on_none: "c \<notin> set s \<Longrightarrow> split_on c s = [s]"
  by (induction s) auto

lemma split_on_one: "c \<notin> set s \<Longrightarrow> c \<notin> set t \<Longrightarrow> split_on c (s @ c # t) = [s, t]"
  by (induction s) (auto simp: split_on_none)

lemma all_digits_no_dot: "list_all is_digit s \<Longrightarrow> CHR ''.'' \<notin> set s"
  by (auto simp: list_all_iff dest: is_digit_not_dot)

end
