(* ===== verification/Coin_Amount.thy ===== *)
theory Coin_Amount
  imports Decimal_Text "HOL-Library.Multiset"
begin

text \<open>
  The amount type \<open>Coin\<close> of chain-core/src/init/coin.rs: a \<open>u64\<close> newtype whose
  constructors keep the value at or below the total supply \<open>MAX_COIN\<close>.  The
  maximal supply is larger than half of the \<open>u64\<close> range, so an unchecked sum of
  two legal amounts can wrap; the checked operators are what rules this out.
  The locale \<open>bounded_amount\<close> is the contract the rest of the system relies on
  (addition and subtraction either fail or agree with the natural numbers), and
  \<open>coin\<close> interprets it by the operators of the source.
\<close>

named_theorems coin_val_simps \<open>operations on amounts read as natural numbers\<close>

section \<open>Constants and the type\<close>

definition MAX_COIN_UNITS :: u64 where "MAX_COIN_UNITS = 100000000000"
definition MAX_COIN_DECIMALS :: u64 where "MAX_COIN_DECIMALS = 100000000"
definition MAX_COIN :: u64 where "MAX_COIN = 10000000000000000000"

datatype coin = Coin (coin_u64: u64)

datatype coin_error = OutOfBound u64 | ParseIntError | Negative | DividByZero | Overflow

instantiation coin :: linorder
begin

definition less_eq_coin :: "coin \<Rightarrow> coin \<Rightarrow> bool" where
  "less_eq_coin a b \<longleftrightarrow> coin_u64 a \<le> coin_u64 b"

definition less_coin :: "coin \<Rightarrow> coin \<Rightarrow> bool" where
  "less_coin a b \<longleftrightarrow> coin_u64 a < coin_u64 b"

instance
  by standard (auto simp: less_eq_coin_def less_coin_def coin.expand)

end

section \<open>Operations\<close>

definition coin_zero :: coin where "coin_zero = Coin 0"
definition coin_unit :: coin where "coin_unit = Coin 1"
definition coin_one :: coin where "coin_one = Coin MAX_COIN_DECIMALS"
definition coin_max :: coin where "coin_max = Coin MAX_COIN"

definition coin_new :: "u64 \<Rightarrow> coin_error + coin" where
  "coin_new v = (if v \<le> MAX_COIN then Ok (Coin v) else Err (OutOfBound v))"

definition coin_add :: "coin \<Rightarrow> coin \<Rightarrow> coin_error + coin" where
  "coin_add a b = (case checked_add (coin_u64 a) (coin_u64 b) of
     None \<Rightarrow> Err (OutOfBound 0) | Some v \<Rightarrow> coin_new v)"

definition coin_sub :: "coin \<Rightarrow> coin \<Rightarrow> coin_error + coin" where
  "coin_sub a b = (case checked_sub (coin_u64 a) (coin_u64 b) of
     None \<Rightarrow> Err Negative | Some v \<Rightarrow> coin_new v)"

definition coin_result_sub :: "coin_error + coin \<Rightarrow> coin \<Rightarrow> coin_error + coin" where
  "coin_result_sub r other = and_then r (\<lambda>c.
     if coin_u64 other > coin_u64 c then Err Negative
     else Ok (Coin (coin_u64 c - coin_u64 other)))"

definition coin_mul :: "coin \<Rightarrow> u64 \<Rightarrow> coin_error + coin" where
  "coin_mul a k = and_then (ok_or (checked_mul (coin_u64 a) k) Overflow) coin_new"

definition coin_div :: "coin \<Rightarrow> u64 \<Rightarrow> coin_error + coin" where
  "coin_div a k = map_sum id Coin (ok_or (checked_div (coin_u64 a) k) DividByZero)"

definition coin_rem :: "coin \<Rightarrow> u64 \<Rightarrow> coin_error + coin" where
  "coin_rem a k = map_sum id Coin (ok_or (checked_rem (coin_u64 a) k) DividByZero)"

definition coin_from_u32 :: "u32 \<Rightarrow> coin" where
  "coin_from_u32 c = Coin (ucast c)"

definition coin_display :: "coin \<Rightarrow> string" where
  "coin_display c = dec_str (unat (coin_u64 c div MAX_COIN_DECIMALS)) @ ''.'' @
     pad_left 8 (dec_str (unat (coin_u64 c mod MAX_COIN_DECIMALS)))"

definition coin_from_str :: "string \<Rightarrow> coin_error + coin" where
  "coin_from_str s = (case parse_u64 s of None \<Rightarrow> Err ParseIntError | Some v \<Rightarrow> coin_new v)"

definition coin_serialize :: "coin \<Rightarrow> string" where
  "coin_serialize c = dec_str (unat (coin_u64 c))"

definition coin_visit_str :: "string \<Rightarrow> coin option" where
  "coin_visit_str s = (case parse_u64 s of None \<Rightarrow> None
     | Some v \<Rightarrow> (case coin_new v of Inl e \<Rightarrow> None | Inr c \<Rightarrow> Some c))"

definition sum_coins :: "coin list \<Rightarrow> coin_error + coin" where
  "sum_coins cs = foldl (\<lambda>acc c. and_then acc (\<lambda>v. coin_add v c)) (coin_new 0) cs"

text \<open>
  \<open>Decode for Coin\<close>, over the decoded \<open>u64\<close> that the codec library hands to it.
\<close>

definition coin_decode :: "string + u64 \<times> bytes \<Rightarrow> string + coin \<times> bytes" where
  "coin_decode r = and_then r (\<lambda>(num, rest).
     if num > MAX_COIN then Err ''Value greater than maximum allowed'' else Ok (Coin num, rest))"

section \<open>Values\<close>

definition coin_val :: "coin \<Rightarrow> nat" where
  "coin_val c = unat (coin_u64 c)"

definition valid_coin :: "coin \<Rightarrow> bool" where
  "valid_coin c \<longleftrightarrow> coin_u64 c \<le> MAX_COIN"

abbreviation max_supply :: nat where "max_supply \<equiv> 10000000000000000000"

lemma unat_MAX_COIN [simp]: "unat MAX_COIN = max_supply"
  by (simp add: MAX_COIN_def)

lemma valid_coin_iff [coin_val_simps]: "valid_coin c \<longleftrightarrow> coin_val c \<le> max_supply"
  by (simp add: valid_coin_def coin_val_def word_le_nat_alt)

lemma coin_eq_iff: "a = b \<longleftrightarrow> coin_val a = coin_val b"
  by (cases a; cases b) (simp add: coin_val_def word_unat_eq_iff)

lemma coin_le_iff [coin_val_simps]: "a \<le> b \<longleftrightarrow> coin_val a \<le> coin_val b"
  by (simp add: less_eq_coin_def coin_val_def word_le_nat_alt)

lemma coin_less_iff [coin_val_simps]: "a < b \<longleftrightarrow> coin_val a < coin_val b"
  by (simp add: less_coin_def coin_val_def word_less_nat_alt)

lemma coin_val_consts [simp]:
  "coin_val coin_zero = 0" "coin_val coin_unit = 1" "coin_val coin_max = max_supply"
  by (simp_all add: coin_val_def coin_zero_def coin_unit_def coin_max_def)

lemma coin_val_Coin [simp]: "coin_val (Coin v) = unat v"
  by (simp add: coin_val_def)

lemma coin_new_eq_Ok:
  "coin_new v = Ok c \<longleftrightarrow> coin_val c = unat v \<and> unat v \<le> max_supply"
  by (cases c) (auto simp: coin_new_def word_le_nat_alt word_unat_eq_iff)

lemma coin_new_val: "coin_new v = Ok c \<Longrightarrow> coin_val c = unat v"
  by (simp add: coin_new_eq_Ok)

lemma coin_add_eq_Ok [coin_val_simps]:
  "coin_add a b = Ok c \<longleftrightarrow> coin_val c = coin_val a + coin_val b \<and> coin_val a + coin_val b \<le> max_supply"
proof (cases "checked_add (coin_u64 a) (coin_u64 b)")
  case None
  moreover have "2 ^ 64 \<le> coin_val a + coin_val b"
    using None by (simp add: checked_add_eq_None coin_val_def)
  ultimately show ?thesis by (simp add: coin_add_def)
next
  case (Some v)
  then show ?thesis
    using checked_add_eq_Some [of "coin_u64 a" "coin_u64 b" v]
    by (auto simp: coin_add_def coin_new_eq_Ok coin_val_def)
qed

lemma coin_add_is_Err:
  "(\<exists>e. coin_add a b = Err e) \<longleftrightarrow> max_supply < coin_val a + coin_val b"
proof (cases "coin_add a b")
  case (Inr c)
  then have "coin_val a + coin_val b \<le> max_supply" by (simp add: coin_add_eq_Ok)
  with Inr show ?thesis by simp
next
  case (Inl e)
  have "\<not> coin_val a + coin_val b \<le> max_supply"
  proof
    assume le: "coin_val a + coin_val b \<le> max_supply"
    then have "coin_add a b = Ok (Coin (coin_u64 a + coin_u64 b))"
      by (simp add: coin_add_eq_Ok coin_val_def word_val)
    with Inl show False by simp
  qed
  with Inl show ?thesis by simp
qed

lemma coin_add_total:
  "coin_val a + coin_val b \<le> max_supply \<Longrightarrow> \<exists>c. coin_add a b = Ok c"
  using coin_add_is_Err [of a b] by (cases "coin_add a b") auto

lemma coin_sub_eq_Ok [coin_val_simps]:
  "coin_sub a b = Ok c \<longleftrightarrow> coin_val a = coin_val c + coin_val b \<and> coin_val c \<le> max_supply"
proof (cases "checked_sub (coin_u64 a) (coin_u64 b)")
  case None
  moreover have "coin_val a < coin_val b"
    using None by (simp add: checked_sub_eq_None coin_val_def)
  ultimately show ?thesis by (simp add: coin_sub_def)
next
  case (Some v)
  then show ?thesis
    using checked_sub_eq_Some [of "coin_u64 a" "coin_u64 b" v]
    by (auto simp: coin_sub_def coin_new_eq_Ok coin_val_def)
qed

lemma coin_sub_total:
  assumes "valid_coin a" "coin_val b \<le> coin_val a"
  shows "\<exists>c. coin_sub a b = Ok c"
proof -
  have "coin_sub a b = Ok (Coin (coin_u64 a - coin_u64 b))"
    using assms by (simp add: coin_sub_eq_Ok coin_val_def word_val word_le_nat_alt valid_coin_def)
  then show ?thesis ..
qed

lemma coin_sub_negative: "coin_sub a b = Err Negative \<longleftrightarrow> coin_val a < coin_val b"
  by (auto simp: coin_sub_def coin_new_def checked_sub_def coin_val_def word_le_nat_alt
      split: if_splits)

lemma coin_div_eq_Ok [coin_val_simps]:
  "coin_div a k = Ok c \<longleftrightarrow> k \<noteq> 0 \<and> coin_val c = coin_val a div unat k"
  by (cases c) (auto simp: coin_div_def checked_div_def coin_val_def word_val word_unat_eq_iff)

lemma coin_rem_eq_Ok [coin_val_simps]:
  "coin_rem a k = Ok c \<longleftrightarrow> k \<noteq> 0 \<and> coin_val c = coin_val a mod unat k"
  by (cases c) (auto simp: coin_rem_def checked_rem_def coin_val_def word_val word_unat_eq_iff)

lemma coin_mul_eq_Ok [coin_val_simps]:
  "coin_mul a k = Ok c \<longleftrightarrow> coin_val c = coin_val a * unat k \<and> coin_val a * unat k \<le> max_supply"
proof (cases "checked_mul (coin_u64 a) k")
  case None
  then show ?thesis by (auto simp: coin_mul_def checked_mul_def coin_val_def split: if_splits)
next
  case (Some v)
  then show ?thesis
    using checked_mul_eq_Some [of "coin_u64 a" k v]
    by (auto simp: coin_mul_def coin_new_eq_Ok coin_val_def)
qed

section \<open>The contract of amounts\<close>

text \<open>
  What every user of an amount type relies on: addition and subtraction fail
  exactly at the bounds and otherwise agree with the natural numbers.
\<close>

locale bounded_amount =
  fixes val :: "'c \<Rightarrow> nat" and cap :: nat and zero :: 'c
    and add :: "'c \<Rightarrow> 'c \<Rightarrow> 'e + 'c" and sub :: "'c \<Rightarrow> 'c \<Rightarrow> 'e + 'c"
  assumes val_inj: "val a = val b \<Longrightarrow> a = b"
    and val_zero: "val zero = 0"
    and add_Ok: "add a b = Inr c \<longleftrightarrow> val c = val a + val b \<and> val a + val b \<le> cap"
    and add_total: "val a + val b \<le> cap \<Longrightarrow> \<exists>c. add a b = Inr c"
    and sub_Ok: "sub a b = Inr c \<longleftrightarrow> val a = val c + val b \<and> val c \<le> cap"
begin

lemma add_commute_Ok: "add a b = Inr c \<longleftrightarrow> add b a = Inr c"
  by (auto simp: add_Ok)

lemma add_sub_inverse: "add a b = Inr c \<Longrightarrow> sub c b = Inr a"
  by (auto simp: add_Ok sub_Ok)

lemma sub_add_inverse: "sub a b = Inr c \<Longrightarrow> val a \<le> cap \<Longrightarrow> add c b = Inr a"
  by (auto simp: add_Ok sub_Ok)

text \<open>A left-to-right checked sum is the sum of the values, and fails only above the cap.\<close>

lemma fold_add_Err: "foldl (\<lambda>acc c. and_then acc (\<lambda>v. add v c)) (Inl e) cs = Inl e"
  by (induction cs) auto

lemma fold_add_Ok:
  assumes "val z \<le> cap"
  shows "foldl (\<lambda>acc c. and_then acc (\<lambda>v. add v c)) (Inr z) cs = Inr t \<longleftrightarrow>
    val t = val z + sum_list (map val cs) \<and> val z + sum_list (map val cs) \<le> cap"
  using assms
proof (induction cs arbitrary: z)
  case Nil
  then show ?case using val_inj by auto
next
  case (Cons c cs)
  show ?case
  proof (cases "val z + val c \<le> cap")
    case True
    then obtain y where y: "add z c = Inr y" using add_total by blast
    then have "val y = val z + val c" by (simp add: add_Ok)
    with Cons.IH [of y] True y show ?thesis by (simp add: add.assoc)
  next
    case False
    then obtain e where "add z c = Inl e"
      using add_Ok [of z c] by (cases "add z c") auto
    with False show ?thesis by (simp add: fold_add_Err)
  qed
qed

lemma fold_add_total:
  assumes "val z + sum_list (map val cs) \<le> cap"
  shows "\<exists>t. foldl (\<lambda>acc c. and_then acc (\<lambda>v. add v c)) (Inr z) cs = Inr t"
  using assms
proof (induction cs arbitrary: z)
  case Nil
  then show ?case by simp
next
  case (Cons c cs)
  then obtain y where y: "add z c = Inr y" using add_total [of z c] by auto
  with Cons.prems have "val y + sum_list (map val cs) \<le> cap" by (simp add: add_Ok)
  from Cons.IH [OF this] y show ?case by simp
qed

end

interpretation coin: bounded_amount coin_val max_supply coin_zero coin_add coin_sub
  by unfold_locales
    (use coin_add_total in \<open>auto simp: coin_eq_iff coin_add_eq_Ok coin_sub_eq_Ok\<close>)

lemma coin_new_zero [simp]: "coin_new 0 = Ok coin_zero"
  by (simp add: coin_new_def coin_zero_def)

lemma sum_coins_eq_Ok [coin_val_simps]:
  "sum_coins cs = Ok t \<longleftrightarrow>
     coin_val t = sum_list (map coin_val cs) \<and> sum_list (map coin_val cs) \<le> max_supply"
  using coin.fold_add_Ok [of coin_zero cs t] by (simp add: sum_coins_def)

lemma sum_coins_total:
  "sum_list (map coin_val cs) \<le> max_supply \<Longrightarrow> \<exists>t. sum_coins cs = Ok t"
  using coin.fold_add_total [of coin_zero cs] by (simp add: sum_coins_def)

lemma sum_coins_Err: "sum_coins cs = Err e \<Longrightarrow> max_supply < sum_list (map coin_val cs)"
  using sum_coins_total [of cs] by (cases "max_supply < sum_list (map coin_val cs)") auto

lemma sum_coins_perm:
  assumes "mset cs = mset ds"
  shows "sum_coins cs = Ok t \<longleftrightarrow> sum_coins ds = Ok t"
proof -
  have "sum_list (map coin_val cs) = sum_list (map coin_val ds)"
    using assms by (metis mset_map sum_mset_sum_list)
  then show ?thesis by (simp add: sum_coins_eq_Ok)
qed

lemma valid_coin_add: "coin_add a b = Ok c \<Longrightarrow> valid_coin c"
  by (simp add: coin_val_simps)

lemma valid_coin_sub: "coin_sub a b = Ok c \<Longrightarrow> valid_coin c"
  by (simp add: coin_val_simps)

lemma valid_coin_consts [simp]: "valid_coin coin_zero" "valid_coin coin_max" "valid_coin coin_unit"
  by (simp_all add: valid_coin_iff)

lemma coin_from_u32_val [simp]: "coin_val (coin_from_u32 c) = unat c"
  by (simp add: coin_from_u32_def unat_ucast_up)

end
