(* ===== verification/Milli_Fee.thy ===== *)
theory Milli_Fee
  imports Coin_Amount
begin

text \<open>
  The three-digit fixed-point numbers \<open>Milli\<close> and the fee policy of
  chain-core/src/tx/fee/mod.rs, the \<open>SlashRatio\<close> of chain-core/src/init/params.rs
  and the product of an amount and a ratio of chain-core/src/init/coin.rs.  The
  square root is a Newton iteration that stops on a difference of at most one
  thousandth; it is a \<open>partial_function\<close> and its termination is a theorem.
\<close>

section \<open>Fixed-point numbers\<close>

datatype milli = Milli (millis: u64)

instantiation milli :: linorder
begin

definition less_eq_milli :: "milli \<Rightarrow> milli \<Rightarrow> bool" where
  "less_eq_milli a b \<longleftrightarrow> millis a \<le> millis b"

definition less_milli :: "milli \<Rightarrow> milli \<Rightarrow> bool" where
  "less_milli a b \<longleftrightarrow> millis a < millis b"

instance
  by standard (auto simp: less_eq_milli_def less_milli_def milli.expand)

end

definition milli_new :: "u64 \<Rightarrow> u64 \<Rightarrow> milli" where
  "milli_new i f = Milli (i * 1000 + f mod 1000)"

definition milli_integral :: "u64 \<Rightarrow> milli" where
  "milli_integral i = Milli (i * 1000)"

definition to_integral :: "milli \<Rightarrow> u64" where
  "to_integral m = (if millis m mod 1000 = 0 then millis m div 1000 else millis m div 1000 + 1)"

definition to_integral_trunc :: "milli \<Rightarrow> u64" where
  "to_integral_trunc m = millis m div 1000"

definition milli_add :: "milli \<Rightarrow> milli \<Rightarrow> milli" where
  "milli_add a b = Milli (millis a + millis b)"

definition milli_mul :: "milli \<Rightarrow> milli \<Rightarrow> milli" where
  "milli_mul a b = (let v = (ucast (millis a) :: u128) * ucast (millis b) in Milli (ucast (v div 1000)))"

definition milli_div :: "milli \<Rightarrow> milli \<Rightarrow> milli run" where
  "milli_div a b =
     (let numerator = (ucast (millis a) :: u128) * 1000; denominator = (ucast (millis b) :: u128) in
      if denominator = 0 then Panic ''attempt to divide by zero''
      else Done (Milli (ucast (numerator div denominator))))"

definition improve_sqrt :: "milli \<Rightarrow> milli \<Rightarrow> milli run" where
  "improve_sqrt n estimate = run_bind (milli_div n estimate)
     (\<lambda>q. let result = milli_add estimate q in Done (Milli (drop_bit 1 (millis result))))"

definition milli_diff :: "milli \<Rightarrow> milli \<Rightarrow> milli" where
  "milli_diff a b = (if a > b then Milli (millis a - millis b) else Milli (millis b - millis a))"

partial_function (option) sqrt_loop :: "milli \<Rightarrow> milli \<Rightarrow> milli \<Rightarrow> milli run option" where
  "sqrt_loop n sqrt improved =
     (if milli_diff sqrt improved > Milli 1 then
        (case improve_sqrt n improved of
           Panic s \<Rightarrow> Some (Panic s)
         | Done improved' \<Rightarrow> sqrt_loop n improved improved')
      else Some (Done improved))"

definition milli_sqrt :: "milli \<Rightarrow> milli run option" where
  "milli_sqrt n = (case improve_sqrt n (Milli 1000) of
     Panic s \<Rightarrow> Some (Panic s) | Done improved \<Rightarrow> sqrt_loop n (Milli 1000) improved)"

datatype milli_error = InvalidPartsLength nat | InvalidInteger

definition milli_from_str :: "string \<Rightarrow> milli_error + milli" where
  "milli_from_str s = (let parts = split_on (CHR ''.'') s; len = length parts in
     if len = 1 then
       and_then (ok_or (parse_u64 (parts ! 0)) InvalidInteger) (\<lambda>integral. Ok (milli_new integral 0))
     else if len = 2 then
       and_then (ok_or (parse_u64 (parts ! 0)) InvalidInteger) (\<lambda>integral.
       and_then (ok_or (parse_u64 (pad_right 3 (parts ! 1))) InvalidInteger) (\<lambda>fractional.
         Ok (milli_new integral fractional)))
     else Err (InvalidPartsLength len))"

definition milli_display :: "milli \<Rightarrow> string" where
  "milli_display m = dec_str (unat (millis m div 1000)) @ ''.'' @
     pad_left 3 (dec_str (unat (millis m mod 1000)))"

section \<open>Fees\<close>

datatype fee = Fee (to_coin: coin)

record linear_fee =
  fee_constant :: milli
  fee_coefficient :: milli

definition estimate :: "linear_fee \<Rightarrow> u64 \<Rightarrow> coin_error + fee" where
  "estimate p sz =
     (let msz = milli_integral sz;
          f = milli_add (fee_constant p) (milli_mul (fee_coefficient p) msz) in
      and_then (coin_new (to_integral f)) (\<lambda>c. Ok (Fee c)))"

section \<open>Slash ratios\<close>

datatype slash_ratio = SlashRatio (ratio_milli: milli)

datatype slash_ratio_error = GreaterThanMax | SlashMilliError milli_error

definition MAX_SLASH_RATIO :: milli where "MAX_SLASH_RATIO = milli_new 1 0"

definition slash_ratio_try_from :: "milli \<Rightarrow> slash_ratio_error + slash_ratio" where
  "slash_ratio_try_from m = (if m > MAX_SLASH_RATIO then Err GreaterThanMax else Ok (SlashRatio m))"

definition slash_ratio_mul :: "slash_ratio \<Rightarrow> slash_ratio \<Rightarrow> slash_ratio run" where
  "slash_ratio_mul a b = expect (slash_ratio_try_from (milli_mul (ratio_milli a) (ratio_milli b)))
     ''Slash ratio is greater than 1.0 after multiplication''"

definition slash_ratio_from_str :: "string \<Rightarrow> slash_ratio_error + slash_ratio" where
  "slash_ratio_from_str s = and_then (map_err SlashMilliError (milli_from_str s)) slash_ratio_try_from"

definition coin_mul_ratio :: "coin \<Rightarrow> slash_ratio \<Rightarrow> coin run" where
  "coin_mul_ratio c r =
     (let value = (ucast (coin_u64 c) :: u128); ratio = (ucast (millis (ratio_milli r)) :: u128) in
      run_bind (assert_run (ratio \<le> 1000) ''Slash ratio is greater than 1.0'')
        (\<lambda>_. Done (Coin (ucast (value * ratio div 1000)))))"

section \<open>Values\<close>

definition milli_val :: "milli \<Rightarrow> nat" where
  "milli_val m = unat (millis m)"

definition valid_ratio :: "slash_ratio \<Rightarrow> bool" where
  "valid_ratio r \<longleftrightarrow> milli_val (ratio_milli r) \<le> 1000"

lemma milli_eq_iff: "a = b \<longleftrightarrow> milli_val a = milli_val b"
  by (cases a; cases b) (simp add: milli_val_def word_unat_eq_iff)

lemma milli_le_iff: "a \<le> b \<longleftrightarrow> milli_val a \<le> milli_val b"
  by (simp add: less_eq_milli_def milli_val_def word_le_nat_alt)

lemma milli_less_iff: "a < b \<longleftrightarrow> milli_val a < milli_val b"
  by (simp add: less_milli_def milli_val_def word_less_nat_alt)

lemma milli_val_Milli [simp]: "milli_val (Milli v) = unat v"
  by (simp add: milli_val_def)

lemma milli_val_bound: "milli_val m < 2 ^ 64"
  using unat_bound [of "millis m"] by (simp add: milli_val_def)

lemma unat_u128_of_u64 [simp]: "unat (ucast (a :: u64) :: u128) = unat a"
  by (rule unat_ucast_up) simp

lemma unat_u128_mul: "unat ((ucast (a :: u64) :: u128) * ucast (b :: u64)) = unat a * unat b"
proof -
  have "unat a * unat b < 2 ^ 64 * 2 ^ 64"
    using unat_bound [of a] unat_bound [of b] by (intro mult_strict_mono) auto
  then have "unat (ucast a :: u128) * unat (ucast b :: u128) < 2 ^ LENGTH(128)" by simp
  then show ?thesis by (subst unat_mul_no_wrap) simp_all
qed

lemma unat_u128_mul_1000: "unat ((ucast (a :: u64) :: u128) * 1000) = unat a * 1000"
proof -
  have "unat a * 1000 < 2 ^ 128" using unat_bound [of a] by simp
  then show ?thesis by (simp add: unat_mul_no_wrap)
qed

lemma milli_mul_val:
  "milli_val a * milli_val b div 1000 < 2 ^ 64 \<Longrightarrow>
   milli_val (milli_mul a b) = milli_val a * milli_val b div 1000"
  by (simp add: milli_mul_def Let_def milli_val_def)
    (subst unat_ucast_small; simp add: unat_div unat_u128_mul)

lemma milli_div_Done:
  assumes "milli_val b \<noteq> 0" "milli_val a * 1000 div milli_val b < 2 ^ 64"
  obtains q where "milli_div a b = Done q" "milli_val q = milli_val a * 1000 div milli_val b"
proof -
  have nz: "(ucast (millis b) :: u128) \<noteq> 0"
    using assms(1) by (simp add: milli_val_def word_unat_eq_iff)
  let ?v = "(ucast (millis a) :: u128) * 1000 div ucast (millis b)"
  have "unat ?v = milli_val a * 1000 div milli_val b"
    by (simp add: unat_div unat_u128_mul_1000 milli_val_def)
  then have "unat (ucast ?v :: u64) = milli_val a * 1000 div milli_val b"
    using assms(2) by (simp add: unat_ucast_small)
  with nz that show ?thesis by (simp add: milli_div_def Let_def)
qed

lemma milli_add_val:
  "milli_val a + milli_val b < 2 ^ 64 \<Longrightarrow> milli_val (milli_add a b) = milli_val a + milli_val b"
  by (simp add: milli_add_def milli_val_def unat_add_no_wrap)

lemma milli_diff_val:
  "milli_val (milli_diff a b) = (if milli_val a > milli_val b then milli_val a - milli_val b else milli_val b - milli_val a)"
  by (auto simp: milli_diff_def milli_less_iff milli_val_def unat_sub_no_wrap word_le_nat_alt)

lemma ceil_div_1000:
  "(v + 999) div (1000 :: nat) = (if v mod 1000 = 0 then v div 1000 else v div 1000 + 1)"
proof -
  define q where "q = v div 1000"
  define r where "r = v mod 1000"
  have v: "v = 1000 * q + r" "r < 1000" by (simp_all add: q_def r_def)
  show ?thesis
  proof (cases "r = 0")
    case True
    have "(v + 999) div 1000 = q" by (rule div_nat_eqI) (use v True in simp_all)
    with True show ?thesis by (simp add: q_def r_def)
  next
    case False
    have "(v + 999) div 1000 = q + 1" by (rule div_nat_eqI) (use v False in simp_all)
    with False show ?thesis by (simp add: q_def r_def)
  qed
qed

lemma to_integral_val: "unat (to_integral m) = (milli_val m + 999) div 1000"
proof -
  have "unat (millis m) div 1000 + 1 < 2 ^ 64" using unat_bound [of "millis m"] by simp
  then have "unat (millis m div 1000 + 1) = unat (millis m) div 1000 + 1"
    by (simp add: unat_add_no_wrap unat_div)
  moreover have "millis m mod 1000 = 0 \<longleftrightarrow> unat (millis m) mod 1000 = 0"
    by (simp add: word_unat_eq_iff unat_mod)
  ultimately show ?thesis
    by (simp add: to_integral_def milli_val_def unat_div ceil_div_1000)
qed

section \<open>The Newton iteration\<close>

text \<open>
  One step on natural numbers.  For any positive estimate the next estimate is at
  least the integer square root (\<open>newton_upper\<close>); from above the root the step
  never overshoots by more than one (\<open>newton_le_Suc\<close>); and a step that moves by
  at most one ends within one of the root (\<open>newton_lower\<close>).
\<close>

definition newton :: "nat \<Rightarrow> nat \<Rightarrow> nat" where
  "newton N x = (x + N div x) div 2"

lemma mult_le_square_mean: "x * (2 * m - x) \<le> m * (m :: nat)"
proof (cases "x \<le> 2 * m")
  case True
  then obtain d where d: "2 * m = x + d" using le_Suc_ex by blast
  have "4 * (x * d) \<le> (x + d) * (x + d)"
  proof -
    have "0 \<le> (int x - int d) * (int x - int d)" by simp
    then have "4 * (int x * int d) \<le> (int x + int d) * (int x + int d)"
      by (simp add: algebra_simps)
    then show ?thesis by (metis of_nat_add of_nat_le_iff of_nat_mult of_nat_numeral)
  qed
  moreover have "(x + d) * (x + d) = 4 * (m * m)" using d by (simp flip: d)
  moreover have "2 * m - x = d" using d by simp
  ultimately show ?thesis by simp
qed simp

lemma newton_upper:
  assumes "1 \<le> x"
  shows "N < (newton N x + 1) * (newton N x + 1)"
proof -
  let ?y = "newton N x"
  have "x + N div x < 2 * (?y + 1)"
    using dividend_less_div_times [of 2 "x + N div x"] by (simp add: newton_def)
  then have "N div x < 2 * (?y + 1) - x" by linarith
  then have "N < x * (2 * (?y + 1) - x)"
    using assms by (simp add: div_less_iff_less_mult mult.commute)
  also have "\<dots> \<le> (?y + 1) * (?y + 1)" by (rule mult_le_square_mean)
  finally show ?thesis .
qed

lemma newton_ge_root:
  assumes "1 \<le> x" "s * s \<le> N"
  shows "s \<le> newton N x"
proof (rule ccontr)
  assume "\<not> s \<le> newton N x"
  then have "newton N x + 1 \<le> s" by simp
  then have "(newton N x + 1) * (newton N x + 1) \<le> s * s" by (intro mult_mono) auto
  with assms newton_upper [of x N] show False by linarith
qed

lemma newton_le_Suc:
  assumes "1 \<le> x" "N < (x + 1) * (x + 1)"
  shows "newton N x \<le> x + 1"
proof -
  have "N < x * (x + 3)" using assms by (simp add: algebra_simps)
  then have "N div x < x + 3" using assms(1) by (simp add: div_less_iff_less_mult mult.commute)
  then show ?thesis unfolding newton_def by linarith
qed

lemma newton_lower:
  assumes "1 \<le> x" "x \<le> newton N x + 1" "newton N x \<le> x + 1"
  shows "(newton N x - 1) * (newton N x - 1) \<le> N"
proof -
  let ?y = "newton N x"
  have "2 * ?y - x \<le> N div x" unfolding newton_def by linarith
  then have N: "(2 * ?y - x) * x \<le> N"
    using assms(1) by (simp add: less_eq_div_iff_mult_less_eq)
  consider "x = ?y + 1" | "x = ?y" | "x + 1 = ?y" using assms by linarith
  then have "(?y - 1) * (?y - 1) \<le> (2 * ?y - x) * x"
  proof cases
    case 1
    have "2 * ?y - x = ?y - 1" using 1 by linarith
    then show ?thesis using 1 by (metis diff_le_self le_add1 le_trans mult_le_mono2)
  next
    case 2
    have "2 * ?y - x = ?y" using 2 by linarith
    then show ?thesis using 2 by (metis diff_le_self mult_le_mono)
  next
    case 3
    have "2 * ?y - x = ?y + 1" "x = ?y - 1" using 3 by linarith+
    then show ?thesis by (metis diff_le_self le_add1 le_trans mult_le_mono1)
  qed
  with N show ?thesis by linarith
qed

text \<open>The word-level step is the step on natural numbers while nothing wraps.\<close>

lemma improve_sqrt_Done:
  assumes "milli_val x \<noteq> 0" "milli_val x + 1000 * milli_val n div milli_val x < 2 ^ 64"
  obtains y where "improve_sqrt n x = Done y" "milli_val y = newton (1000 * milli_val n) (milli_val x)"
proof -
  have "milli_val n * 1000 div milli_val x < 2 ^ 64"
    using assms(2) by (simp add: mult.commute)
  then obtain q where q: "milli_div n x = Done q" "milli_val q = milli_val n * 1000 div milli_val x"
    using milli_div_Done [OF assms(1)] by blast
  let ?y = "Milli (drop_bit 1 (millis (milli_add x q)))"
  have "milli_val (milli_add x q) = milli_val x + milli_val q"
    using assms(2) q(2) by (intro milli_add_val) (simp add: mult.commute)
  moreover have "milli_val ?y = milli_val (milli_add x q) div 2"
    by (simp add: milli_val_def drop_bit_eq_div unat_div)
  ultimately have "milli_val ?y = newton (1000 * milli_val n) (milli_val x)"
    using q(2) by (simp add: newton_def mult.commute)
  then show ?thesis using that q(1) by (simp add: improve_sqrt_def)
qed

definition near_root :: "nat \<Rightarrow> nat \<Rightarrow> bool" where
  "near_root N r \<longleftrightarrow> (r - 1) * (r - 1) \<le> N \<and> N < (r + 1) * (r + 1)"

lemma newton_stop:
  assumes "1 \<le> milli_val x" "milli_val y = newton N (milli_val x)"
    and "\<not> milli_diff x y > Milli 1"
  shows "near_root N (milli_val y)"
proof -
  have "milli_val x \<le> milli_val y + 1" "milli_val y \<le> milli_val x + 1"
    using assms(3) by (auto simp: milli_less_iff milli_diff_val split: if_splits)
  then show ?thesis
    using assms newton_lower [of "milli_val x" N] newton_upper [of "milli_val x" N]
    by (simp add: near_root_def)
qed

lemma sqrt_loop_stop: "\<not> milli_diff x y > Milli 1 \<Longrightarrow> sqrt_loop n x y = Some (Done y)"
  by (subst sqrt_loop.simps) simp

lemma sqrt_loop_step:
  "milli_diff x y > Milli 1 \<Longrightarrow> improve_sqrt n y = Done z \<Longrightarrow> sqrt_loop n x y = sqrt_loop n y z"
  by (subst sqrt_loop.simps) simp

lemma newton_next_small:
  fixes y N :: nat
  assumes "1 \<le> y" "N < (y + 1) * (y + 1)" "y + 2 \<le> 2 ^ 63"
  shows "y + N div y < 2 ^ (64 :: nat)"
proof -
  have "N < y * (y + 3)" using assms by (simp add: algebra_simps)
  then have "N div y < y + 3" using assms(1) by (simp add: div_less_iff_less_mult mult.commute)
  with assms(3) show ?thesis by simp
qed

lemma sqrt_loop_result:
  assumes "1 \<le> milli_val x" "milli_val y = newton N (milli_val x)"
    and "milli_val y + 2 \<le> 2 ^ 63" and N: "N = 1000 * milli_val n"
  shows "\<exists>r. sqrt_loop n x y = Some (Done r) \<and> near_root N (milli_val r)"
  using assms(1-3)
proof (induction "milli_val y" arbitrary: x y rule: less_induct)
  case less
  show ?case
  proof (cases "milli_diff x y > Milli 1")
    case False
    with less.prems show ?thesis by (blast intro: sqrt_loop_stop newton_stop)
  next
    case True
    have y1: "1 \<le> milli_val y"
    proof (rule ccontr)
      assume "\<not> 1 \<le> milli_val y"
      then have "milli_val y = 0" by simp
      moreover from this True have "2 \<le> milli_val x"
        by (simp add: milli_less_iff milli_diff_val split: if_splits)
      ultimately show False using less.prems(2) by (simp add: newton_def)
    qed
    have up: "N < (milli_val y + 1) * (milli_val y + 1)"
      using newton_upper [OF less.prems(1), of N] less.prems(2) by simp
    have "milli_val y + 1000 * milli_val n div milli_val y < 2 ^ 64"
      using newton_next_small [OF y1 up less.prems(3)] N by simp
    moreover have "milli_val y \<noteq> 0" using y1 by simp
    ultimately obtain z where z: "improve_sqrt n y = Done z" "milli_val z = newton N (milli_val y)"
      using improve_sqrt_Done N by metis
    note step = sqrt_loop_step [OF True z(1)]
    show ?thesis
    proof (cases "milli_val z < milli_val y")
      case True
      with less.hyps [OF True y1 z(2)] less.prems(3) step show ?thesis by simp
    next
      case False
      moreover have "milli_val z \<le> milli_val y + 1"
        using newton_le_Suc [OF y1 up] z(2) by simp
      ultimately have "\<not> milli_diff y z > Milli 1"
        by (auto simp: milli_less_iff milli_diff_val split: if_splits)
      with newton_stop [OF y1 z(2)] step show ?thesis by (simp add: sqrt_loop_stop)
    qed
  qed
qed

lemma milli_sqrt_Done:
  assumes "milli_val n < 2 ^ 64 - 2000"
  shows "\<exists>r. milli_sqrt n = Some (Done r) \<and> near_root (1000 * milli_val n) (milli_val r)"
proof -
  have "milli_val (Milli 1000) + 1000 * milli_val n div milli_val (Milli 1000) < 2 ^ 64"
    using assms by simp
  then obtain y where y: "improve_sqrt n (Milli 1000) = Done y"
      "milli_val y = newton (1000 * milli_val n) (milli_val (Milli 1000))"
    using improve_sqrt_Done [of "Milli 1000" n] by auto
  then have "milli_val y + 2 \<le> 2 ^ 63" using assms by (simp add: newton_def)
  with y sqrt_loop_result [of "Milli 1000" y "1000 * milli_val n" n]
  show ?thesis by (simp add: milli_sqrt_def)
qed

text \<open>
  C36: \<open>Milli::sqrt\<close> terminates without a panic on every number below
  2^64 - 2000 thousandths, and its result is the integer square root of the
  scaled argument or one thousandth above it.
\<close>

theorem milli_sqrt_terminates:
  assumes "milli_val n < 2 ^ 64 - 2000"
  shows "\<exists>r. milli_sqrt n = Some (Done r) \<and>
    (milli_val r - 1) * (milli_val r - 1) \<le> 1000 * milli_val n \<and>
    1000 * milli_val n < (milli_val r + 1) * (milli_val r + 1)"
  using milli_sqrt_Done [OF assms] unfolding near_root_def .

theorem milli_sqrt_terminates_witness:
  "milli_val (Milli 2000) < 2 ^ 64 - 2000 \<and>
   (\<exists>r. milli_sqrt (Milli 2000) = Some (Done r) \<and>
     (milli_val r - 1) * (milli_val r - 1) \<le> 2000000 \<and> 2000000 < (milli_val r + 1) * (milli_val r + 1))"
  using milli_sqrt_terminates [of "Milli 2000"] by simp

section \<open>Text form\<close>

lemma dec_str_no_dot: "CHR ''.'' \<notin> set (dec_str n)"
  by (intro all_digits_no_dot) simp

lemma milli_display_parts:
  "split_on (CHR ''.'') (milli_display m) =
     [dec_str (unat (millis m div 1000)), pad_left 3 (dec_str (unat (millis m mod 1000)))]"
  by (simp add: milli_display_def split_on_one dec_str_no_dot all_digits_no_dot)

lemma milli_new_parts: "milli_new (v div 1000) (v mod 1000) = Milli v"
proof -
  have "v div 1000 * 1000 + v mod 1000 = v" by (rule div_mult_mod_eq)
  moreover have "v mod 1000 mod 1000 = v mod 1000" by (simp add: word_unat_eq_iff unat_mod)
  ultimately show ?thesis by (simp add: milli_new_def)
qed

text \<open>
  Printing a \<open>Milli\<close> and parsing the text gives the number back.
\<close>

theorem milli_text_roundtrip: "milli_from_str (milli_display m) = Ok m"
proof -
  let ?f = "dec_str (unat (millis m mod 1000))"
  have "parse_u64 (pad_left 3 ?f) = Some (millis m mod 1000)"
    using unat_bound [of "millis m mod 1000"] by (simp add: parse_u64_digits)
  moreover have "pad_right 3 (pad_left 3 ?f) = pad_left 3 ?f"
    by (simp add: pad_right_id length_pad_left)
  ultimately show ?thesis
    by (simp add: milli_from_str_def milli_display_parts milli_new_parts)
qed

text \<open>
  A fraction written with four digits keeps its last three, not its first
  three, so "1.2345" is read as 1.345.
\<close>

theorem milli_from_str_keeps_last_digits:
  "milli_from_str ''1.2345'' = Ok (Milli 1345)"
  by (simp add: milli_from_str_def parse_u64_def is_digit_def digits_val_def digit_val_def
      pad_right_def milli_new_def word_unat_eq_iff)

section \<open>Fees and ratios\<close>

text \<open>
  The linear fee of a size is the exact affine expression, rounded up to
  whole base units, as long as the thousandths involved fit 64 bits; it fails
  exactly when this exceeds the supply.
\<close>

theorem estimate_exact:
  assumes "unat sz * 1000 < 2 ^ 64"
    and "milli_val (fee_constant p) + milli_val (fee_coefficient p) * unat sz < 2 ^ 64"
  shows "estimate p sz = Ok (Fee c) \<longleftrightarrow>
    coin_val c = (milli_val (fee_constant p) + milli_val (fee_coefficient p) * unat sz + 999) div 1000 \<and>
    valid_coin c"
proof -
  let ?m = "milli_mul (fee_coefficient p) (milli_integral sz)"
  have "milli_val (milli_integral sz) = unat sz * 1000"
    using assms(1) by (simp add: milli_integral_def unat_mul_no_wrap)
  then have "milli_val ?m = milli_val (fee_coefficient p) * unat sz"
    using milli_mul_val [of "fee_coefficient p" "milli_integral sz"] assms(2)
    by (simp flip: mult.assoc)
  then have "milli_val (milli_add (fee_constant p) ?m) =
      milli_val (fee_constant p) + milli_val (fee_coefficient p) * unat sz"
    using assms(2) by (simp add: milli_add_val)
  then show ?thesis
    by (auto simp: estimate_def and_then_eq_Ok coin_new_eq_Ok to_integral_val valid_coin_iff)
qed

theorem estimate_exact_witness:
  "let p = \<lparr>fee_constant = Milli 1100, fee_coefficient = Milli 1250\<rparr> in
   estimate p 100 = Ok (Fee (Coin 127)) \<and> unat (100 :: u64) * 1000 < 2 ^ 64"
  using estimate_exact [of 100 "\<lparr>fee_constant = Milli 1100, fee_coefficient = Milli 1250\<rparr>" "Coin 127"]
  by (simp add: valid_coin_iff)

lemma MAX_SLASH_RATIO_val [simp]: "milli_val MAX_SLASH_RATIO = 1000"
  by (simp add: MAX_SLASH_RATIO_def milli_new_def)

lemma slash_ratio_try_from_Ok:
  "slash_ratio_try_from m = Ok r \<longleftrightarrow> r = SlashRatio m \<and> milli_val m \<le> 1000"
  by (auto simp: slash_ratio_try_from_def milli_less_iff)

lemma slash_ratio_mul_Done:
  assumes "valid_ratio a" "valid_ratio b"
  obtains r where "slash_ratio_mul a b = Done r" "valid_ratio r"
    "milli_val (ratio_milli r) = milli_val (ratio_milli a) * milli_val (ratio_milli b) div 1000"
proof -
  let ?m = "milli_mul (ratio_milli a) (ratio_milli b)"
  have le: "milli_val (ratio_milli a) * milli_val (ratio_milli b) \<le> 1000 * 1000"
    using assms by (intro mult_mono) (auto simp: valid_ratio_def)
  then have v: "milli_val ?m = milli_val (ratio_milli a) * milli_val (ratio_milli b) div 1000"
    by (intro milli_mul_val) simp
  moreover have "milli_val ?m \<le> 1000" using le v by simp
  ultimately show ?thesis
    using that [of "SlashRatio ?m"] by (simp add: slash_ratio_mul_def slash_ratio_try_from_def milli_less_iff valid_ratio_def)
qed

lemma coin_mul_ratio_Done:
  assumes "valid_ratio r"
  obtains s where "coin_mul_ratio c r = Done s" "coin_val s = coin_val c * milli_val (ratio_milli r) div 1000"
    "coin_val s \<le> coin_val c"
proof -
  let ?r = "millis (ratio_milli r)"
  have r: "unat ?r \<le> 1000" using assms by (simp add: valid_ratio_def milli_val_def)
  then have "(ucast ?r :: u128) \<le> 1000" by (simp add: word_le_nat_alt)
  moreover have le: "coin_val c * unat ?r div 1000 \<le> coin_val c"
    using r by (metis div_le_mono mult_le_mono2 nonzero_mult_div_cancel_right zero_neq_numeral)
  have "unat (ucast ((ucast (coin_u64 c) :: u128) * ucast ?r div 1000) :: u64) = coin_val c * unat ?r div 1000"
  proof (subst unat_ucast_small)
    show "unat ((ucast (coin_u64 c) :: u128) * ucast ?r div 1000) < 2 ^ LENGTH(64)"
      using le unat_bound [of "coin_u64 c"] by (simp add: unat_div unat_u128_mul coin_val_def)
  qed (simp add: unat_div unat_u128_mul coin_val_def)
  ultimately show ?thesis
    using that le by (simp add: coin_mul_ratio_def milli_val_def)
qed

end
