(* ===== verification/Merkle_Tree.thy ===== *)
theory Merkle_Tree
  imports Chain_Prelude
begin

text \<open>
  The Merkle trees with inclusion proofs of chain-core/src/common/merkle_tree.rs.
  The hash function Blake2s is code outside the repository: every operation that
  hashes takes it as its first argument, and the view of a value as bytes
  (\<open>AsRef<[u8]>\<close>) as its second.  Nothing is assumed about collisions; the
  soundness lemma asks only that the hash is injective on the finitely many byte
  strings that occur in the tree and in the proof.
\<close>

section \<open>Trees, paths and proofs\<close>

type_synonym hasher = "bytes \<Rightarrow> h256"

definition EMPTY_HASH :: h256 where
  "EMPTY_HASH = [227, 77, 116, 219, 175, 79, 244, 198, 171, 216, 113, 204, 34, 4, 81, 210,
     234, 38, 72, 132, 108, 119, 87, 251, 170, 200, 47, 229, 26, 214, 75, 234]"

datatype 'a mtree = Empty | Leaf h256 'a | Node h256 "'a mtree" "'a mtree"

datatype side = SideLeft | SideRight

record path_node =
  node_hash :: h256
  child_hash :: h256
  hash_side :: side

record path =
  leaf_hash :: h256
  nodes :: "path_node list"

record 'a proof_of =
  proof_path :: path
  proof_value :: 'a

record 'a merkle_tree =
  mt_tree :: "'a mtree"
  mt_len :: u64
  mt_height :: u64

datatype node_type = LeafType | Intermediate

definition prefix_with_byte :: "bytes \<Rightarrow> u8 \<Rightarrow> bytes" where
  "prefix_with_byte value prefix = prefix # value"

definition merkle_hash :: "hasher \<Rightarrow> bytes \<Rightarrow> node_type \<Rightarrow> h256" where
  "merkle_hash H value ty = (case ty of
     LeafType \<Rightarrow> H (prefix_with_byte value 0) | Intermediate \<Rightarrow> H (prefix_with_byte value 1))"

definition combined_hash :: "hasher \<Rightarrow> h256 \<Rightarrow> h256 \<Rightarrow> h256" where
  "combined_hash H left right = merkle_hash H (left @ right) Intermediate"

fun tree_hash :: "'a mtree \<Rightarrow> h256" where
  "tree_hash Empty = EMPTY_HASH"
| "tree_hash (Leaf h v) = h"
| "tree_hash (Node h l r) = h"

definition tree_leaf :: "hasher \<Rightarrow> ('a \<Rightarrow> bytes) \<Rightarrow> 'a \<Rightarrow> 'a mtree" where
  "tree_leaf H A value = Leaf (merkle_hash H (A value) LeafType) value"

definition tree_node :: "hasher \<Rightarrow> 'a mtree \<Rightarrow> 'a mtree \<Rightarrow> 'a mtree" where
  "tree_node H l r = Node (combined_hash H (tree_hash l) (tree_hash r)) l r"

definition path_push :: "path \<Rightarrow> path_node \<Rightarrow> path" where
  "path_push p n = p\<lparr>nodes := nodes p @ [n]\<rparr>"

fun tree_generate_path :: "hasher \<Rightarrow> ('a \<Rightarrow> bytes) \<Rightarrow> 'a mtree \<Rightarrow> 'a \<Rightarrow> path option" where
  "tree_generate_path H A Empty value = None"
| "tree_generate_path H A (Leaf nh v) value =
     (if merkle_hash H (A value) LeafType = nh then Some \<lparr>leaf_hash = nh, nodes = []\<rparr> else None)"
| "tree_generate_path H A (Node nh l r) value =
     (case tree_generate_path H A l value of
        None \<Rightarrow> map_option (\<lambda>p. path_push p \<lparr>node_hash = nh, child_hash = tree_hash l, hash_side = SideLeft\<rparr>)
                  (tree_generate_path H A r value)
      | Some p \<Rightarrow> Some (path_push p \<lparr>node_hash = nh, child_hash = tree_hash r, hash_side = SideRight\<rparr>))"

definition path_hash :: "path \<Rightarrow> h256" where
  "path_hash p = (if nodes p = [] then leaf_hash p else node_hash (last (nodes p)))"

definition path_verify :: "hasher \<Rightarrow> path \<Rightarrow> bool" where
  "path_verify H p = list_all (\<lambda>i.
     let node = nodes p ! i;
         ref_hash = (if i = 0 then leaf_hash p else node_hash (nodes p ! (i - 1)));
         calced_hash = (if hash_side node = SideLeft then combined_hash H (child_hash node) ref_hash
                        else combined_hash H ref_hash (child_hash node))
     in calced_hash = node_hash node) (rev [0..<length (nodes p)])"

definition proof_verify :: "hasher \<Rightarrow> 'a proof_of \<Rightarrow> h256 \<Rightarrow> bool" where
  "proof_verify H p root_hash \<longleftrightarrow> root_hash = path_hash (proof_path p) \<and> path_verify H (proof_path p)"

fun pair_iter :: "'a list \<Rightarrow> ('a \<times> 'a option) list" where
  "pair_iter [] = []"
| "pair_iter [x] = [(x, None)]"
| "pair_iter (x # y # xs) = (x, Some y) # pair_iter xs"

definition merge_pair :: "hasher \<Rightarrow> 'a mtree \<times> 'a mtree option \<Rightarrow> 'a mtree" where
  "merge_pair H p = (case p of (l, None) \<Rightarrow> l | (l, Some r) \<Rightarrow> tree_node H l r)"

lemma length_pair_iter: "length (pair_iter xs) = (length xs + 1) div 2"
  by (induction xs rule: pair_iter.induct) auto

function merge_loop :: "hasher \<Rightarrow> 'a mtree list \<Rightarrow> nat \<Rightarrow> 'a mtree list \<times> nat" where
  "merge_loop H trees height =
     (if length trees > 1 then merge_loop H (map (merge_pair H) (pair_iter trees)) (height + 1)
      else (trees, height))"
  by auto
termination
  by (relation "measure (\<lambda>(H, ts, h). length ts)") (auto simp: length_pair_iter)

declare merge_loop.simps [simp del]

definition merkle_empty :: "'a merkle_tree" where
  "merkle_empty = \<lparr>mt_tree = Empty, mt_len = 0, mt_height = 0\<rparr>"

definition merkle_new :: "hasher \<Rightarrow> ('a \<Rightarrow> bytes) \<Rightarrow> 'a list \<Rightarrow> 'a merkle_tree" where
  "merkle_new H A values =
     (if values = [] then merkle_empty
      else (let (trees, height) = merge_loop H (map (tree_leaf H A) values) 0 in
        \<lparr>mt_tree = hd trees, mt_len = of_nat (length values), mt_height = of_nat height\<rparr>))"

definition root_hash :: "'a merkle_tree \<Rightarrow> h256" where
  "root_hash t = tree_hash (mt_tree t)"

definition generate_proof :: "hasher \<Rightarrow> ('a \<Rightarrow> bytes) \<Rightarrow> 'a merkle_tree \<Rightarrow> 'a \<Rightarrow> 'a proof_of option run" where
  "generate_proof H A t value = (case tree_generate_path H A (mt_tree t) value of
     None \<Rightarrow> Done None
   | Some p \<Rightarrow> run_bind (assert_run (root_hash t = path_hash p) ''assertion failed'')
                (\<lambda>_. Done (Some \<lparr>proof_path = p, proof_value = value\<rparr>)))"

section \<open>Well-formed trees\<close>

fun leaves :: "'a mtree \<Rightarrow> 'a list" where
  "leaves Empty = []"
| "leaves (Leaf h v) = [v]"
| "leaves (Node h l r) = leaves l @ leaves r"

text \<open>Every stored hash is the hash of what is below it, and no inner tree is empty.\<close>

fun wf_tree :: "hasher \<Rightarrow> ('a \<Rightarrow> bytes) \<Rightarrow> 'a mtree \<Rightarrow> bool" where
  "wf_tree H A Empty \<longleftrightarrow> False"
| "wf_tree H A (Leaf h v) \<longleftrightarrow> h = merkle_hash H (A v) LeafType"
| "wf_tree H A (Node h l r) \<longleftrightarrow> h = combined_hash H (tree_hash l) (tree_hash r) \<and> wf_tree H A l \<and> wf_tree H A r"

lemma wf_merge:
  "list_all (wf_tree H A) ts \<Longrightarrow> list_all (wf_tree H A) (map (merge_pair H) (pair_iter ts))"
  by (induction ts rule: pair_iter.induct) (auto simp: merge_pair_def tree_node_def)

lemma leaves_merge:
  "concat (map leaves (map (merge_pair H) (pair_iter ts))) = concat (map leaves ts)"
  by (induction ts rule: pair_iter.induct) (auto simp: merge_pair_def tree_node_def)

text \<open>
  The loop ends with one tree, in which all stored hashes are right and the
  values stand in their order, after a logarithmic number of rounds.
\<close>

lemma pair_iter_eq_Nil [simp]: "pair_iter ts = [] \<longleftrightarrow> ts = []"
  by (cases ts rule: pair_iter.cases) auto

lemma merge_loop_step:
  "length ts > 1 \<Longrightarrow> merge_loop H ts k = merge_loop H (map (merge_pair H) (pair_iter ts)) (k + 1)"
  by (subst merge_loop.simps) simp

lemma merge_loop_stop: "\<not> length ts > 1 \<Longrightarrow> merge_loop H ts k = (ts, k)"
  by (subst merge_loop.simps) simp

lemma merge_loop_wf:
  "ts \<noteq> [] \<Longrightarrow> list_all (wf_tree H A) ts \<Longrightarrow> merge_loop H ts k = (us, h) \<Longrightarrow>
   \<exists>t. us = [t] \<and> wf_tree H A t \<and> leaves t = concat (map leaves ts)"
proof (induction H ts k rule: merge_loop.induct)
  case (1 H ts k)
  show ?case
  proof (cases "length ts > 1")
    case True
    from 1(1) [OF True _ wf_merge [OF 1(3)]] 1(2,4) show ?thesis
      by (simp only: merge_loop_step [OF True] leaves_merge) simp
  next
    case False
    with 1(2) obtain t where "ts = [t]" by (cases ts) auto
    with 1(3,4) show ?thesis by (auto simp: merge_loop_stop)
  qed
qed

lemma half_up_bounds: "n \<le> 2 * ((n + 1) div 2)" "2 * ((n + 1) div 2) \<le> n + (1 :: nat)"
  by presburger+

lemma merge_loop_height:
  "ts \<noteq> [] \<Longrightarrow> merge_loop H ts k = (us, h) \<Longrightarrow>
   k \<le> h \<and> length ts \<le> 2 ^ (h - k) \<and> (k < h \<longrightarrow> 2 ^ (h - k - 1) < length ts)"
proof (induction H ts k rule: merge_loop.induct)
  case (1 H ts k)
  show ?case
  proof (cases "length ts > 1")
    case True
    let ?ts = "map (merge_pair H) (pair_iter ts)"
    have len: "length ?ts = (length ts + 1) div 2" by (simp add: length_pair_iter)
    have "?ts \<noteq> []" using 1(2) by simp
    note IH' = 1(1) [OF True this 1(3) [unfolded merge_loop_step [OF True]]]
    then have IH: "k + 1 \<le> h" "length ?ts \<le> 2 ^ (h - (k + 1))"
        "k + 1 < h \<longrightarrow> 2 ^ (h - (k + 1) - 1) < length ?ts"
      by blast+
    then obtain d where d: "h = k + 1 + d" using le_Suc_ex by blast
    have "length ts \<le> 2 * ((length ts + 1) div 2)" by (rule half_up_bounds)
    also have "\<dots> \<le> 2 * 2 ^ d" using IH(2) len d by simp
    finally have up: "length ts \<le> 2 ^ (h - k)" using d by simp
    have "2 ^ (h - k - 1) < length ts"
    proof (cases d)
      case 0
      with d True show ?thesis by simp
    next
      case (Suc e)
      then have "2 ^ e < (length ts + 1) div 2" using IH(3) len d by simp
      then have "2 * 2 ^ e + 2 \<le> 2 * ((length ts + 1) div 2)" by simp
      also have "\<dots> \<le> length ts + 1" by (rule half_up_bounds)
      finally have "2 * 2 ^ e < length ts" by simp
      with Suc d show ?thesis by simp
    qed
    moreover have "k \<le> h" using d by simp
    ultimately show ?thesis using up by blast
  next
    case False
    with 1(2) obtain t where "ts = [t]" by (cases ts) auto
    with 1(3) show ?thesis by (auto simp: merge_loop_stop)
  qed
qed

lemma merkle_new_wf:
  assumes "vs \<noteq> []"
  shows "wf_tree H A (mt_tree (merkle_new H A vs)) \<and> leaves (mt_tree (merkle_new H A vs)) = vs"
proof -
  obtain us h where *: "merge_loop H (map (tree_leaf H A) vs) 0 = (us, h)" by (metis surj_pair)
  have "list_all (wf_tree H A) (map (tree_leaf H A) vs)"
    by (simp add: list_all_iff tree_leaf_def)
  with merge_loop_wf [OF _ this *] assms obtain t where
    t: "us = [t]" "wf_tree H A t" "leaves t = concat (map leaves (map (tree_leaf H A) vs))"
    by auto
  have "concat (map leaves (map (tree_leaf H A) vs)) = vs"
    by (induction vs) (auto simp: tree_leaf_def)
  with * t assms show ?thesis by (simp add: merkle_new_def)
qed

lemma merkle_new_Nil [simp]: "merkle_new H A [] = merkle_empty"
  by (simp add: merkle_new_def)

section \<open>Paths\<close>

text \<open>The loop of \<open>Path::verify\<close> as one pass from the leaf to the root.\<close>

definition node_calc :: "hasher \<Rightarrow> h256 \<Rightarrow> path_node \<Rightarrow> h256" where
  "node_calc H ref n = (if hash_side n = SideLeft then combined_hash H (child_hash n) ref
     else combined_hash H ref (child_hash n))"

fun chain_ok :: "hasher \<Rightarrow> h256 \<Rightarrow> path_node list \<Rightarrow> bool" where
  "chain_ok H ref [] \<longleftrightarrow> True"
| "chain_ok H ref (n # ns) \<longleftrightarrow> node_calc H ref n = node_hash n \<and> chain_ok H (node_hash n) ns"

definition chain_end :: "h256 \<Rightarrow> path_node list \<Rightarrow> h256" where
  "chain_end ref ns = (if ns = [] then ref else node_hash (last ns))"

lemma chain_end_simps [simp]:
  "chain_end ref [] = ref" "chain_end ref (ns @ [n]) = node_hash n"
  "chain_end ref (n # ns) = chain_end (node_hash n) ns"
  by (simp_all add: chain_end_def)

lemma chain_ok_snoc:
  "chain_ok H ref (ns @ [n]) \<longleftrightarrow> chain_ok H ref ns \<and> node_calc H (chain_end ref ns) n = node_hash n"
  by (induction ns arbitrary: ref) auto

lemma chain_ok_nth:
  "chain_ok H ref ns \<longleftrightarrow> (\<forall>i < length ns.
     node_calc H (if i = 0 then ref else node_hash (ns ! (i - 1))) (ns ! i) = node_hash (ns ! i))"
proof (induction ns rule: rev_induct)
  case (snoc n ns)
  let ?P = "\<lambda>xs i. node_calc H (if i = 0 then ref else node_hash (xs ! (i - 1))) (xs ! i) = node_hash (xs ! i)"
  have "?P (ns @ [n]) i = ?P ns i" if "i < length ns" for i
    using that by (simp add: nth_append less_imp_diff_less)
  moreover have "?P (ns @ [n]) (length ns) \<longleftrightarrow> node_calc H (chain_end ref ns) n = node_hash n"
    by (simp add: chain_end_def last_conv_nth nth_append)
  ultimately show ?case
    unfolding chain_ok_snoc snoc.IH by (metis length_append_singleton less_Suc_eq)
qed simp

lemma path_verify_chain: "path_verify H p \<longleftrightarrow> chain_ok H (leaf_hash p) (nodes p)"
  unfolding path_verify_def list_all_iff set_rev set_upt Let_def chain_ok_nth node_calc_def
    atLeast0LessThan Ball_def lessThan_iff ..

lemma path_hash_chain: "path_hash p = chain_end (leaf_hash p) (nodes p)"
  by (simp add: path_hash_def chain_end_def)

lemma generate_path_correct:
  "wf_tree H A t \<Longrightarrow> tree_generate_path H A t v = Some p \<Longrightarrow>
   leaf_hash p = merkle_hash H (A v) LeafType \<and> chain_ok H (leaf_hash p) (nodes p) \<and>
   chain_end (leaf_hash p) (nodes p) = tree_hash t"
  by (induction t arbitrary: p)
    (auto simp: path_push_def chain_ok_snoc node_calc_def split: option.splits if_splits)

lemma generate_path_None:
  "wf_tree H A t \<Longrightarrow> tree_generate_path H A t v = None \<longleftrightarrow>
   (\<forall>w \<in> set (leaves t). merkle_hash H (A w) LeafType \<noteq> merkle_hash H (A v) LeafType)"
  by (induction t) (auto split: option.splits)

section \<open>The inclusion-proof contract\<close>

text \<open>
  What users of inclusion proofs rely on: whoever knows a committed list of
  values can prove membership of each of them, and only claims about committed
  hashes can be proved by honest generation.
\<close>

locale inclusion_scheme =
  fixes commit :: "'v list \<Rightarrow> 't" and root :: "'t \<Rightarrow> h256"
    and prove :: "'t \<Rightarrow> 'v \<Rightarrow> 'p option run" and verify :: "'p \<Rightarrow> h256 \<Rightarrow> bool"
    and claimed :: "'p \<Rightarrow> 'v"
  assumes complete: "v \<in> set vs \<Longrightarrow>
      \<exists>p. prove (commit vs) v = Done (Some p) \<and> verify p (root (commit vs)) \<and> claimed p = v"
    and no_panic: "\<exists>r. prove (commit vs) v = Done r"
    and prove_verifies: "prove (commit vs) v = Done (Some p) \<Longrightarrow> verify p (root (commit vs))"
begin

lemma all_members_provable:
  "list_all (\<lambda>v. \<exists>p. prove (commit vs) v = Done (Some p) \<and> verify p (root (commit vs)) \<and> claimed p = v) vs"
  by (simp add: list_all_iff complete)

lemma same_root_transfers:
  "root (commit vs) = root (commit ws) \<Longrightarrow> v \<in> set vs \<Longrightarrow>
   \<exists>p. verify p (root (commit ws)) \<and> claimed p = v"
  using complete by metis

end

lemma generate_proof_complete:
  assumes "v \<in> set vs"
  shows "\<exists>p. generate_proof H A (merkle_new H A vs) v = Done (Some p) \<and>
    proof_verify H p (root_hash (merkle_new H A vs)) \<and> proof_value p = v"
proof -
  let ?t = "mt_tree (merkle_new H A vs)"
  from assms have "vs \<noteq> []" by auto
  then have wf: "wf_tree H A ?t" and lv: "leaves ?t = vs" using merkle_new_wf by auto
  with assms generate_path_None [OF wf, of v] obtain p where
    p: "tree_generate_path H A ?t v = Some p" by auto
  from generate_path_correct [OF wf p] have "path_verify H p" "path_hash p = tree_hash ?t"
    unfolding path_verify_chain path_hash_chain by blast+
  with p show ?thesis by (simp add: generate_proof_def root_hash_def proof_verify_def)
qed

lemma generate_proof_no_panic:
  "\<exists>r. generate_proof H A (merkle_new H A vs) v = Done r"
proof (cases "vs = []")
  case True
  then show ?thesis by (simp add: generate_proof_def merkle_empty_def)
next
  case False
  then have wf: "wf_tree H A (mt_tree (merkle_new H A vs))" using merkle_new_wf by auto
  show ?thesis
    using generate_path_correct [OF wf, of v]
    by (auto simp: generate_proof_def root_hash_def path_hash_chain split: option.splits)
qed

lemma generate_proof_verifies:
  assumes "generate_proof H A (merkle_new H A vs) v = Done (Some p)"
  shows "proof_verify H p (root_hash (merkle_new H A vs))"
proof (cases "vs = []")
  case True
  with assms show ?thesis by (simp add: generate_proof_def merkle_empty_def)
next
  case False
  then have wf: "wf_tree H A (mt_tree (merkle_new H A vs))" using merkle_new_wf by auto
  with assms generate_path_correct [OF wf, of v] show ?thesis
    by (auto simp: generate_proof_def proof_verify_def path_verify_chain run_bind_eq_Done
        assert_run_eq_Done split: option.splits)
qed

interpretation merkle: inclusion_scheme "merkle_new H A" root_hash "generate_proof H A" "proof_verify H" proof_value
  for H A
  by unfold_locales (simp_all add: generate_proof_complete generate_proof_no_panic generate_proof_verifies)

section \<open>Soundness relative to collisions\<close>

fun tree_preimages :: "('a \<Rightarrow> bytes) \<Rightarrow> 'a mtree \<Rightarrow> bytes set" where
  "tree_preimages A Empty = {}"
| "tree_preimages A (Leaf h v) = {prefix_with_byte (A v) 0}"
| "tree_preimages A (Node h l r) =
     {prefix_with_byte (tree_hash l @ tree_hash r) 1} \<union> tree_preimages A l \<union> tree_preimages A r"

definition node_preimage :: "h256 \<Rightarrow> path_node \<Rightarrow> bytes" where
  "node_preimage ref n = prefix_with_byte
     (if hash_side n = SideLeft then child_hash n @ ref else ref @ child_hash n) 1"

fun path_preimages :: "h256 \<Rightarrow> path_node list \<Rightarrow> bytes set" where
  "path_preimages ref [] = {}"
| "path_preimages ref (n # ns) = insert (node_preimage ref n) (path_preimages (node_hash n) ns)"

fun subtree_hashes :: "'a mtree \<Rightarrow> h256 set" where
  "subtree_hashes Empty = {EMPTY_HASH}"
| "subtree_hashes (Leaf h v) = {h}"
| "subtree_hashes (Node h l r) = insert h (subtree_hashes l \<union> subtree_hashes r)"

text \<open>Hashes are 32 bytes: the arrays of a path, and every output of the hash function.\<close>

definition path_sized :: "path \<Rightarrow> bool" where
  "path_sized p \<longleftrightarrow> length (leaf_hash p) = 32 \<and>
     list_all (\<lambda>n. length (node_hash n) = 32 \<and> length (child_hash n) = 32) (nodes p)"

lemma path_preimages_snoc:
  "path_preimages ref (ns @ [n]) = insert (node_preimage (chain_end ref ns) n) (path_preimages ref ns)"
  by (induction ns arbitrary: ref) auto

lemma node_calc_preimage: "node_calc H ref n = H (node_preimage ref n)"
  by (simp add: node_calc_def node_preimage_def combined_hash_def merkle_hash_def)

lemma tree_hash_in_subtree_hashes: "tree_hash t \<in> subtree_hashes t"
  by (cases t) auto

lemma tree_hash_length:
  "wf_tree H A t \<Longrightarrow> (\<And>x. length (H x) = 32) \<Longrightarrow> length (tree_hash t) = 32"
  by (cases t) (auto simp: merkle_hash_def combined_hash_def)

lemma chain_end_length:
  "length ref = 32 \<Longrightarrow> list_all (\<lambda>n. length (node_hash n) = 32 \<and> length (child_hash n) = 32) ns \<Longrightarrow>
   length (chain_end ref ns) = 32"
  by (induction ns arbitrary: ref) auto

lemma chain_sound:
  assumes "wf_tree H A t" and len: "\<And>x. length (H x) = 32"
    and "length ref = 32" "list_all (\<lambda>n. length (node_hash n) = 32 \<and> length (child_hash n) = 32) ns"
    and "chain_ok H ref ns" "chain_end ref ns = tree_hash t"
    and "inj_on H (tree_preimages A t \<union> path_preimages ref ns)"
  shows "ref \<in> subtree_hashes t"
  using assms(1,3-)
proof (induction ns arbitrary: t rule: rev_induct)
  case Nil
  then show ?case using tree_hash_in_subtree_hashes by auto
next
  case (snoc n ns)
  let ?e = "chain_end ref ns"
  have calc: "H (node_preimage ?e n) = tree_hash t" and ok: "chain_ok H ref ns"
    using snoc.prems(4,5) by (simp_all add: chain_ok_snoc node_calc_preimage)
  have e32: "length ?e = 32" using snoc.prems(2,3) chain_end_length by simp
  have pre: "node_preimage ?e n \<in> path_preimages ref (ns @ [n])"
    by (simp add: path_preimages_snoc)
  show ?case
  proof (cases t)
    case Empty
    with snoc.prems(1) show ?thesis by simp
  next
    case (Leaf h v)
    then have "H (prefix_with_byte (A v) 0) = H (node_preimage ?e n)"
      using snoc.prems(1) calc by (simp add: merkle_hash_def)
    then have "prefix_with_byte (A v) 0 = node_preimage ?e n"
      by (rule inj_onD [OF snoc.prems(6)]) (use Leaf pre in simp_all)
    then show ?thesis by (simp add: prefix_with_byte_def node_preimage_def)
  next
    case (Node h l r)
    then have wf: "wf_tree H A l" "wf_tree H A r" using snoc.prems(1) by auto
    have "H (prefix_with_byte (tree_hash l @ tree_hash r) 1) = H (node_preimage ?e n)"
      using snoc.prems(1) calc Node by (simp add: combined_hash_def merkle_hash_def)
    then have "prefix_with_byte (tree_hash l @ tree_hash r) 1 = node_preimage ?e n"
      by (rule inj_onD [OF snoc.prems(6)]) (use Node pre in simp_all)
    then have "?e = tree_hash l \<or> ?e = tree_hash r"
      using e32 tree_hash_length [OF wf(1) len] snoc.prems(3)
      by (auto simp: node_preimage_def prefix_with_byte_def split: if_splits)
    moreover have "inj_on H (tree_preimages A l \<union> path_preimages ref ns)"
        "inj_on H (tree_preimages A r \<union> path_preimages ref ns)"
      by (rule inj_on_subset [OF snoc.prems(6)], auto simp: Node path_preimages_snoc)+
    ultimately have "ref \<in> subtree_hashes l \<or> ref \<in> subtree_hashes r"
      using snoc.IH [OF wf(1)] snoc.IH [OF wf(2)] snoc.prems(2,3) ok by auto
    with Node show ?thesis by auto
  qed
qed

lemma subtree_hash_leaf:
  assumes "wf_tree H A t" "merkle_hash H b LeafType \<in> subtree_hashes t"
    and "inj_on H (insert (prefix_with_byte b 0) (tree_preimages A t))"
  shows "b \<in> A ` set (leaves t)"
  using assms
proof (induction t)
  case (Leaf h v)
  then have "H (prefix_with_byte b 0) = H (prefix_with_byte (A v) 0)" by (simp add: merkle_hash_def)
  then have "prefix_with_byte b 0 = prefix_with_byte (A v) 0"
    by (rule inj_onD [OF Leaf.prems(3)]) simp_all
  then show ?case by (simp add: prefix_with_byte_def)
next
  case (Node h l r)
  have "merkle_hash H b LeafType \<noteq> h"
  proof
    assume "merkle_hash H b LeafType = h"
    then have "H (prefix_with_byte b 0) = H (prefix_with_byte (tree_hash l @ tree_hash r) 1)"
      using Node.prems(1) by (simp add: merkle_hash_def combined_hash_def)
    then have "prefix_with_byte b 0 = prefix_with_byte (tree_hash l @ tree_hash r) 1"
      by (rule inj_onD [OF Node.prems(3)]) simp_all
    then show False by (simp add: prefix_with_byte_def)
  qed
  with Node.prems(2) consider "merkle_hash H b LeafType \<in> subtree_hashes l"
    | "merkle_hash H b LeafType \<in> subtree_hashes r" by auto
  then show ?case
  proof cases
    case 1
    have "inj_on H (insert (prefix_with_byte b 0) (tree_preimages A l))"
      by (rule inj_on_subset [OF Node.prems(3)]) auto
    with Node.IH(1) 1 Node.prems(1) show ?thesis by auto
  next
    case 2
    have "inj_on H (insert (prefix_with_byte b 0) (tree_preimages A r))"
      by (rule inj_on_subset [OF Node.prems(3)]) auto
    with Node.IH(2) 2 Node.prems(1) show ?thesis by auto
  qed
next
  case Empty
  then show ?case by simp
qed

section \<open>Properties\<close>

text \<open>
  A Merkle tree built from a non-empty list holds exactly these values in
  their order, every stored hash is the hash of what is below it, and its height
  is the logarithm of the number of values, rounded up.
\<close>

theorem merkle_new_shape:
  assumes "values \<noteq> []" "length values \<le> 2 ^ 63"
  shows "let t = merkle_new H A values in
    leaves (mt_tree t) = values \<and> wf_tree H A (mt_tree t) \<and> mt_len t = of_nat (length values) \<and>
    length values \<le> 2 ^ unat (mt_height t) \<and>
    (0 < unat (mt_height t) \<longrightarrow> 2 ^ (unat (mt_height t) - 1) < length values)"
proof -
  let ?t = "merkle_new H A values"
  obtain us h where m: "merge_loop H (map (tree_leaf H A) values) 0 = (us, h)" by (metis surj_pair)
  note b = merge_loop_height [OF _ m]
  have "h \<le> 63"
  proof (rule ccontr)
    assume "\<not> h \<le> 63"
    then have "(2 :: nat) ^ 63 \<le> 2 ^ (h - 1)" by (intro power_increasing) auto
    with b assms \<open>\<not> h \<le> 63\<close> show False by simp
  qed
  then have "h < 2 ^ 64" by simp
  then have "unat (of_nat h :: u64) = h" by (simp add: unat_of_nat take_bit_nat_eq_self)
  then have "unat (mt_height ?t) = h" "mt_len ?t = of_nat (length values)"
    using m assms(1) by (simp_all add: merkle_new_def)
  with b assms merkle_new_wf [OF assms(1), of H A] show ?thesis by (simp add: Let_def)
qed

theorem merkle_new_shape_witness:
  "leaves (mt_tree (merkle_new (\<lambda>b. b) (\<lambda>v. [v]) [1, 2, 3 :: u8])) = [1, 2, 3]"
  using merkle_new_shape [of "[1, 2, 3 :: u8]" "\<lambda>b. b" "\<lambda>v. [v]"] by (simp add: Let_def)

text \<open>
  For every value put into a tree, proof generation does not panic and
  yields a proof that carries the value and verifies against the root.
\<close>

theorem merkle_proof_complete:
  "list_all (\<lambda>v. \<exists>p. generate_proof H A (merkle_new H A vs) v = Done (Some p) \<and>
     proof_verify H p (root_hash (merkle_new H A vs)) \<and> proof_value p = v) vs"
  by (rule merkle.all_members_provable)

text \<open>
  C6: If a proof verifies against the root of a tree and its leaf hash is the hash
  of its value, then the bytes of the value are those of a value of the tree,
  unless two of the byte strings hashed in the tree and in the proof collide.
\<close>

theorem merkle_proof_sound:
  assumes "values \<noteq> []" "\<And>x. length (H x) = 32" "path_sized (proof_path p)"
    and "proof_verify H p (root_hash (merkle_new H A values))"
    and "leaf_hash (proof_path p) = merkle_hash H (A (proof_value p)) LeafType"
    and "inj_on H (insert (prefix_with_byte (A (proof_value p)) 0)
      (tree_preimages A (mt_tree (merkle_new H A values)) \<union>
       path_preimages (leaf_hash (proof_path p)) (nodes (proof_path p))))"
  shows "A (proof_value p) \<in> A ` set values"
proof -
  let ?t = "mt_tree (merkle_new H A values)"
  note wf = merkle_new_wf [OF assms(1), of H A]
  have "leaf_hash (proof_path p) \<in> subtree_hashes ?t"
  proof (rule chain_sound [of H A])
    show "inj_on H (tree_preimages A ?t \<union> path_preimages (leaf_hash (proof_path p)) (nodes (proof_path p)))"
      by (rule inj_on_subset [OF assms(6)]) blast
    show "chain_ok H (leaf_hash (proof_path p)) (nodes (proof_path p))"
        "chain_end (leaf_hash (proof_path p)) (nodes (proof_path p)) = tree_hash ?t"
      using assms(4) by (simp_all add: proof_verify_def path_verify_chain path_hash_chain root_hash_def)
  qed (use assms(2,3) wf in \<open>simp_all add: path_sized_def\<close>)
  with assms(5) have "merkle_hash H (A (proof_value p)) LeafType \<in> subtree_hashes ?t" by simp
  moreover have "inj_on H (insert (prefix_with_byte (A (proof_value p)) 0) (tree_preimages A ?t))"
    by (rule inj_on_subset [OF assms(6)]) blast
  ultimately show ?thesis using subtree_hash_leaf [of H A ?t] wf by simp
qed

definition sample_hash :: hasher where
  "sample_hash b = take 32 (b @ replicate 32 0)"

definition sample_proof :: "u8 proof_of" where
  "sample_proof = \<lparr>proof_path = \<lparr>leaf_hash = sample_hash [0, 1],
     nodes = [\<lparr>node_hash = sample_hash (1 # sample_hash [0, 1] @ sample_hash [0, 2]),
       child_hash = sample_hash [0, 2], hash_side = SideRight\<rparr>]\<rparr>, proof_value = 1\<rparr>"

lemma sample_hash_length [simp]: "length (sample_hash b) = 32"
  by (simp add: sample_hash_def)

lemma sample_hash_distinct:
  "sample_hash (0 # bs) \<noteq> sample_hash (1 # cs)" "sample_hash [0, 1] \<noteq> sample_hash [0, 2]"
proof -
  have "sample_hash (b # bs) ! 0 = b" "sample_hash (b # c # bs) ! 1 = c" for b c bs
    by (simp_all add: sample_hash_def nth_append)
  then show "sample_hash (0 # bs) \<noteq> sample_hash (1 # cs)" "sample_hash [0, 1] \<noteq> sample_hash [0, 2]"
    by (metis zero_neq_one) (use \<open>\<And>b c bs. sample_hash (b # c # bs) ! 1 = c\<close> [of 0 1 "[]"]
        \<open>\<And>b c bs. sample_hash (b # c # bs) ! 1 = c\<close> [of 0 2 "[]"] in auto)
qed

lemma merkle_new_two:
  "merkle_new H A [v, w] = \<lparr>mt_tree = tree_node H (tree_leaf H A v) (tree_leaf H A w), mt_len = 2, mt_height = 1\<rparr>"
  by (simp add: merkle_new_def merge_loop_step merge_loop_stop merge_pair_def)

theorem merkle_proof_sound_witness:
  "proof_verify sample_hash sample_proof (root_hash (merkle_new sample_hash (\<lambda>v. [v]) [1, 2])) \<and>
   [proof_value sample_proof] \<in> (\<lambda>v. [v]) ` set [1, 2]"
proof -
  let ?A = "\<lambda>v :: u8. [v]"
  have v: "proof_verify sample_hash sample_proof (root_hash (merkle_new sample_hash ?A [1, 2]))"
    by (simp add: proof_verify_def path_verify_chain path_hash_chain node_calc_def merkle_new_two
        root_hash_def tree_node_def tree_leaf_def combined_hash_def merkle_hash_def
        prefix_with_byte_def sample_proof_def)
  have "inj_on sample_hash {[0, 1], [0, 2], 1 # sample_hash [0, 1] @ sample_hash [0, 2]}"
    using sample_hash_distinct by (auto simp: inj_on_def dest: sym)
  then have "inj_on sample_hash (insert (prefix_with_byte (?A (proof_value sample_proof)) 0)
      (tree_preimages ?A (mt_tree (merkle_new sample_hash ?A [1, 2])) \<union>
       path_preimages (leaf_hash (proof_path sample_proof)) (nodes (proof_path sample_proof))))"
    by (rule inj_on_subset)
      (auto simp: merkle_new_two tree_node_def tree_leaf_def sample_proof_def merkle_hash_def
        prefix_with_byte_def node_preimage_def)
  with v show ?thesis
    using merkle_proof_sound [of "[1, 2]" sample_hash sample_proof ?A]
    by (simp add: path_sized_def sample_proof_def merkle_hash_def prefix_with_byte_def)
qed

text \<open>
  \<open>Proof::verify\<close> does not look at the value: for every root hash and every
  value there is a proof that carries this value and verifies, namely the one
  whose path is the root hash alone.
\<close>

theorem merkle_proof_forgeable:
  "proof_verify H \<lparr>proof_path = \<lparr>leaf_hash = root, nodes = []\<rparr>, proof_value = v\<rparr> root"
  by (simp add: proof_verify_def path_verify_chain path_hash_chain)

end
