(* ===== verification/Btree_Map.thy ===== *)
theory Btree_Map
  imports Chain_Prelude "HOL-Library.List_Lexorder" "HOL-Library.Product_Lexorder"
begin

text \<open>
  The ordered maps (\<open>BTreeMap\<close>, \<open>BTreeSet\<close>) of the Rust standard library, as far
  as the sources use them: lookup, insertion, removal and iteration in key order,
  forwards and backwards.  A map is an association list with strictly increasing
  keys.  The locale \<open>ordered_map\<close> states the laws clients use, and \<open>btm\<close>
  interprets it by the list operations.  Byte strings are ordered
  lexicographically and tuples componentwise from the left, as in Rust.
\<close>

type_synonym ('k, 'v) btm = "('k \<times> 'v) list"

definition bm_new :: "('k, 'v) btm" where "bm_new = []"

definition bm_get :: "('k, 'v) btm \<Rightarrow> 'k \<Rightarrow> 'v option" where "bm_get m k = map_of m k"

definition bm_contains :: "('k, 'v) btm \<Rightarrow> 'k \<Rightarrow> bool" where
  "bm_contains m k \<longleftrightarrow> bm_get m k \<noteq> None"

fun bm_insert :: "'k::linorder \<Rightarrow> 'v \<Rightarrow> ('k, 'v) btm \<Rightarrow> ('k, 'v) btm" where
  "bm_insert k v [] = [(k, v)]"
| "bm_insert k v ((x, w) # m) =
     (if k < x then (k, v) # (x, w) # m else if k = x then (k, v) # m else (x, w) # bm_insert k v m)"

definition bm_remove :: "'k \<Rightarrow> ('k, 'v) btm \<Rightarrow> ('k, 'v) btm" where
  "bm_remove k m = filter (\<lambda>p. fst p \<noteq> k) m"

definition bm_wf :: "('k::linorder, 'v) btm \<Rightarrow> bool" where
  "bm_wf m \<longleftrightarrow> sorted_wrt (<) (map fst m)"

definition bm_of_list :: "('k::linorder \<times> 'v) list \<Rightarrow> ('k, 'v) btm" where
  "bm_of_list xs = fold (\<lambda>(k, v). bm_insert k v) xs bm_new"

locale ordered_map =
  fixes get :: "'m \<Rightarrow> 'k::linorder \<Rightarrow> 'v option" and ins :: "'k \<Rightarrow> 'v \<Rightarrow> 'm \<Rightarrow> 'm"
    and del :: "'k \<Rightarrow> 'm \<Rightarrow> 'm" and entries :: "'m \<Rightarrow> ('k \<times> 'v) list"
    and new :: 'm and inv :: "'m \<Rightarrow> bool"
  assumes get_new: "get new k = None" and inv_new: "inv new"
    and get_ins: "inv m \<Longrightarrow> get (ins k v m) k' = (if k' = k then Some v else get m k')"
    and get_del: "inv m \<Longrightarrow> get (del k m) k' = (if k' = k then None else get m k')"
    and inv_ins: "inv m \<Longrightarrow> inv (ins k v m)" and inv_del: "inv m \<Longrightarrow> inv (del k m)"
    and entries_get: "inv m \<Longrightarrow> (k, v) \<in> set (entries m) \<longleftrightarrow> get m k = Some v"
    and entries_sorted: "inv m \<Longrightarrow> sorted_wrt (<) (map fst (entries m))"
begin

lemma entries_distinct: "inv m \<Longrightarrow> distinct (map fst (entries m))"
  using entries_sorted strict_sorted_iff by blast

lemma get_ins_same [simp]: "inv m \<Longrightarrow> get (ins k v m) k = Some v"
  by (simp add: get_ins)

lemma get_ins_other: "inv m \<Longrightarrow> k' \<noteq> k \<Longrightarrow> get (ins k v m) k' = get m k'"
  by (simp add: get_ins)

text \<open>Inserting a list of entries: the last entry for a key wins.\<close>

lemma inv_fold_ins: "inv m \<Longrightarrow> inv (fold (\<lambda>(k, v). ins k v) xs m)"
  by (induction xs arbitrary: m) (auto simp: inv_ins)

lemma get_fold_ins:
  "inv m \<Longrightarrow> get (fold (\<lambda>(k, v). ins k v) xs m) k =
     (case map_of (rev xs) k of None \<Rightarrow> get m k | Some v \<Rightarrow> Some v)"
  by (induction xs arbitrary: m)
    (auto simp: inv_ins get_ins map_add_def split: option.splits)

lemma inv_fold_del: "inv m \<Longrightarrow> inv (fold del ks m)"
  by (induction ks arbitrary: m) (auto simp: inv_del)

lemma get_fold_del: "inv m \<Longrightarrow> get (fold del ks m) k = (if k \<in> set ks then None else get m k)"
  by (induction ks arbitrary: m) (auto simp: inv_del get_del)

end

lemma bm_get_insert: "bm_wf m \<Longrightarrow> bm_get (bm_insert k v m) k' = (if k' = k then Some v else bm_get m k')"
  by (induction k v m rule: bm_insert.induct) (auto simp: bm_wf_def bm_get_def)

lemma bm_get_remove: "bm_get (bm_remove k m) k' = (if k' = k then None else bm_get m k')"
  by (induction m) (auto simp: bm_remove_def bm_get_def)

lemma keys_bm_insert: "fst ` set (bm_insert k v m) = insert k (fst ` set m)"
  by (induction k v m rule: bm_insert.induct) auto

lemma bm_wf_insert: "bm_wf m \<Longrightarrow> bm_wf (bm_insert k v m)"
proof (induction k v m rule: bm_insert.induct)
  case (2 k v x w m)
  then have wf: "bm_wf m" and lt: "\<forall>y \<in> fst ` set m. x < y" by (auto simp: bm_wf_def)
  show ?case
  proof (cases k x rule: linorder_cases)
    case less
    with lt wf show ?thesis by (auto simp: bm_wf_def)
  next
    case equal
    with 2 show ?thesis by (auto simp: bm_wf_def)
  next
    case greater
    with 2 wf have "bm_wf (bm_insert k v m)" by auto
    moreover have "\<forall>y \<in> fst ` set (bm_insert k v m). x < y"
      using greater lt by (simp add: keys_bm_insert)
    ultimately show ?thesis using greater by (auto simp: bm_wf_def)
  qed
qed (simp add: bm_wf_def)

lemma bm_wf_remove: "bm_wf m \<Longrightarrow> bm_wf (bm_remove k m)"
  by (induction m) (auto simp: bm_wf_def bm_remove_def)

lemma bm_wf_new [simp]: "bm_wf bm_new"
  by (simp add: bm_wf_def bm_new_def)

lemma bm_get_new [simp]: "bm_get bm_new k = None"
  by (simp add: bm_get_def bm_new_def)

lemma bm_entries_get: "bm_wf m \<Longrightarrow> (k, v) \<in> set m \<longleftrightarrow> bm_get m k = Some v"
  by (simp add: bm_wf_def bm_get_def strict_sorted_iff)

interpretation btm: ordered_map bm_get bm_insert bm_remove "\<lambda>m. m" bm_new bm_wf
  by unfold_locales
    (auto simp: bm_get_insert bm_get_remove bm_wf_insert bm_wf_remove bm_entries_get,
     simp add: bm_wf_def)

lemma bm_contains_insert:
  "bm_wf m \<Longrightarrow> bm_contains (bm_insert k v m) k' \<longleftrightarrow> k' = k \<or> bm_contains m k'"
  by (simp add: bm_contains_def bm_get_insert)

lemma bm_contains_remove: "bm_contains (bm_remove k m) k' \<longleftrightarrow> k' \<noteq> k \<and> bm_contains m k'"
  by (simp add: bm_contains_def bm_get_remove)

lemma bm_contains_keys: "bm_contains m k \<longleftrightarrow> k \<in> fst ` set m"
  by (force simp: bm_contains_def bm_get_def map_of_eq_None_iff)

lemma bm_of_list_wf: "bm_wf (bm_of_list xs)"
  unfolding bm_of_list_def by (rule btm.inv_fold_ins) simp

lemma bm_get_of_list: "bm_get (bm_of_list xs) k = map_of (rev xs) k"
  unfolding bm_of_list_def by (simp add: btm.get_fold_ins split: option.splits)

end
