(* ===== verification/Tendermint_Types.thy ===== *)
theory Tendermint_Types
  imports Milli_Fee Btree_Map
begin

text \<open>
  The consensus-engine types of chain-core/src/state/tendermint.rs: voting power,
  validator public keys and validator addresses.  Voting power is an \<open>i64\<close> in the
  source; it is an integer here, and the constructor's bounds keep it far inside
  the 64-bit range.  Sha256 is a parameter.
\<close>

type_synonym timespec = u64
type_synonym block_height = int

definition I64_MAX :: int where "I64_MAX = 9223372036854775807"
definition TENDERMINT_MAX_VOTE_POWER :: int where "TENDERMINT_MAX_VOTE_POWER = I64_MAX div 1000"

datatype vote_power = VotePower (vp_int: int)

datatype vote_power_error = VpOutOfBound int | VpNegative

instantiation vote_power :: linorder
begin

definition less_eq_vote_power :: "vote_power \<Rightarrow> vote_power \<Rightarrow> bool" where
  "less_eq_vote_power a b \<longleftrightarrow> vp_int a \<le> vp_int b"

definition less_vote_power :: "vote_power \<Rightarrow> vote_power \<Rightarrow> bool" where
  "less_vote_power a b \<longleftrightarrow> vp_int a < vp_int b"

instance
  by standard (auto simp: less_eq_vote_power_def less_vote_power_def vote_power.expand)

end

definition vote_power_new :: "int \<Rightarrow> vote_power_error + vote_power" where
  "vote_power_new v =
     (if v < 0 then Err VpNegative
      else if v > TENDERMINT_MAX_VOTE_POWER then Err (VpOutOfBound v)
      else Ok (VotePower v))"

definition vote_power_zero :: vote_power where "vote_power_zero = VotePower 0"

definition vote_power_u64 :: "vote_power \<Rightarrow> u64" where
  "vote_power_u64 p = word_of_int (vp_int p)"

definition i64_try_from :: "u64 \<Rightarrow> int option" where
  "i64_try_from v = (if uint v \<le> I64_MAX then Some (uint v) else None)"

definition vote_power_of_coin :: "coin \<Rightarrow> vote_power run" where
  "vote_power_of_coin c =
     run_bind (expect_opt (i64_try_from (coin_u64 c div MAX_COIN_DECIMALS))
       ''i64::MAX is larger than MAX_COIN / MAX_COIN_DECIMALS'') (\<lambda>vote_power.
     expect (vote_power_new vote_power)
       ''TENDERMINT_MAX_VOTE_POWER is larger than MAX_COIN / MAX_COIN_DECIMALS'')"

datatype tm_pubkey = Ed25519 (pubkey_bytes: bytes)

datatype tm_address = TmAddress (tm_address_bytes: bytes)

instantiation tm_address :: linorder
begin

definition less_eq_tm_address :: "tm_address \<Rightarrow> tm_address \<Rightarrow> bool" where
  "less_eq_tm_address a b \<longleftrightarrow> tm_address_bytes a \<le> tm_address_bytes b"

definition less_tm_address :: "tm_address \<Rightarrow> tm_address \<Rightarrow> bool" where
  "less_tm_address a b \<longleftrightarrow> tm_address_bytes a < tm_address_bytes b"

instance
  by standard (auto simp: less_eq_tm_address_def less_tm_address_def tm_address.expand)

end

datatype tm_address_error = AddrLong | AddrShort

definition tm_address_of_pubkey :: "(bytes \<Rightarrow> bytes) \<Rightarrow> tm_pubkey \<Rightarrow> tm_address" where
  "tm_address_of_pubkey sha256 k = TmAddress (take 20 (sha256 (pubkey_bytes k)))"

definition tm_address_try_from :: "bytes \<Rightarrow> tm_address_error + tm_address" where
  "tm_address_try_from b =
     (if length b = 20 then Ok (TmAddress b) else if length b < 20 then Err AddrShort else Err AddrLong)"

definition to_validator_update :: "tm_pubkey \<Rightarrow> string \<times> bytes" where
  "to_validator_update k = (''ed25519'', pubkey_bytes k)"

text \<open>The voting power of an amount never panics: it is the number of whole coins.\<close>

definition coin_units :: "coin \<Rightarrow> nat" where "coin_units c = coin_val c div 100000000"

lemma coin_units_bound: "coin_units c < 184467440738"
  using unat_bound [of "coin_u64 c"] by (simp add: coin_units_def coin_val_def)

lemma vote_power_of_coin_Done [simp]:
  "vote_power_of_coin c = Done (VotePower (int (coin_units c)))"
proof -
  have "uint (coin_u64 c div MAX_COIN_DECIMALS) = int (coin_units c)"
    by (simp add: coin_units_def coin_val_def uint_div MAX_COIN_DECIMALS_def zdiv_int)
  then show ?thesis
    using coin_units_bound [of c]
    by (simp add: vote_power_of_coin_def i64_try_from_def vote_power_new_def I64_MAX_def
        TENDERMINT_MAX_VOTE_POWER_def)
qed

end
