(* ===== verification/Staked_State.thy ===== *)
theory Staked_State
  imports Tendermint_Types
begin

text \<open>
  Staking accounts (chain-core/src/state/account.rs): the account record, its
  in-place updates as functions from account to account, and the punishment
  data.  Updates that the source guards with \<open>expect\<close> return a \<open>run\<close>.  The locale
  \<open>account_op\<close> is the contract every transaction-driven update has (it keeps the
  address and the validity of the amounts, and counts the nonce up by one), and
  each update is an interpretation of it.
\<close>

section \<open>Types\<close>

datatype staked_address = BasicRedeem (redeem_bytes: bytes)

instantiation staked_address :: linorder
begin

definition less_eq_staked_address :: "staked_address \<Rightarrow> staked_address \<Rightarrow> bool" where
  "less_eq_staked_address a b \<longleftrightarrow> redeem_bytes a \<le> redeem_bytes b"

definition less_staked_address :: "staked_address \<Rightarrow> staked_address \<Rightarrow> bool" where
  "less_staked_address a b \<longleftrightarrow> redeem_bytes a < redeem_bytes b"

instance
  by standard (auto simp: less_eq_staked_address_def less_staked_address_def staked_address.expand)

end

record council_node =
  node_name :: string
  security_contact :: "string option"
  consensus_pubkey :: tm_pubkey

datatype punishment_kind = NonLive | ByzantineFault

record punishment =
  punish_kind :: punishment_kind
  punish_jailed_until :: timespec
  slash_amount :: "coin option"

record staked_state =
  nonce :: u64
  bonded :: coin
  unbonded :: coin
  unbonded_from :: timespec
  ss_address :: staked_address
  punishment :: "punishment option"
  council_node :: "council_node option"

definition council_node_new :: "tm_pubkey \<Rightarrow> council_node" where
  "council_node_new k = \<lparr>node_name = ''no-name'', security_contact = None, consensus_pubkey = k\<rparr>"

section \<open>Operations\<close>

definition to_stake_key :: "(bytes \<Rightarrow> h256) \<Rightarrow> staked_address \<Rightarrow> h256" where
  "to_stake_key blake2s a = blake2s (redeem_bytes a)"

definition staked_new ::
    "u64 \<Rightarrow> coin \<Rightarrow> coin \<Rightarrow> timespec \<Rightarrow> staked_address \<Rightarrow> punishment option \<Rightarrow> staked_state" where
  "staked_new n b u f a p = \<lparr>nonce = n, bonded = b, unbonded = u, unbonded_from = f, ss_address = a,
     punishment = p, council_node = None\<rparr>"

definition staked_default :: staked_state where
  "staked_default = staked_new 0 coin_zero coin_zero 0 (BasicRedeem (replicate 20 0)) None"

definition new_init_bonded ::
    "coin \<Rightarrow> timespec \<Rightarrow> staked_address \<Rightarrow> council_node option \<Rightarrow> staked_state" where
  "new_init_bonded amount genesis_time a n = \<lparr>nonce = 0, bonded = amount, unbonded = coin_zero,
     unbonded_from = genesis_time, ss_address = a, punishment = None, council_node = n\<rparr>"

definition new_init_unbonded :: "coin \<Rightarrow> timespec \<Rightarrow> staked_address \<Rightarrow> staked_state" where
  "new_init_unbonded amount time a = \<lparr>nonce = 0, bonded = coin_zero, unbonded = amount,
     unbonded_from = time, ss_address = a, punishment = None, council_node = None\<rparr>"

definition deposit :: "coin \<Rightarrow> staked_state \<Rightarrow> staked_state run" where
  "deposit amount s =
     (let s1 = s\<lparr>nonce := nonce s + 1\<rparr> in
      run_bind (expect (coin_add (bonded s1) amount) ''should not be over the max supply'') (\<lambda>b.
      Done (s1\<lparr>bonded := b\<rparr>)))"

definition unbond :: "coin \<Rightarrow> coin \<Rightarrow> timespec \<Rightarrow> staked_state \<Rightarrow> staked_state run" where
  "unbond amount fee from s =
     (let s1 = s\<lparr>nonce := nonce s + 1, unbonded_from := from\<rparr> in
      run_bind (expect (and_then (coin_sub (bonded s1) amount) (\<lambda>x. coin_sub x fee)) ''should not go below zero'') (\<lambda>b.
      run_bind (expect (coin_add (unbonded s1) amount) ''should not be over the max supply'') (\<lambda>u.
      Done (s1\<lparr>bonded := b, unbonded := u\<rparr>))))"

definition withdraw :: "staked_state \<Rightarrow> staked_state" where
  "withdraw s = s\<lparr>nonce := nonce s + 1, unbonded := coin_zero\<rparr>"

definition join_node :: "council_node \<Rightarrow> staked_state \<Rightarrow> staked_state" where
  "join_node n s = s\<lparr>nonce := nonce s + 1, council_node := Some n\<rparr>"

definition is_jailed :: "staked_state \<Rightarrow> bool" where
  "is_jailed s \<longleftrightarrow> punishment s \<noteq> None"

definition jailed_until :: "staked_state \<Rightarrow> timespec option" where
  "jailed_until s = map_option punish_jailed_until (punishment s)"

definition jail_until :: "timespec \<Rightarrow> punishment_kind \<Rightarrow> staked_state \<Rightarrow> staked_state" where
  "jail_until t k s = s\<lparr>nonce := nonce s + 1,
     punishment := Some \<lparr>punish_kind = k, punish_jailed_until = t, slash_amount = None\<rparr>\<rparr>"

definition unjail :: "staked_state \<Rightarrow> staked_state" where
  "unjail s = s\<lparr>nonce := nonce s + 1, punishment := None\<rparr>"

text \<open>
  \<open>slash\<close> updates the account in place and can return early, so it yields the
  account it leaves behind together with its result.
\<close>

definition slash ::
    "slash_ratio \<Rightarrow> punishment_kind \<Rightarrow> staked_state \<Rightarrow> ((coin_error + coin) \<times> staked_state) run" where
  "slash ratio k s =
     (let s1 = s\<lparr>nonce := nonce s + 1\<rparr> in
      run_bind (coin_mul_ratio (bonded s1) ratio) (\<lambda>bonded_slash.
      run_bind (coin_mul_ratio (unbonded s1) ratio) (\<lambda>unbonded_slash.
      Done (case coin_sub (bonded s1) bonded_slash of
        Inl e \<Rightarrow> (Err e, s1)
      | Inr b \<Rightarrow> (let s2 = s1\<lparr>bonded := b\<rparr> in case coin_sub (unbonded s2) unbonded_slash of
        Inl e \<Rightarrow> (Err e, s2)
      | Inr u \<Rightarrow> (let s3 = s2\<lparr>unbonded := u\<rparr> in case coin_add bonded_slash unbonded_slash of
        Inl e \<Rightarrow> (Err e, s3)
      | Inr slashed \<Rightarrow> (Ok slashed, s3\<lparr>punishment := map_option
          (\<lambda>p. p\<lparr>slash_amount := Some slashed, punish_kind := k\<rparr>) (punishment s3)\<rparr>)))))))"

definition add_reward :: "coin \<Rightarrow> staked_state \<Rightarrow> (coin_error + coin) \<times> staked_state" where
  "add_reward amount s = (case coin_add (bonded s) amount of
     Inl e \<Rightarrow> (Err e, s) | Inr b \<Rightarrow> (Ok b, s\<lparr>bonded := b\<rparr>))"

section \<open>The contract of account updates\<close>

definition account_total :: "staked_state \<Rightarrow> nat" where
  "account_total s = coin_val (bonded s) + coin_val (unbonded s)"

definition valid_account :: "staked_state \<Rightarrow> bool" where
  "valid_account s \<longleftrightarrow> account_total s \<le> max_supply"

lemma valid_account_coins:
  "valid_account s \<Longrightarrow> valid_coin (bonded s)" "valid_account s \<Longrightarrow> valid_coin (unbonded s)"
  by (simp_all add: valid_account_def account_total_def valid_coin_iff)

locale account_op =
  fixes oper :: "staked_state \<Rightarrow> staked_state run" and inflow :: nat
  assumes nonce_step: "oper s = Done s' \<Longrightarrow> nonce s' = nonce s + 1"
    and address_kept: "oper s = Done s' \<Longrightarrow> ss_address s' = ss_address s"
    and total_bound: "oper s = Done s' \<Longrightarrow> account_total s' \<le> account_total s + inflow"
begin

lemma valid_kept:
  "valid_account s \<Longrightarrow> account_total s + inflow \<le> max_supply \<Longrightarrow> oper s = Done s' \<Longrightarrow> valid_account s'"
  using total_bound [of s s'] by (simp add: valid_account_def)

lemma changes_state: "oper s = Done s' \<Longrightarrow> s' \<noteq> s"
  using nonce_step [of s s'] by auto

end

lemmas account_op_defs = deposit_def unbond_def withdraw_def join_node_def jail_until_def unjail_def

lemma deposit_Done:
  "deposit a s = Done s' \<longleftrightarrow> (\<exists>b. coin_add (bonded s) a = Ok b \<and> s' = s\<lparr>nonce := nonce s + 1, bonded := b\<rparr>)"
  by (auto simp: deposit_def Let_def run_elims)

lemma unbond_Done:
  "unbond a f t s = Done s' \<longleftrightarrow> (\<exists>x b u. coin_sub (bonded s) a = Ok x \<and> coin_sub x f = Ok b \<and>
     coin_add (unbonded s) a = Ok u \<and>
     s' = s\<lparr>nonce := nonce s + 1, unbonded_from := t, bonded := b, unbonded := u\<rparr>)"
  by (auto simp: unbond_def Let_def run_elims)

interpretation deposit: account_op "deposit a" "coin_val a" for a
  by unfold_locales (auto simp: deposit_Done account_total_def coin_val_simps)

interpretation unbond: account_op "unbond a f t" 0 for a f t
  by unfold_locales (auto simp: unbond_Done account_total_def coin_val_simps)

interpretation withdraw: account_op "\<lambda>s. Done (withdraw s)" 0
  by unfold_locales (auto simp: withdraw_def account_total_def)

interpretation join_node: account_op "\<lambda>s. Done (join_node n s)" 0 for n
  by unfold_locales (auto simp: join_node_def account_total_def)

interpretation jail_until: account_op "\<lambda>s. Done (jail_until t k s)" 0 for t k
  by unfold_locales (auto simp: jail_until_def account_total_def)

interpretation unjail: account_op "\<lambda>s. Done (unjail s)" 0
  by unfold_locales (auto simp: unjail_def account_total_def)

lemma deposit_total: "deposit a s = Done s' \<Longrightarrow> account_total s' = account_total s + coin_val a"
  by (auto simp: deposit_Done account_total_def coin_val_simps)

lemma unbond_total: "unbond a f t s = Done s' \<Longrightarrow> account_total s = account_total s' + coin_val f"
  by (auto simp: unbond_Done account_total_def coin_val_simps)

lemma withdraw_total: "account_total s = account_total (withdraw s) + coin_val (unbonded s)"
  by (simp add: withdraw_def account_total_def)

text \<open>Slashing a valid account with a valid ratio succeeds and removes exactly what it reports.\<close>

lemma slash_Done:
  assumes "valid_account s" "valid_ratio r"
  obtains slashed s' where "slash r k s = Done (Ok slashed, s')"
    "account_total s = account_total s' + coin_val slashed"
    "coin_val slashed = coin_val (bonded s) * milli_val (ratio_milli r) div 1000 +
       coin_val (unbonded s) * milli_val (ratio_milli r) div 1000"
    "nonce s' = nonce s + 1" "ss_address s' = ss_address s" "is_jailed s' = is_jailed s"
    "council_node s' = council_node s"
    "jailed_until s' = jailed_until s"
    "map_option slash_amount (punishment s') = map_option (\<lambda>_. Some slashed) (punishment s)"
proof -
  obtain bs where bs: "coin_mul_ratio (bonded s) r = Done bs"
      "coin_val bs = coin_val (bonded s) * milli_val (ratio_milli r) div 1000"
      "coin_val bs \<le> coin_val (bonded s)"
    using coin_mul_ratio_Done [OF assms(2)] by metis
  obtain us where us: "coin_mul_ratio (unbonded s) r = Done us"
      "coin_val us = coin_val (unbonded s) * milli_val (ratio_milli r) div 1000"
      "coin_val us \<le> coin_val (unbonded s)"
    using coin_mul_ratio_Done [OF assms(2)] by metis
  obtain b where b: "coin_sub (bonded s) bs = Ok b"
    using coin_sub_total [OF valid_account_coins(1) [OF assms(1)] bs(3)] by auto
  obtain u where u: "coin_sub (unbonded s) us = Ok u"
    using coin_sub_total [OF valid_account_coins(2) [OF assms(1)] us(3)] by auto
  obtain t where t: "coin_add bs us = Ok t"
    using coin_add_total [of bs us] bs(3) us(3) assms(1)
    by (auto simp: valid_account_def account_total_def)
  let ?s = "s\<lparr>nonce := nonce s + 1, bonded := b, unbonded := u, punishment := map_option
    (\<lambda>p. p\<lparr>slash_amount := Some t, punish_kind := k\<rparr>) (punishment s)\<rparr>"
  have "slash r k s = Done (Ok t, ?s)"
    using bs us b u t by (simp add: slash_def Let_def)
  moreover have "account_total s = account_total ?s + coin_val t"
    using b u t by (simp add: account_total_def coin_val_simps)
  moreover have "coin_val t = coin_val bs + coin_val us" using t by (simp add: coin_val_simps)
  ultimately show ?thesis
    using that bs(2) us(2)
    by (simp add: is_jailed_def jailed_until_def option.map_comp comp_def)
qed

lemma add_reward_total:
  "add_reward a s = (Ok b, s') \<Longrightarrow> account_total s' = account_total s + coin_val a \<and> bonded s' = b \<and>
     nonce s' = nonce s \<and> ss_address s' = ss_address s"
  by (auto simp: add_reward_def account_total_def coin_val_simps split: sum.splits)

end
