(* ===== verification/Tx_Types.thy ===== *)
theory Tx_Types
  imports Staked_State Merkle_Tree
begin

text \<open>
  Transactions: the data types of chain-core/src/tx and chain-core/src/state, the
  transaction ids, and the network parameters of chain-core/src/init/params.rs.
  Signatures, public keys and obfuscated payloads are byte strings.  What the
  transactions need from third-party crates is collected in the record \<open>ext\<close>: the
  hash functions, the signature scheme and the binary codec.
\<close>

section \<open>Network parameters\<close>

record jailing_parameters =
  jp_jail_duration :: u32
  jp_block_signing_window :: u16
  jp_missed_block_threshold :: u16

record slashing_parameters =
  sp_liveness_slash_percent :: slash_ratio
  sp_byzantine_slash_percent :: slash_ratio
  sp_slash_wait_period :: u32

record rewards_parameters =
  monetary_expansion_cap :: coin
  distribution_period :: u32
  monetary_expansion_r0 :: milli
  monetary_expansion_tau :: u64
  monetary_expansion_decay :: u32

record network_parameters =
  initial_fee_policy :: linear_fee
  required_council_node_stake :: coin
  unbonding_period :: u32
  jailing_config :: jailing_parameters
  slashing_config :: slashing_parameters
  rewards_config :: rewards_parameters
  max_validators :: u16

definition rewards_validate :: "rewards_parameters \<Rightarrow> string + unit" where
  "rewards_validate p =
     (if monetary_expansion_r0 p > milli_integral 1 then Err (''R0 can'' @ [CHR 0x27] @ ''t > 1'')
      else if monetary_expansion_tau p = 0 then Err (''tau can'' @ [CHR 0x27] @ ''t == 0'')
      else if monetary_expansion_decay p > 1000000 then Err (''decay can'' @ [CHR 0x27] @ ''t > 1_000_000'')
      else Ok ())"

definition get_max_validators :: "network_parameters \<Rightarrow> nat" where
  "get_max_validators p = unat (max_validators p)"

definition get_byzantine_slash_percent :: "network_parameters \<Rightarrow> slash_ratio" where
  "get_byzantine_slash_percent p = sp_byzantine_slash_percent (slashing_config p)"

definition get_liveness_slash_percent :: "network_parameters \<Rightarrow> slash_ratio" where
  "get_liveness_slash_percent p = sp_liveness_slash_percent (slashing_config p)"

definition get_jail_duration :: "network_parameters \<Rightarrow> timespec" where
  "get_jail_duration p = ucast (jp_jail_duration (jailing_config p))"

definition get_slash_wait_period :: "network_parameters \<Rightarrow> timespec" where
  "get_slash_wait_period p = ucast (sp_slash_wait_period (slashing_config p))"

definition get_missed_block_threshold :: "network_parameters \<Rightarrow> u16" where
  "get_missed_block_threshold p = jp_missed_block_threshold (jailing_config p)"

definition get_block_signing_window :: "network_parameters \<Rightarrow> u16" where
  "get_block_signing_window p = jp_block_signing_window (jailing_config p)"

definition np_calculate_fee :: "network_parameters \<Rightarrow> u64 \<Rightarrow> coin_error + fee" where
  "np_calculate_fee p num_bytes = estimate (initial_fee_policy p) num_bytes"

section \<open>Transaction data\<close>

type_synonym txid = h256
type_synonym public_key = bytes
type_synonym raw_pubkey = bytes
type_synonym schnorr_signature = bytes
type_synonym ecdsa_signature = bytes

record txo_pointer =
  txo_id :: txid
  txo_index :: u16

datatype extended_addr = OrTree h256

record tx_out =
  out_address :: extended_addr
  out_value :: coin
  valid_from :: "timespec option"

datatype tx_access = AllData | AccessOutput u64

record tx_access_policy =
  view_key :: public_key
  access :: tx_access

record tx_attributes =
  chain_hex_id :: u8
  allowed_view :: "tx_access_policy list"

record tx =
  tx_inputs :: "txo_pointer list"
  tx_outputs :: "tx_out list"
  tx_attrs :: tx_attributes

record deposit_bond_tx =
  dep_inputs :: "txo_pointer list"
  to_staked_account :: staked_address
  dep_chain_hex_id :: u8

record unbond_tx =
  from_staked_account :: staked_address
  unbond_nonce :: u64
  unbond_value :: coin
  unbond_chain_hex_id :: u8

record withdraw_unbonded_tx =
  wd_nonce :: u64
  wd_outputs :: "tx_out list"
  wd_attributes :: tx_attributes

record unjail_tx =
  unjail_nonce :: u64
  unjail_address :: staked_address
  unjail_chain_hex_id :: u8

record node_join_tx =
  join_nonce :: u64
  join_address :: staked_address
  join_chain_hex_id :: u8
  node_meta :: council_node

datatype tx_in_witness = TreeSig schnorr_signature "raw_pubkey proof_of"

type_synonym tx_witness = "tx_in_witness list"

datatype op_witness = OpBasicRedeem ecdsa_signature

datatype tx_with_outputs = Transfer tx | StakeWithdraw withdraw_unbonded_tx

datatype plain_tx_aux =
    PlainTransferTx tx tx_witness
  | PlainDepositStakeTx tx_witness
  | PlainWithdrawUnbondedStakeTx withdraw_unbonded_tx

record tx_obfuscated =
  key_from :: block_height
  init_vector :: bytes
  obf_payload :: bytes
  obf_txid :: txid

datatype tx_enclave_aux =
    EncTransferTx "txo_pointer list" u16 tx_obfuscated
  | EncDepositStakeTx deposit_bond_tx tx_obfuscated
  | EncWithdrawUnbondedStakeTx u16 op_witness tx_obfuscated

datatype tx_aux =
    EnclaveTx tx_enclave_aux
  | UnbondStakeTx unbond_tx op_witness
  | UnjailTx unjail_tx op_witness
  | NodeJoinTx node_join_tx op_witness

definition txo_pointer_new :: "txid \<Rightarrow> nat \<Rightarrow> txo_pointer" where
  "txo_pointer_new i ix = \<lparr>txo_id = i, txo_index = of_nat ix\<rparr>"

definition tx_get_output_total :: "tx \<Rightarrow> coin_error + coin" where
  "tx_get_output_total t = sum_coins (map out_value (tx_outputs t))"

definition wd_get_output_total :: "withdraw_unbonded_tx \<Rightarrow> coin_error + coin" where
  "wd_get_output_total t = sum_coins (map out_value (wd_outputs t))"

fun outputs_of :: "tx_with_outputs \<Rightarrow> tx_out list" where
  "outputs_of (Transfer t) = tx_outputs t"
| "outputs_of (StakeWithdraw t) = wd_outputs t"

section \<open>Third-party services\<close>

text \<open>
  Hash functions, SCALE encodings of the transaction types, and the secp256k1
  operations: \<open>pk_from_slice\<close> and \<open>msg_from_slice\<close> fail on malformed bytes,
  \<open>schnorr_verify\<close> and \<open>ecdsa_verify\<close> tell whether a signature is good,
  \<open>ecdsa_recover\<close> computes the public key of a recoverable signature and
  \<open>pk_uncompressed\<close> is the 65-byte form of a key.
\<close>

record ext =
  blake2s :: "bytes \<Rightarrow> h256"
  sha256 :: "bytes \<Rightarrow> bytes"
  keccak256 :: "bytes \<Rightarrow> bytes"
  enc_tx :: "tx \<Rightarrow> bytes"
  enc_deposit :: "deposit_bond_tx \<Rightarrow> bytes"
  enc_unbond :: "unbond_tx \<Rightarrow> bytes"
  enc_withdraw :: "withdraw_unbonded_tx \<Rightarrow> bytes"
  enc_unjail :: "unjail_tx \<Rightarrow> bytes"
  enc_node_join :: "node_join_tx \<Rightarrow> bytes"
  msg_from_slice :: "bytes \<Rightarrow> bytes option"
  pk_from_slice :: "bytes \<Rightarrow> public_key option"
  schnorr_verify :: "bytes \<Rightarrow> schnorr_signature \<Rightarrow> public_key \<Rightarrow> bool"
  ecdsa_recover :: "bytes \<Rightarrow> ecdsa_signature \<Rightarrow> public_key option"
  ecdsa_verify :: "bytes \<Rightarrow> ecdsa_signature \<Rightarrow> public_key \<Rightarrow> bool"
  pk_uncompressed :: "public_key \<Rightarrow> bytes"

definition txid_hash :: "ext \<Rightarrow> bytes \<Rightarrow> txid" where
  "txid_hash E buf = blake2s E buf"

definition tx_id :: "ext \<Rightarrow> tx \<Rightarrow> txid" where "tx_id E t = txid_hash E (enc_tx E t)"
definition deposit_id :: "ext \<Rightarrow> deposit_bond_tx \<Rightarrow> txid" where
  "deposit_id E t = txid_hash E (enc_deposit E t)"
definition unbond_id :: "ext \<Rightarrow> unbond_tx \<Rightarrow> txid" where
  "unbond_id E t = txid_hash E (enc_unbond E t)"
definition withdraw_id :: "ext \<Rightarrow> withdraw_unbonded_tx \<Rightarrow> txid" where
  "withdraw_id E t = txid_hash E (enc_withdraw E t)"
definition unjail_id :: "ext \<Rightarrow> unjail_tx \<Rightarrow> txid" where
  "unjail_id E t = txid_hash E (enc_unjail E t)"
definition node_join_id :: "ext \<Rightarrow> node_join_tx \<Rightarrow> txid" where
  "node_join_id E t = txid_hash E (enc_node_join E t)"

fun with_outputs_id :: "ext \<Rightarrow> tx_with_outputs \<Rightarrow> txid" where
  "with_outputs_id E (Transfer t) = tx_id E t"
| "with_outputs_id E (StakeWithdraw t) = withdraw_id E t"

fun enclave_aux_tx_id :: "ext \<Rightarrow> tx_enclave_aux \<Rightarrow> txid" where
  "enclave_aux_tx_id E (EncTransferTx ins n p) = obf_txid p"
| "enclave_aux_tx_id E (EncDepositStakeTx t p) = deposit_id E t"
| "enclave_aux_tx_id E (EncWithdrawUnbondedStakeTx n w p) = obf_txid p"

fun tx_aux_id :: "ext \<Rightarrow> tx_aux \<Rightarrow> txid" where
  "tx_aux_id E (EnclaveTx t) = enclave_aux_tx_id E t"
| "tx_aux_id E (UnbondStakeTx t w) = unbond_id E t"
| "tx_aux_id E (UnjailTx t w) = unjail_id E t"
| "tx_aux_id E (NodeJoinTx t w) = node_join_id E t"

section \<open>Witnesses\<close>

datatype secp_error = InvalidMessage | InvalidPublicKey | InvalidSignature

definition verify_tx_address :: "ext \<Rightarrow> tx_in_witness \<Rightarrow> txid \<Rightarrow> extended_addr \<Rightarrow> secp_error + unit" where
  "verify_tx_address E w i a = and_then (ok_or (msg_from_slice E i) InvalidMessage) (\<lambda>message.
     case (w, a) of (TreeSig sig p, OrTree root) \<Rightarrow>
       if \<not> proof_verify (blake2s E) p root then Err InvalidPublicKey
       else and_then (ok_or (pk_from_slice E (proof_value p)) InvalidPublicKey) (\<lambda>pk.
         if schnorr_verify E message sig pk then Ok () else Err InvalidSignature))"

definition redeem_address_of_pk :: "ext \<Rightarrow> public_key \<Rightarrow> bytes" where
  "redeem_address_of_pk E pk = drop 12 (keccak256 E (drop 1 (pk_uncompressed E pk)))"

definition verify_tx_recover_address :: "ext \<Rightarrow> op_witness \<Rightarrow> txid \<Rightarrow> secp_error + staked_address" where
  "verify_tx_recover_address E w i = (case w of OpBasicRedeem sig \<Rightarrow>
     and_then (ok_or (msg_from_slice E i) InvalidMessage) (\<lambda>message.
     and_then (ok_or (ecdsa_recover E message sig) InvalidSignature) (\<lambda>pk.
     if ecdsa_verify E message sig pk then Ok (BasicRedeem (redeem_address_of_pk E pk))
     else Err InvalidSignature)))"

lemma proof_verify_root_path:
  "proof_verify H \<lparr>proof_path = \<lparr>leaf_hash = root, nodes = []\<rparr>, proof_value = v\<rparr> root"
  by (simp add: proof_verify_def path_verify_def path_hash_def)

text \<open>
  Whoever holds one of the keys an address commits to can spend from it: the
  proof generated from the tree, with a good signature on the transaction id, is
  accepted.
\<close>

theorem verify_tx_address_complete:
  assumes "pk \<in> set pks" "msg_from_slice E i = Some m" "pk_from_slice E pk = Some k"
    and "schnorr_verify E m sig k"
  shows "\<exists>p. generate_proof (blake2s E) (\<lambda>b. b) (merkle_new (blake2s E) (\<lambda>b. b) pks) pk = Done (Some p) \<and>
    verify_tx_address E (TreeSig sig p) i (OrTree (root_hash (merkle_new (blake2s E) (\<lambda>b. b) pks))) = Ok ()"
  using merkle.complete [OF assms(1), of "blake2s E" "\<lambda>b. b"] assms(2-)
  by (auto simp: verify_tx_address_def)

theorem verify_tx_address_complete_witness:
  "\<exists>E :: ext. \<exists>p. verify_tx_address E (TreeSig [9] p) [] (OrTree (root_hash (merkle_new (blake2s E) (\<lambda>b. b) [[1], [2]]))) = Ok ()"
  using verify_tx_address_complete [of "[1]" "[[1], [2]]"
    "\<lparr>blake2s = sample_hash, sha256 = \<lambda>b. b, keccak256 = \<lambda>b. b, enc_tx = \<lambda>t. [], enc_deposit = \<lambda>t. [],
      enc_unbond = \<lambda>t. [], enc_withdraw = \<lambda>t. [], enc_unjail = \<lambda>t. [], enc_node_join = \<lambda>t. [],
      msg_from_slice = Some, pk_from_slice = Some, schnorr_verify = \<lambda>m s k. s = [9],
      ecdsa_recover = \<lambda>m s. None, ecdsa_verify = \<lambda>m s k. False, pk_uncompressed = \<lambda>k. k\<rparr>" "[]" "[]" "[1]" "[9]"]
  by (auto simp del: ext.simps(1))

end
