(* ===== verification/Tx_Validation.thy ===== *)
theory Tx_Validation
  imports Tx_Types
begin

text \<open>
  The pure transaction checks of chain-tx-validation/src/lib.rs.  Each \<open>verify\<close>
  function is translated branch by branch in the order of the source; \<open>unwrap\<close>
  and \<open>expect\<close> are panics.  The locales \<open>nonce_guarded\<close> and \<open>value_guarded\<close> state
  what all transactions on staking accounts have in common (they are bound to the
  current nonce, advance it, and account for every base unit), and the four
  verifiers are interpretations of them.
\<close>

datatype error =
    WrongChainHexId | NoInputs | NoOutputs | DuplicateInputs | ZeroCoin | InvalidSum
  | UnexpectedWitnesses | MissingWitnesses | InvalidInput | InputSpent | InputOutputDoNotMatch
  | OutputInTimelock | EcdsaCrypto | IoError | EnclaveRejected | AccountNotFound | AccountNotUnbonded
  | AccountWithdrawOutputNotLocked | MismatchAccountAddress | AccountIncorrectNonce | AccountJailed
  | AccountNotJailed | NotEnoughStake | DuplicateValidator

record chain_info =
  min_fee_computed :: fee
  info_chain_hex_id :: u8
  previous_block_time :: timespec
  info_unbonding_period :: u32

record node_info =
  minimal_stake :: coin
  ni_tendermint_validator_addresses :: "(tm_address, staked_address) btm"
  ni_validator_voting_power :: "(staked_address, vote_power) btm"

section \<open>The checks\<close>

definition check_attributes :: "u8 \<Rightarrow> chain_info \<Rightarrow> error + unit" where
  "check_attributes i info = (if info_chain_hex_id info \<noteq> i then Err WrongChainHexId else Ok ())"

fun all_insert :: "txo_pointer list \<Rightarrow> txo_pointer list \<Rightarrow> bool" where
  "all_insert seen [] \<longleftrightarrow> True"
| "all_insert seen (x # xs) \<longleftrightarrow> x \<notin> set seen \<and> all_insert (x # seen) xs"

definition check_inputs_basic :: "txo_pointer list \<Rightarrow> tx_witness \<Rightarrow> error + unit" where
  "check_inputs_basic inputs witness =
     (if inputs = [] then Err NoInputs
      else if \<not> all_insert [] inputs then Err DuplicateInputs
      else if length inputs < length witness then Err UnexpectedWitnesses
      else if length inputs > length witness then Err MissingWitnesses
      else Ok ())"

fun check_inputs_loop ::
    "ext \<Rightarrow> txid \<Rightarrow> chain_info \<Rightarrow> coin \<Rightarrow> (txo_pointer \<times> tx_with_outputs \<times> tx_in_witness) list \<Rightarrow> error + coin" where
  "check_inputs_loop E main_txid info incoins [] = Ok incoins"
| "check_inputs_loop E main_txid info incoins ((txin, t, in_witness) # rest) =
     (if txo_id txin \<noteq> with_outputs_id E t then Err InvalidInput
      else if unat (txo_index txin) \<ge> length (outputs_of t) then Err InvalidInput
      else (let txout = outputs_of t ! unat (txo_index txin) in
        if (case valid_from txout of None \<Rightarrow> False | Some v \<Rightarrow> v > previous_block_time info)
        then Err OutputInTimelock
        else (case verify_tx_address E in_witness main_txid (out_address txout) of
          Inl e \<Rightarrow> Err EcdsaCrypto
        | Inr u \<Rightarrow> (case coin_add incoins (out_value txout) of
            Inl e \<Rightarrow> Err InvalidSum
          | Inr s \<Rightarrow> check_inputs_loop E main_txid info s rest))))"

definition check_inputs ::
    "ext \<Rightarrow> txid \<Rightarrow> txo_pointer list \<Rightarrow> tx_witness \<Rightarrow> chain_info \<Rightarrow> tx_with_outputs list \<Rightarrow> error + coin" where
  "check_inputs E main_txid inputs witness info transaction_inputs =
     check_inputs_loop E main_txid info coin_zero (zip inputs (zip transaction_inputs witness))"

definition check_outputs_basic :: "tx_out list \<Rightarrow> error + unit" where
  "check_outputs_basic outputs =
     (if outputs = [] then Err NoOutputs
      else if \<not> list_all (\<lambda>x. out_value x > coin_zero) outputs then Err ZeroCoin
      else Ok ())"

definition check_input_output_sums :: "coin \<Rightarrow> coin \<Rightarrow> chain_info \<Rightarrow> (error + fee) run" where
  "check_input_output_sums incoins outcoins info =
     (let min_fee = to_coin (min_fee_computed info) in
      case coin_add outcoins min_fee of
        Inl e \<Rightarrow> Done (Err InvalidSum)
      | Inr total_outsum \<Rightarrow>
          if incoins < total_outsum then Done (Err InputOutputDoNotMatch)
          else run_bind (expect (coin_sub incoins outcoins) ''unwrap'') (\<lambda>fee_paid.
            Done (Ok (Fee fee_paid))))"

definition verify_transfer ::
    "ext \<Rightarrow> tx \<Rightarrow> tx_witness \<Rightarrow> chain_info \<Rightarrow> tx_with_outputs list \<Rightarrow> (error + fee) run" where
  "verify_transfer E maintx witness info transaction_inputs =
     try_run (Done (check_attributes (chain_hex_id (tx_attrs maintx)) info)) (\<lambda>_.
     try_run (Done (check_inputs_basic (tx_inputs maintx) witness)) (\<lambda>_.
     try_run (Done (check_outputs_basic (tx_outputs maintx))) (\<lambda>_.
     try_run (Done (check_inputs E (tx_id E maintx) (tx_inputs maintx) witness info transaction_inputs)) (\<lambda>incoins.
     case tx_get_output_total maintx of
       Inl e \<Rightarrow> Done (Err InvalidSum)
     | Inr outcoins \<Rightarrow> check_input_output_sums incoins outcoins info))))"

definition verify_bonded_deposit_core ::
    "ext \<Rightarrow> deposit_bond_tx \<Rightarrow> tx_witness \<Rightarrow> chain_info \<Rightarrow> tx_with_outputs list \<Rightarrow> error + coin" where
  "verify_bonded_deposit_core E maintx witness info transaction_inputs =
     and_then (check_attributes (dep_chain_hex_id maintx) info) (\<lambda>_.
     and_then (check_inputs_basic (dep_inputs maintx) witness) (\<lambda>_.
     and_then (check_inputs E (deposit_id E maintx) (dep_inputs maintx) witness info transaction_inputs) (\<lambda>incoins.
     if incoins \<le> to_coin (min_fee_computed info) then Err InputOutputDoNotMatch else Ok incoins)))"

definition verify_unjailed :: "staked_state \<Rightarrow> error + unit" where
  "verify_unjailed account = (if is_jailed account then Err AccountJailed else Ok ())"

definition verify_bonded_deposit ::
    "ext \<Rightarrow> deposit_bond_tx \<Rightarrow> tx_witness \<Rightarrow> chain_info \<Rightarrow> tx_with_outputs list \<Rightarrow> staked_state option \<Rightarrow>
     (error + fee \<times> staked_state option) run" where
  "verify_bonded_deposit E maintx witness info transaction_inputs maccount =
     try_run (Done (case maccount of None \<Rightarrow> Ok () | Some account \<Rightarrow> verify_unjailed account)) (\<lambda>_.
     try_run (Done (verify_bonded_deposit_core E maintx witness info transaction_inputs)) (\<lambda>incoins.
     run_bind (expect (coin_sub incoins (to_coin (min_fee_computed info))) ''init'') (\<lambda>deposit_amount.
     run_bind (case maccount of
         Some a \<Rightarrow> run_bind (deposit deposit_amount a) (\<lambda>a'. Done (Some a'))
       | None \<Rightarrow> Done (Some (new_init_bonded deposit_amount (previous_block_time info)
                   (to_staked_account maintx) None))) (\<lambda>account.
     Done (Ok (min_fee_computed info, account))))))"

definition verify_unbonding ::
    "unbond_tx \<Rightarrow> chain_info \<Rightarrow> staked_state \<Rightarrow> (error + fee \<times> staked_state option) run" where
  "verify_unbonding maintx info account =
     try_run (Done (verify_unjailed account)) (\<lambda>_.
     try_run (Done (check_attributes (unbond_chain_hex_id maintx) info)) (\<lambda>_.
     if from_staked_account maintx \<noteq> ss_address account then Done (Err MismatchAccountAddress)
     else if unbond_nonce maintx \<noteq> nonce account then Done (Err AccountIncorrectNonce)
     else if unbond_value maintx = coin_zero then Done (Err ZeroCoin)
     else try_run (check_input_output_sums (bonded account) (unbond_value maintx) info) (\<lambda>_.
       run_bind (unbond (unbond_value maintx) (to_coin (min_fee_computed info))
           (previous_block_time info + ucast (info_unbonding_period info)) account) (\<lambda>account'.
       Done (Ok (min_fee_computed info, Some account'))))))"

definition verify_unbonded_withdraw_core ::
    "withdraw_unbonded_tx \<Rightarrow> chain_info \<Rightarrow> staked_state \<Rightarrow> (error + fee) run" where
  "verify_unbonded_withdraw_core maintx info account =
     try_run (Done (verify_unjailed account)) (\<lambda>_.
     try_run (Done (check_attributes (chain_hex_id (wd_attributes maintx)) info)) (\<lambda>_.
     try_run (Done (check_outputs_basic (wd_outputs maintx))) (\<lambda>_.
     if wd_nonce maintx \<noteq> nonce account then Done (Err AccountIncorrectNonce)
     else if unbonded_from account > previous_block_time info then Done (Err AccountNotUnbonded)
     else if unbonded account = coin_zero then Done (Err ZeroCoin)
     else if \<not> list_all (\<lambda>x. valid_from x = Some (unbonded_from account)) (wd_outputs maintx)
       then Done (Err AccountWithdrawOutputNotLocked)
     else (case wd_get_output_total maintx of
         Inl e \<Rightarrow> Done (Err InvalidSum)
       | Inr outcoins \<Rightarrow> check_input_output_sums (unbonded account) outcoins info))))"

definition verify_unbonded_withdraw ::
    "withdraw_unbonded_tx \<Rightarrow> chain_info \<Rightarrow> staked_state \<Rightarrow> (error + fee \<times> staked_state option) run" where
  "verify_unbonded_withdraw maintx info account =
     try_run (verify_unbonded_withdraw_core maintx info account) (\<lambda>fee.
     Done (Ok (fee, Some (withdraw account))))"

definition verify_unjailing ::
    "unjail_tx \<Rightarrow> chain_info \<Rightarrow> staked_state \<Rightarrow> (error + fee \<times> staked_state option) run" where
  "verify_unjailing maintx info account =
     try_run (Done (check_attributes (unjail_chain_hex_id maintx) info)) (\<lambda>_.
     if unjail_nonce maintx \<noteq> nonce account then Done (Err AccountIncorrectNonce)
     else if unjail_address maintx \<noteq> ss_address account then Done (Err MismatchAccountAddress)
     else (case jailed_until account of
         None \<Rightarrow> Done (Err AccountNotJailed)
       | Some until \<Rightarrow>
           if until > previous_block_time info then Done (Err AccountJailed)
           else Done (Ok (Fee coin_zero, Some (unjail account)))))"

definition verify_node_join ::
    "ext \<Rightarrow> node_join_tx \<Rightarrow> chain_info \<Rightarrow> node_info \<Rightarrow> staked_state \<Rightarrow> (error + fee \<times> staked_state option) run" where
  "verify_node_join E maintx info ni account =
     try_run (Done (verify_unjailed account)) (\<lambda>_.
     try_run (Done (check_attributes (join_chain_hex_id maintx) info)) (\<lambda>_.
     if join_nonce maintx \<noteq> nonce account then Done (Err AccountIncorrectNonce)
     else if join_address maintx \<noteq> ss_address account then Done (Err MismatchAccountAddress)
     else if bonded account < minimal_stake ni then Done (Err NotEnoughStake)
     else (let validator_address = tm_address_of_pubkey (sha256 E) (consensus_pubkey (node_meta maintx)) in
       if bm_contains (ni_validator_voting_power ni) (join_address maintx) \<or>
          bm_contains (ni_tendermint_validator_addresses ni) validator_address
       then Done (Err DuplicateValidator)
       else Done (Ok (Fee coin_zero, Some (join_node (node_meta maintx) account))))))"

section \<open>Inversion of the checks\<close>

named_theorems check_inv \<open>what a passed check says\<close>

abbreviation min_fee :: "chain_info \<Rightarrow> nat" where
  "min_fee info \<equiv> coin_val (to_coin (min_fee_computed info))"

lemma all_insert_distinct: "all_insert seen xs \<longleftrightarrow> distinct xs \<and> set xs \<inter> set seen = {}"
  by (induction xs arbitrary: seen) auto

lemma check_attributes_Ok [check_inv]: "check_attributes i info = Ok u \<longleftrightarrow> info_chain_hex_id info = i"
  by (auto simp: check_attributes_def)

lemma verify_unjailed_Ok [check_inv]: "verify_unjailed s = Ok u \<longleftrightarrow> \<not> is_jailed s"
  by (auto simp: verify_unjailed_def)

lemma check_inputs_basic_Ok [check_inv]:
  "check_inputs_basic ins w = Ok u \<longleftrightarrow> ins \<noteq> [] \<and> distinct ins \<and> length ins = length w"
  by (auto simp: check_inputs_basic_def all_insert_distinct)

lemma check_outputs_basic_Ok [check_inv]:
  "check_outputs_basic outs = Ok u \<longleftrightarrow> outs \<noteq> [] \<and> (\<forall>x \<in> set outs. 0 < coin_val (out_value x))"
  by (auto simp: check_outputs_basic_def list_all_iff coin_less_iff)

lemma check_sums_Ok [check_inv]:
  "check_input_output_sums i out info = Done (Ok f) \<longleftrightarrow>
     coin_val i = coin_val out + coin_val (to_coin f) \<and> min_fee info \<le> coin_val (to_coin f) \<and>
     coin_val out + min_fee info \<le> max_supply \<and> valid_coin (to_coin f)"
proof (cases "coin_add out (to_coin (min_fee_computed info))")
  case (Inl e)
  then have "max_supply < coin_val out + min_fee info" using coin_add_is_Err by blast
  with Inl show ?thesis by (simp add: check_input_output_sums_def Let_def)
next
  case (Inr t)
  then have "coin_val t = coin_val out + min_fee info" "coin_val out + min_fee info \<le> max_supply"
    by (simp_all add: coin_add_eq_Ok)
  with Inr show ?thesis
    by (cases f) (auto simp: check_input_output_sums_def Let_def run_elims coin_sub_eq_Ok
        coin_less_iff valid_coin_iff)
qed

lemma check_sums_no_panic:
  "valid_coin i \<Longrightarrow> \<exists>r. check_input_output_sums i out info = Done r"
  using coin_sub_total [of i out] coin_add_eq_Ok [of out "to_coin (min_fee_computed info)"]
  by (auto simp: check_input_output_sums_def Let_def coin_less_iff not_less split: sum.splits)

text \<open>The output an input refers to.\<close>

definition spent_output :: "txo_pointer \<Rightarrow> tx_with_outputs \<Rightarrow> tx_out" where
  "spent_output i t = outputs_of t ! unat (txo_index i)"

definition input_ok :: "ext \<Rightarrow> txid \<Rightarrow> chain_info \<Rightarrow> txo_pointer \<times> tx_with_outputs \<times> tx_in_witness \<Rightarrow> bool" where
  "input_ok E main_txid info x = (case x of (i, t, w) \<Rightarrow>
     txo_id i = with_outputs_id E t \<and> unat (txo_index i) < length (outputs_of t) \<and>
     (case valid_from (spent_output i t) of None \<Rightarrow> True | Some v \<Rightarrow> v \<le> previous_block_time info) \<and>
     verify_tx_address E w main_txid (out_address (spent_output i t)) = Ok ())"

lemma check_inputs_loop_Ok:
  "valid_coin c \<Longrightarrow> check_inputs_loop E m info c xs = Ok r \<longleftrightarrow>
     list_all (input_ok E m info) xs \<and>
     coin_val r = coin_val c + (\<Sum>(i, t, w) \<leftarrow> xs. coin_val (out_value (spent_output i t))) \<and>
     coin_val c + (\<Sum>(i, t, w) \<leftarrow> xs. coin_val (out_value (spent_output i t))) \<le> max_supply"
proof (induction xs arbitrary: c)
  case Nil
  then show ?case by (auto simp: valid_coin_iff coin_eq_iff)
next
  case (Cons x xs)
  obtain i t w where x: "x = (i, t, w)" by (metis prod_cases3)
  show ?case
  proof (cases "input_ok E m info x")
    case False
    then show ?thesis
      by (auto simp: x input_ok_def spent_output_def Let_def not_le split: option.splits sum.splits)
  next
    case True
    then have step: "check_inputs_loop E m info c (x # xs) =
        (case coin_add c (out_value (spent_output i t)) of Inl e \<Rightarrow> Err InvalidSum
         | Inr s \<Rightarrow> check_inputs_loop E m info s xs)"
      by (auto simp: x input_ok_def spent_output_def Let_def not_le split: option.splits)
    show ?thesis
    proof (cases "coin_add c (out_value (spent_output i t))")
      case (Inl e)
      then have "max_supply < coin_val c + coin_val (out_value (spent_output i t))"
        using coin_add_is_Err by blast
      moreover have "check_inputs_loop E m info c (x # xs) = Err InvalidSum"
        unfolding step Inl by simp
      ultimately show ?thesis by (simp add: x)
    next
      case (Inr s)
      then have s: "coin_val s = coin_val c + coin_val (out_value (spent_output i t))" "valid_coin s"
        by (simp_all add: coin_add_eq_Ok valid_coin_iff)
      have "check_inputs_loop E m info c (x # xs) = check_inputs_loop E m info s xs"
        by (simp add: step Inr)
      with True s show ?thesis by (simp only: Cons.IH [OF s(2)]) (simp add: x add.assoc)
    qed
  qed
qed

lemma check_inputs_Ok [check_inv]:
  "check_inputs E m ins ws info txs = Ok r \<longleftrightarrow>
     list_all (input_ok E m info) (zip ins (zip txs ws)) \<and>
     coin_val r = (\<Sum>(i, t, w) \<leftarrow> zip ins (zip txs ws). coin_val (out_value (spent_output i t))) \<and>
     coin_val r \<le> max_supply"
  by (auto simp: check_inputs_def check_inputs_loop_Ok)

section \<open>What accepted staking transactions have in common\<close>

text \<open>
  \<open>info\<close> is whatever chain context the verifier takes.  The first contract binds a
  transaction to the nonce of the account, the second one to its balance: what
  leaves the account is the fee and the value \<open>moved\<close> to new outputs.
\<close>

locale nonce_guarded =
  fixes verify :: "'tx \<Rightarrow> 'info \<Rightarrow> staked_state \<Rightarrow> (error + fee \<times> staked_state option) run"
    and nonce_of :: "'tx \<Rightarrow> u64"
  assumes accepts_nonce: "verify t i s = Done (Ok (f, r)) \<Longrightarrow> nonce_of t = nonce s"
    and accepts_state: "verify t i s = Done (Ok (f, r)) \<Longrightarrow>
      \<exists>s'. r = Some s' \<and> nonce s' = nonce s + 1 \<and> ss_address s' = ss_address s"
begin

text \<open>An accepted transaction cannot be accepted again on the account it produced.\<close>

lemma no_replay:
  assumes "verify t i s = Done (Ok (f, Some s'))"
  shows "verify t i' s' \<noteq> Done (Ok x)"
proof
  assume a: "verify t i' s' = Done (Ok x)"
  obtain f' r' where "x = (f', r')" by (cases x)
  with a have "nonce_of t = nonce s'" using accepts_nonce by blast
  moreover have "nonce_of t = nonce s" "nonce s' = nonce s + 1"
    using accepts_nonce [OF assms] accepts_state [OF assms] by auto
  ultimately show False by simp
qed

end

locale value_guarded = nonce_guarded verify nonce_of
  for verify :: "'tx \<Rightarrow> 'info \<Rightarrow> staked_state \<Rightarrow> (error + fee \<times> staked_state option) run"
    and nonce_of :: "'tx \<Rightarrow> u64" +
  fixes moved :: "'tx \<Rightarrow> nat"
  assumes accounts_value: "verify t i s = Done (Ok (f, Some s')) \<Longrightarrow>
      account_total s = account_total s' + moved t + coin_val (to_coin f)"
begin

lemma total_never_grows: "verify t i s = Done (Ok (f, Some s')) \<Longrightarrow> account_total s' \<le> account_total s"
  using accounts_value by fastforce

lemma accepted_valid: "valid_account s \<Longrightarrow> verify t i s = Done (Ok (f, Some s')) \<Longrightarrow> valid_account s'"
  using total_never_grows by (force simp: valid_account_def)

end

lemma verify_unbonding_Ok:
  "verify_unbonding t info s = Done (Ok (f, r)) \<longleftrightarrow>
     \<not> is_jailed s \<and> info_chain_hex_id info = unbond_chain_hex_id t \<and> from_staked_account t = ss_address s \<and>
     unbond_nonce t = nonce s \<and> unbond_value t \<noteq> coin_zero \<and>
     (\<exists>f'. check_input_output_sums (bonded s) (unbond_value t) info = Done (Ok f')) \<and>
     (\<exists>s'. unbond (unbond_value t) (to_coin (min_fee_computed info))
        (previous_block_time info + ucast (info_unbonding_period info)) s = Done s' \<and>
        f = min_fee_computed info \<and> r = Some s')"
  by (auto simp: verify_unbonding_def try_run_eq_Ok run_bind_eq_Done verify_unjailed_Ok
      check_attributes_Ok split: if_splits)

lemma verify_unbonded_withdraw_core_Ok:
  "verify_unbonded_withdraw_core t info s = Done (Ok f) \<longleftrightarrow>
     \<not> is_jailed s \<and> info_chain_hex_id info = chain_hex_id (wd_attributes t) \<and>
     check_outputs_basic (wd_outputs t) = Ok () \<and> wd_nonce t = nonce s \<and>
     unbonded_from s \<le> previous_block_time info \<and> unbonded s \<noteq> coin_zero \<and>
     list_all (\<lambda>x. valid_from x = Some (unbonded_from s)) (wd_outputs t) \<and>
     (\<exists>c. wd_get_output_total t = Ok c \<and> check_input_output_sums (unbonded s) c info = Done (Ok f))"
  by (auto simp: verify_unbonded_withdraw_core_def try_run_eq_Ok verify_unjailed_Ok
      check_attributes_Ok not_less split: if_splits sum.splits)

lemma verify_unjailing_Ok:
  "verify_unjailing t info s = Done (Ok (f, r)) \<longleftrightarrow>
     info_chain_hex_id info = unjail_chain_hex_id t \<and> unjail_nonce t = nonce s \<and>
     unjail_address t = ss_address s \<and>
     (\<exists>u. jailed_until s = Some u \<and> u \<le> previous_block_time info) \<and>
     f = Fee coin_zero \<and> r = Some (unjail s)"
  by (auto simp: verify_unjailing_def try_run_eq_Ok check_attributes_Ok not_less
      split: if_splits option.splits)

lemma verify_node_join_Ok:
  "verify_node_join E t info ni s = Done (Ok (f, r)) \<longleftrightarrow>
     \<not> is_jailed s \<and> info_chain_hex_id info = join_chain_hex_id t \<and> join_nonce t = nonce s \<and>
     join_address t = ss_address s \<and> minimal_stake ni \<le> bonded s \<and>
     \<not> bm_contains (ni_validator_voting_power ni) (ss_address s) \<and>
     \<not> bm_contains (ni_tendermint_validator_addresses ni)
         (tm_address_of_pubkey (sha256 E) (consensus_pubkey (node_meta t))) \<and>
     f = Fee coin_zero \<and> r = Some (join_node (node_meta t) s)"
  by (auto simp: verify_node_join_def try_run_eq_Ok verify_unjailed_Ok check_attributes_Ok
      Let_def not_less split: if_splits)

interpretation unbonding: value_guarded verify_unbonding unbond_nonce "\<lambda>_. 0"
proof unfold_locales
  fix t i s f r s'
  show "verify_unbonding t i s = Done (Ok (f, r)) \<Longrightarrow> unbond_nonce t = nonce s"
    by (simp add: verify_unbonding_Ok)
  show "verify_unbonding t i s = Done (Ok (f, r)) \<Longrightarrow>
      \<exists>s'. r = Some s' \<and> nonce s' = nonce s + 1 \<and> ss_address s' = ss_address s"
    using unbond.nonce_step unbond.address_kept by (fastforce simp: verify_unbonding_Ok)
  show "verify_unbonding t i s = Done (Ok (f, Some s')) \<Longrightarrow>
      account_total s = account_total s' + 0 + coin_val (to_coin f)"
    using unbond_total by (fastforce simp: verify_unbonding_Ok)
qed

interpretation withdrawal: value_guarded verify_unbonded_withdraw wd_nonce
  "\<lambda>t. sum_list (map (coin_val \<circ> out_value) (wd_outputs t))"
proof unfold_locales
  fix t i s f r s'
  show "verify_unbonded_withdraw t i s = Done (Ok (f, r)) \<Longrightarrow> wd_nonce t = nonce s"
    by (auto simp: verify_unbonded_withdraw_def try_run_eq_Ok verify_unbonded_withdraw_core_Ok)
  show "verify_unbonded_withdraw t i s = Done (Ok (f, r)) \<Longrightarrow>
      \<exists>s'. r = Some s' \<and> nonce s' = nonce s + 1 \<and> ss_address s' = ss_address s"
    by (auto simp: verify_unbonded_withdraw_def try_run_eq_Ok withdraw_def)
  show "verify_unbonded_withdraw t i s = Done (Ok (f, Some s')) \<Longrightarrow>
      account_total s = account_total s' +
        sum_list (map (coin_val \<circ> out_value) (wd_outputs t)) + coin_val (to_coin f)"
    using withdraw_total [of s]
    by (auto simp: verify_unbonded_withdraw_def try_run_eq_Ok verify_unbonded_withdraw_core_Ok
        check_sums_Ok wd_get_output_total_def sum_coins_eq_Ok)
qed

interpretation unjailing: value_guarded verify_unjailing unjail_nonce "\<lambda>_. 0"
  by unfold_locales (auto simp: verify_unjailing_Ok unjail_def account_total_def)

interpretation joining: value_guarded "\<lambda>t (info, ni). verify_node_join E t info ni" join_nonce "\<lambda>_. 0" for E
  by unfold_locales (auto simp: verify_node_join_Ok join_node_def account_total_def)

section \<open>Transfers and deposits\<close>

lemma verify_transfer_Ok:
  "verify_transfer E t w info txs = Done (Ok f) \<longleftrightarrow>
     info_chain_hex_id info = chain_hex_id (tx_attrs t) \<and> check_inputs_basic (tx_inputs t) w = Ok () \<and>
     check_outputs_basic (tx_outputs t) = Ok () \<and>
     (\<exists>i out. check_inputs E (tx_id E t) (tx_inputs t) w info txs = Ok i \<and>
        tx_get_output_total t = Ok out \<and> check_input_output_sums i out info = Done (Ok f))"
  by (cases "tx_get_output_total t")
    (auto simp: verify_transfer_def try_run_eq_Ok check_attributes_Ok)

lemma verify_bonded_deposit_core_Ok:
  "verify_bonded_deposit_core E t w info txs = Ok c \<longleftrightarrow>
     info_chain_hex_id info = dep_chain_hex_id t \<and> check_inputs_basic (dep_inputs t) w = Ok () \<and>
     check_inputs E (deposit_id E t) (dep_inputs t) w info txs = Ok c \<and> min_fee info < coin_val c"
  by (cases "check_inputs E (deposit_id E t) (dep_inputs t) w info txs")
    (auto simp: verify_bonded_deposit_core_def and_then_eq_Ok check_attributes_Ok coin_le_iff
      split: if_splits)

lemma map_zip3_drop:
  "length ins = length txs \<Longrightarrow> length txs = length ws \<Longrightarrow>
   map (\<lambda>(i, p, w). g i p) (zip ins (zip txs ws)) = map (\<lambda>(i, p). g i p) (zip ins txs)"
  by (induction ins txs ws rule: list_induct3) auto

text \<open>
  C1: An accepted transfer conserves value.  The outputs its inputs refer to sum
  up to its own outputs plus the fee, which is at least the minimal fee; its
  inputs are pairwise different, exist, have passed their time locks and carry an
  accepted witness for their address; every output has a positive amount.
\<close>

theorem verify_transfer_conserves:
  assumes "verify_transfer E t w info txs = Done (Ok f)"
    and "length txs = length (tx_inputs t)"
  shows "(\<Sum>(i, p) \<leftarrow> zip (tx_inputs t) txs. coin_val (out_value (spent_output i p))) =
      sum_list (map (coin_val \<circ> out_value) (tx_outputs t)) + coin_val (to_coin f) \<and>
    min_fee info \<le> coin_val (to_coin f) \<and> distinct (tx_inputs t) \<and>
    list_all (\<lambda>out. 0 < coin_val (out_value out)) (tx_outputs t) \<and>
    list_all (input_ok E (tx_id E t) info) (zip (tx_inputs t) (zip txs w))"
proof -
  from assms(1) obtain i out where ok: "check_inputs_basic (tx_inputs t) w = Ok ()"
      "check_outputs_basic (tx_outputs t) = Ok ()"
      "check_inputs E (tx_id E t) (tx_inputs t) w info txs = Ok i"
      "tx_get_output_total t = Ok out" "check_input_output_sums i out info = Done (Ok f)"
    by (auto simp: verify_transfer_Ok)
  have "length (tx_inputs t) = length txs" "length txs = length w"
    using ok(1) assms(2) by (simp_all add: check_inputs_basic_Ok)
  note ins = map_zip3_drop [OF this, of "\<lambda>i p. coin_val (out_value (spent_output i p))"]
  have "coin_val i = (\<Sum>(i, p) \<leftarrow> zip (tx_inputs t) txs. coin_val (out_value (spent_output i p)))"
    using ok(3) by (simp add: check_inputs_Ok ins)
  moreover have "coin_val out = sum_list (map (coin_val \<circ> out_value) (tx_outputs t))"
    using ok(4) by (simp add: tx_get_output_total_def sum_coins_eq_Ok)
  moreover have "coin_val i = coin_val out + coin_val (to_coin f)" "min_fee info \<le> coin_val (to_coin f)"
    using ok(5) by (simp_all add: check_sums_Ok)
  moreover have "list_all (input_ok E (tx_id E t) info) (zip (tx_inputs t) (zip txs w))"
    using ok(3) by (simp add: check_inputs_Ok)
  ultimately show ?thesis
    using ok(1,2) by (simp add: check_inputs_basic_Ok check_outputs_basic_Ok list_all_iff)
qed

text \<open>
  The witness a spender can make for any address from a key of their own: the path
  consists of the root alone.
\<close>

definition forged_witness :: "bytes \<Rightarrow> bytes \<Rightarrow> extended_addr \<Rightarrow> tx_in_witness" where
  "forged_witness sig pk a = (case a of OrTree root \<Rightarrow>
     TreeSig sig \<lparr>proof_path = \<lparr>leaf_hash = root, nodes = []\<rparr>, proof_value = pk\<rparr>)"

lemma forged_witness_ok:
  assumes "msg_from_slice E i = Some m" "pk_from_slice E pk = Some k" "schnorr_verify E m sig k"
  shows "verify_tx_address E (forged_witness sig pk a) i a = Ok ()"
  using assms by (cases a) (simp add: forged_witness_def verify_tx_address_def proof_verify_root_path)

lemma check_inputs_rewitness:
  assumes "check_inputs E i ins w info txs = Ok c" "length txs = length ins" "length w = length ins" "length w' = length ins"
    and "\<And>j. j < length ins \<Longrightarrow> verify_tx_address E (w' ! j) i (out_address (spent_output (ins ! j) (txs ! j))) = Ok ()"
  shows "check_inputs E i ins w' info txs = Ok c"
proof -
  let ?g = "\<lambda>i p. coin_val (out_value (spent_output i p))"
  have "map (\<lambda>(i, p, w). ?g i p) (zip ins (zip txs w')) = map (\<lambda>(i, p, w). ?g i p) (zip ins (zip txs w))"
    using map_zip3_drop [of ins txs w' ?g] map_zip3_drop [of ins txs w ?g] assms(2-4) by simp
  moreover have "list_all (input_ok E i info) (zip ins (zip txs w'))"
    using assms by (auto simp: check_inputs_Ok list_all_length input_ok_def)
  ultimately show ?thesis using assms(1) by (simp add: check_inputs_Ok)
qed

text \<open>
  C37: Any key can spend any output.  Suppose a transfer is accepted with witnesses of
  the owners of its inputs.  Then for every key and every signature of the
  transaction id that verifies under this key alone, the same transfer is accepted,
  with the same fee, with witnesses that all carry this key and this signature,
  whatever keys the addresses of the inputs commit to: the proof in a witness is
  not tied to the key it is said to prove.
\<close>

theorem transfer_accepted_with_any_key:
  assumes "verify_transfer E t w info txs = Done (Ok f)" "length txs = length (tx_inputs t)"
    and "msg_from_slice E (tx_id E t) = Some m" "pk_from_slice E pk = Some k" "schnorr_verify E m sig k"
  shows "\<exists>w'. verify_transfer E t w' info txs = Done (Ok f) \<and>
    list_all (\<lambda>x. case x of TreeSig s p \<Rightarrow> s = sig \<and> proof_value p = pk) w'"
proof -
  let ?a = "\<lambda>(i, p). out_address (spent_output i p)"
  let ?w = "map (\<lambda>x. forged_witness sig pk (?a x)) (zip (tx_inputs t) txs)"
  have len: "length w = length (tx_inputs t)" "length ?w = length (tx_inputs t)"
    using assms(1,2) by (auto simp: verify_transfer_Ok check_inputs_basic_Ok)
  have "verify_tx_address E (?w ! j) (tx_id E t) (out_address (spent_output (tx_inputs t ! j) (txs ! j))) = Ok ()"
    if "j < length (tx_inputs t)" for j
    using that assms(2) forged_witness_ok [OF assms(3-5)] by simp
  note again = check_inputs_rewitness [OF _ assms(2) len this]
  have "verify_transfer E t ?w info txs = Done (Ok f)"
    using assms(1) again len unfolding verify_transfer_Ok check_inputs_basic_Ok by metis
  moreover have "list_all (\<lambda>x. case x of TreeSig s p \<Rightarrow> s = sig \<and> proof_value p = pk) ?w"
    by (auto simp: list_all_iff forged_witness_def split: extended_addr.splits)
  ultimately show ?thesis by blast
qed

text \<open>
  The transfer check is total: whatever the transaction, the witnesses and the
  inputs are, it returns a fee or an error and never panics.
\<close>

theorem verify_transfer_no_panic: "\<exists>r. verify_transfer E t w info txs = Done r"
proof -
  have "\<exists>r. check_input_output_sums i out info = Done r"
    if "check_inputs E (tx_id E t) (tx_inputs t) w info txs = Ok i" for i out
    using that by (intro check_sums_no_panic) (simp add: check_inputs_Ok valid_coin_iff)
  then show ?thesis
    by (cases "check_attributes (chain_hex_id (tx_attrs t)) info"; cases "check_inputs_basic (tx_inputs t) w";
        cases "check_outputs_basic (tx_outputs t)"; cases "tx_get_output_total t";
        cases "check_inputs E (tx_id E t) (tx_inputs t) w info txs")
      (simp_all add: verify_transfer_def)
qed

text \<open>
  An accepted deposit moves everything the inputs hold, minus the minimal fee,
  into the bonded stake: of the existing account, which must not be jailed and
  whose nonce advances, or of a new account at the target address.  It cannot
  panic while the account and the inputs together stay within the supply.
\<close>

theorem verify_bonded_deposit_spec:
  assumes "verify_bonded_deposit_core E t w info txs = Ok c"
    and "case maccount of None \<Rightarrow> True | Some a \<Rightarrow> \<not> is_jailed a \<and> account_total a + coin_val c \<le> max_supply"
  shows "\<exists>s. verify_bonded_deposit E t w info txs maccount = Done (Ok (min_fee_computed info, Some s)) \<and>
    account_total s + min_fee info =
      (case maccount of None \<Rightarrow> 0 | Some a \<Rightarrow> account_total a) +
      (\<Sum>(i, p, wi) \<leftarrow> zip (dep_inputs t) (zip txs w). coin_val (out_value (spent_output i p))) \<and>
    (case maccount of None \<Rightarrow> ss_address s = to_staked_account t \<and> unbonded s = coin_zero \<and> nonce s = 0
     | Some a \<Rightarrow> ss_address s = ss_address a \<and> unbonded s = unbonded a \<and> nonce s = nonce a + 1)"
proof -
  let ?m = "to_coin (min_fee_computed info)"
  from assms(1) have c: "coin_val ?m < coin_val c" "valid_coin c"
      "coin_val c = (\<Sum>(i, p, wi) \<leftarrow> zip (dep_inputs t) (zip txs w). coin_val (out_value (spent_output i p)))"
    by (simp_all add: verify_bonded_deposit_core_Ok check_inputs_Ok valid_coin_iff)
  then obtain d where d: "coin_sub c ?m = Ok d" using coin_sub_total [of c ?m] by auto
  then have dv: "coin_val c = coin_val d + coin_val ?m" by (simp add: coin_sub_eq_Ok)
  show ?thesis
  proof (cases maccount)
    case None
    with assms(1) d dv c(3) show ?thesis
      by (simp add: verify_bonded_deposit_def new_init_bonded_def account_total_def)
  next
    case (Some a)
    with assms(2) have a: "\<not> is_jailed a" "account_total a + coin_val c \<le> max_supply" by simp_all
    then obtain b where b: "coin_add (bonded a) d = Ok b"
      using coin_add_total [of "bonded a" d] dv by (auto simp: account_total_def)
    then have "deposit d a = Done (a\<lparr>nonce := nonce a + 1, bonded := b\<rparr>)" by (simp add: deposit_def)
    moreover have "coin_val b = coin_val (bonded a) + coin_val d" using b by (simp add: coin_add_eq_Ok)
    ultimately show ?thesis
      using assms(1) Some d dv c(3) a(1)
      by (simp add: verify_bonded_deposit_def verify_unjailed_def account_total_def)
  qed
qed

text \<open>
  Unbonding never panics on an account within the supply, and an accepted
  unbonding moves exactly the requested value from bonded to unbonded, takes the
  minimal fee from bonded and sets the release time.
\<close>

theorem verify_unbonding_spec:
  assumes "valid_account s"
  shows "(\<exists>r. verify_unbonding t info s = Done r) \<and>
    (\<forall>f s'. verify_unbonding t info s = Done (Ok (f, Some s')) \<longrightarrow>
       coin_val (bonded s) = coin_val (bonded s') + coin_val (unbond_value t) + min_fee info \<and>
       coin_val (unbonded s') = coin_val (unbonded s) + coin_val (unbond_value t) \<and>
       unbonded_from s' = previous_block_time info + ucast (info_unbonding_period info) \<and>
       f = min_fee_computed info)"
proof
  have "\<exists>r. unbond (unbond_value t) (to_coin (min_fee_computed info)) rel s = Done r"
    if "check_input_output_sums (bonded s) (unbond_value t) info = Done (Ok f)" for f and rel :: timespec
  proof -
    from that have b: "coin_val (bonded s) = coin_val (unbond_value t) + coin_val (to_coin f)"
      "min_fee info \<le> coin_val (to_coin f)" by (simp_all add: check_sums_Ok)
    obtain x where x: "coin_sub (bonded s) (unbond_value t) = Ok x"
      using coin_sub_total [OF valid_account_coins(1) [OF assms], of "unbond_value t"] b by auto
    obtain y where y: "coin_sub x (to_coin (min_fee_computed info)) = Ok y"
      using coin_sub_total [of x "to_coin (min_fee_computed info)"] b x valid_coin_sub [OF x]
      by (auto simp: coin_sub_eq_Ok)
    obtain u where u: "coin_add (unbonded s) (unbond_value t) = Ok u"
      using coin_add_total [of "unbonded s" "unbond_value t"] b assms
      by (auto simp: valid_account_def account_total_def)
    show ?thesis using x y u by (auto simp: unbond_def)
  qed
  note unbond_ok = this [of _ "previous_block_time info + ucast (info_unbonding_period info)"]
  obtain r where "check_input_output_sums (bonded s) (unbond_value t) info = Done r"
    using check_sums_no_panic [OF valid_account_coins(1) [OF assms]] by blast
  then show "\<exists>r. verify_unbonding t info s = Done r"
    using unbond_ok
    by (cases "verify_unjailed s"; cases "check_attributes (unbond_chain_hex_id t) info"; cases r)
      (auto simp: verify_unbonding_def)
  show "\<forall>f s'. verify_unbonding t info s = Done (Ok (f, Some s')) \<longrightarrow>
       coin_val (bonded s) = coin_val (bonded s') + coin_val (unbond_value t) + min_fee info \<and>
       coin_val (unbonded s') = coin_val (unbonded s) + coin_val (unbond_value t) \<and>
       unbonded_from s' = previous_block_time info + ucast (info_unbonding_period info) \<and>
       f = min_fee_computed info"
    by (auto simp: verify_unbonding_Ok unbond_Done coin_val_simps)
qed

text \<open>
  C32: A withdrawal is accepted exactly when its account is free of punishment, the
  chain id and the nonce match, the release time has passed, there is something
  to withdraw, every output is positive and locked to the release time, and the
  outputs leave at least the minimal fee of the unbonded balance; then the whole
  balance is withdrawn and what the outputs do not take is the fee.
\<close>

theorem verify_unbonded_withdraw_iff:
  "verify_unbonded_withdraw t info s = Done (Ok (f, r)) \<longleftrightarrow>
     punishment s = None \<and> info_chain_hex_id info = chain_hex_id (wd_attributes t) \<and>
     wd_nonce t = nonce s \<and> unbonded_from s \<le> previous_block_time info \<and> 0 < coin_val (unbonded s) \<and>
     wd_outputs t \<noteq> [] \<and>
     list_all (\<lambda>x. 0 < coin_val (out_value x) \<and> valid_from x = Some (unbonded_from s)) (wd_outputs t) \<and>
     coin_val (unbonded s) = sum_list (map (coin_val \<circ> out_value) (wd_outputs t)) + coin_val (to_coin f) \<and>
     min_fee info \<le> coin_val (to_coin f) \<and> valid_coin (to_coin f) \<and>
     sum_list (map (coin_val \<circ> out_value) (wd_outputs t)) + min_fee info \<le> max_supply \<and>
     r = Some (withdraw s)"
proof -
  let ?S = "sum_list (map (coin_val \<circ> out_value) (wd_outputs t))"
  have tot: "wd_get_output_total t = Ok c \<longleftrightarrow> coin_val c = ?S \<and> ?S \<le> max_supply" for c
    by (simp add: wd_get_output_total_def sum_coins_eq_Ok)
  have "(\<exists>c. wd_get_output_total t = Ok c \<and> check_input_output_sums (unbonded s) c info = Done (Ok f)) \<longleftrightarrow>
      coin_val (unbonded s) = ?S + coin_val (to_coin f) \<and>
      min_fee info \<le> coin_val (to_coin f) \<and> valid_coin (to_coin f) \<and> ?S + min_fee info \<le> max_supply"
    (is "?L \<longleftrightarrow> ?R")
  proof
    assume ?R
    then obtain c where "wd_get_output_total t = Ok c"
      using sum_coins_total [of "map out_value (wd_outputs t)"] by (auto simp: wd_get_output_total_def)
    with \<open>?R\<close> show ?L by (auto simp: check_sums_Ok tot)
  qed (auto simp: tot check_sums_Ok)
  then show ?thesis
    by (auto simp: verify_unbonded_withdraw_def try_run_eq_Ok verify_unbonded_withdraw_core_Ok
        check_outputs_basic_Ok is_jailed_def list_all_iff coin_eq_iff)
qed

text \<open>
  C7: No accepted transaction on a staking account (unbonding, withdrawal, unjailing,
  joining as a node) is accepted a second time on the account it produced,
  whatever the chain context is by then.
\<close>

theorem staking_txs_no_replay:
  "(verify_unbonding tu i s = Done (Ok (f, Some s')) \<longrightarrow> verify_unbonding tu i' s' \<noteq> Done (Ok x)) \<and>
   (verify_unbonded_withdraw tw i s = Done (Ok (f, Some s')) \<longrightarrow> verify_unbonded_withdraw tw i' s' \<noteq> Done (Ok x)) \<and>
   (verify_unjailing tj i s = Done (Ok (f, Some s')) \<longrightarrow> verify_unjailing tj i' s' \<noteq> Done (Ok x)) \<and>
   (verify_node_join E tn i ni s = Done (Ok (f, Some s')) \<longrightarrow> verify_node_join E tn i' ni' s' \<noteq> Done (Ok x))"
  using joining.no_replay [of E tn "(i, ni)" s f s' "(i', ni')" x]
  by (auto dest: unbonding.no_replay withdrawal.no_replay unjailing.no_replay)

text \<open>
  C21: Jailed accounts are shut out: deposits to them, unbonding, withdrawing and
  joining fail with \<open>AccountJailed\<close> whatever else holds; and an unjail transaction
  is accepted only once the jail time is over, which clears the punishment.
\<close>

theorem jailed_account_locked:
  assumes "is_jailed s"
  shows "verify_bonded_deposit E td w info txs (Some s) = Done (Err AccountJailed) \<and>
    verify_unbonding tu info s = Done (Err AccountJailed) \<and>
    verify_unbonded_withdraw tw info s = Done (Err AccountJailed) \<and>
    verify_node_join E tn info ni s = Done (Err AccountJailed) \<and>
    (\<forall>f s'. verify_unjailing tj info s = Done (Ok (f, Some s')) \<longrightarrow>
       (\<exists>u. jailed_until s = Some u \<and> u \<le> previous_block_time info) \<and> \<not> is_jailed s')"
  using assms
  by (auto simp: verify_bonded_deposit_def verify_unbonding_def verify_unbonded_withdraw_def
      verify_unbonded_withdraw_core_def verify_node_join_def verify_unjailed_def verify_unjailing_Ok
      unjail_def is_jailed_def)

section \<open>Concrete instances\<close>

definition sample_ext :: ext where
  "sample_ext = \<lparr>blake2s = sample_hash, sha256 = sample_hash, keccak256 = sample_hash,
     enc_tx = \<lambda>t. [of_nat (length (tx_inputs t))], enc_deposit = \<lambda>t. [7],
     enc_unbond = \<lambda>t. [8], enc_withdraw = \<lambda>t. [9], enc_unjail = \<lambda>t. [10], enc_node_join = \<lambda>t. [11],
     msg_from_slice = Some, pk_from_slice = Some, schnorr_verify = \<lambda>m s k. s = k,
     ecdsa_recover = \<lambda>m s. Some s, ecdsa_verify = \<lambda>m s k. True, pk_uncompressed = \<lambda>k. 4 # k\<rparr>"

definition sample_info :: chain_info where
  "sample_info = \<lparr>min_fee_computed = Fee (Coin 2), info_chain_hex_id = 1, previous_block_time = 100,
     info_unbonding_period = 60\<rparr>"

definition sample_account :: staked_state where
  "sample_account = staked_new 5 (Coin 50) (Coin 20) 90 (BasicRedeem [1]) None"

definition sample_prev_tx :: tx where
  "sample_prev_tx = \<lparr>tx_inputs = [], tx_outputs = [\<lparr>out_address = OrTree [3], out_value = Coin 10, valid_from = Some 80\<rparr>],
     tx_attrs = \<lparr>chain_hex_id = 1, allowed_view = []\<rparr>\<rparr>"

definition sample_tx :: tx where
  "sample_tx = \<lparr>tx_inputs = [\<lparr>txo_id = tx_id sample_ext sample_prev_tx, txo_index = 0\<rparr>],
     tx_outputs = [\<lparr>out_address = OrTree [4], out_value = Coin 7, valid_from = None\<rparr>],
     tx_attrs = \<lparr>chain_hex_id = 1, allowed_view = []\<rparr>\<rparr>"

definition sample_in_witness :: tx_in_witness where
  "sample_in_witness = TreeSig [5] \<lparr>proof_path = \<lparr>leaf_hash = [3], nodes = []\<rparr>, proof_value = [5]\<rparr>"

definition sample_deposit :: deposit_bond_tx where
  "sample_deposit = \<lparr>dep_inputs = [\<lparr>txo_id = tx_id sample_ext sample_prev_tx, txo_index = 0\<rparr>],
     to_staked_account = BasicRedeem [1], dep_chain_hex_id = 1\<rparr>"

definition sample_unbond :: unbond_tx where
  "sample_unbond = \<lparr>from_staked_account = BasicRedeem [1], unbond_nonce = 5, unbond_value = Coin 30,
     unbond_chain_hex_id = 1\<rparr>"

definition sample_withdraw :: withdraw_unbonded_tx where
  "sample_withdraw = \<lparr>wd_nonce = 5, wd_outputs = [\<lparr>out_address = OrTree [4], out_value = Coin 17, valid_from = Some 90\<rparr>],
     wd_attributes = \<lparr>chain_hex_id = 1, allowed_view = []\<rparr>\<rparr>"

lemmas sample_defs = sample_ext_def sample_info_def sample_account_def sample_prev_tx_def sample_tx_def
  sample_in_witness_def sample_deposit_def sample_unbond_def sample_withdraw_def staked_new_def
  tx_id_def txid_hash_def deposit_id_def

lemma sample_address_ok:
  "verify_tx_address sample_ext sample_in_witness i (OrTree [3]) = Ok ()"
  by (simp add: verify_tx_address_def sample_in_witness_def proof_verify_root_path) (simp add: sample_ext_def)

lemma sample_coin_ops [simp]:
  "coin_add coin_zero (Coin 10) = Ok (Coin 10)" "coin_sub (Coin 10) (Coin 7) = Ok (Coin 3)"
  "coin_add (Coin 7) (Coin 2) = Ok (Coin 9)"
  by (simp_all add: coin_add_eq_Ok coin_sub_eq_Ok)

lemma sample_check_inputs:
  "check_inputs sample_ext i (tx_inputs sample_tx) [sample_in_witness] sample_info [Transfer sample_prev_tx] = Ok (Coin 10)"
  by (simp add: check_inputs_Ok input_ok_def spent_output_def sample_tx_def, intro conjI)
    (simp_all add: sample_prev_tx_def sample_info_def sample_address_ok)

lemma sample_transfer_ok:
  "verify_transfer sample_ext sample_tx [sample_in_witness] sample_info [Transfer sample_prev_tx] = Done (Ok (Fee (Coin 3)))"
proof -
  have "tx_get_output_total sample_tx = Ok (Coin 7)"
    by (simp add: tx_get_output_total_def sum_coins_eq_Ok sample_tx_def)
  moreover have "check_input_output_sums (Coin 10) (Coin 7) sample_info = Done (Ok (Fee (Coin 3)))"
    by (simp add: check_sums_Ok sample_info_def valid_coin_iff)
  moreover have "check_inputs_basic (tx_inputs sample_tx) [sample_in_witness] = Ok ()"
      "check_outputs_basic (tx_outputs sample_tx) = Ok ()"
      "info_chain_hex_id sample_info = chain_hex_id (tx_attrs sample_tx)"
    by (simp_all add: check_inputs_basic_Ok check_outputs_basic_Ok sample_tx_def sample_info_def)
  ultimately show ?thesis using sample_check_inputs by (auto simp: verify_transfer_Ok)
qed

theorem verify_transfer_conserves_witness:
  "verify_transfer sample_ext sample_tx [sample_in_witness] sample_info [Transfer sample_prev_tx] = Done (Ok (Fee (Coin 3))) \<and>
   min_fee sample_info \<le> coin_val (Coin 3)"
  using verify_transfer_conserves [OF sample_transfer_ok] sample_transfer_ok by (simp add: sample_tx_def)

text \<open>The key of the sample witness replaced by another one.\<close>

theorem transfer_accepted_with_any_key_witness:
  "\<exists>w'. verify_transfer sample_ext sample_tx w' sample_info [Transfer sample_prev_tx] = Done (Ok (Fee (Coin 3))) \<and>
     list_all (\<lambda>x. case x of TreeSig s p \<Rightarrow> s = [6] \<and> proof_value p = [6]) w'"
proof -
  have "length [Transfer sample_prev_tx] = length (tx_inputs sample_tx)" by (simp add: sample_tx_def)
  moreover have "msg_from_slice sample_ext i = Some i" "pk_from_slice sample_ext [6] = Some [6]"
      "schnorr_verify sample_ext i [6] [6]" for i
    by (simp_all add: sample_ext_def)
  ultimately show ?thesis by (rule transfer_accepted_with_any_key [OF sample_transfer_ok])
qed

lemma sample_deposit_core_ok:
  "verify_bonded_deposit_core sample_ext sample_deposit [sample_in_witness] sample_info [Transfer sample_prev_tx] = Ok (Coin 10)"
  using sample_check_inputs [of "deposit_id sample_ext sample_deposit"]
  by (simp add: verify_bonded_deposit_core_Ok check_inputs_basic_Ok)
    (simp add: sample_deposit_def sample_tx_def sample_info_def)

theorem verify_bonded_deposit_spec_witness:
  "\<exists>s. verify_bonded_deposit sample_ext sample_deposit [sample_in_witness] sample_info [Transfer sample_prev_tx]
     (Some sample_account) = Done (Ok (min_fee_computed sample_info, Some s)) \<and> nonce s = nonce sample_account + 1"
  using verify_bonded_deposit_spec [OF sample_deposit_core_ok, of "Some sample_account"]
  by (auto simp: sample_account_def staked_new_def is_jailed_def account_total_def)

lemma sample_unbond_ok:
  "\<exists>s'. verify_unbonding sample_unbond sample_info sample_account = Done (Ok (Fee (Coin 2), Some s'))"
proof -
  have "coin_sub (Coin 50) (Coin 30) = Ok (Coin 20)" "coin_sub (Coin 20) (Coin 2) = Ok (Coin 18)"
      "coin_add (Coin 20) (Coin 30) = Ok (Coin 50)"
    by (simp_all add: coin_sub_eq_Ok coin_add_eq_Ok)
  moreover have "check_input_output_sums (Coin 50) (Coin 30) sample_info = Done (Ok (Fee (Coin 20)))"
    by (simp add: check_sums_Ok sample_info_def valid_coin_iff)
  ultimately show ?thesis
    by (auto simp: verify_unbonding_Ok sample_unbond_def sample_account_def staked_new_def is_jailed_def
        coin_zero_def unbond_Done) (auto simp: sample_info_def)
qed

theorem verify_unbonding_spec_witness:
  "\<exists>s'. verify_unbonding sample_unbond sample_info sample_account = Done (Ok (Fee (Coin 2), Some s')) \<and>
     coin_val (unbonded s') = 50"
proof -
  obtain s' where s': "verify_unbonding sample_unbond sample_info sample_account = Done (Ok (Fee (Coin 2), Some s'))"
    using sample_unbond_ok by blast
  have "valid_account sample_account"
    by (simp add: valid_account_def account_total_def sample_account_def staked_new_def)
  from verify_unbonding_spec [OF this, of sample_unbond sample_info] s'
  have "coin_val (unbonded s') = coin_val (unbonded sample_account) + coin_val (unbond_value sample_unbond)"
    by simp
  with s' show ?thesis by (simp add: sample_account_def staked_new_def sample_unbond_def)
qed

theorem staking_txs_no_replay_witness:
  "\<exists>s'. verify_unbonding sample_unbond sample_info sample_account = Done (Ok (Fee (Coin 2), Some s')) \<and>
     verify_unbonding sample_unbond sample_info s' \<noteq> Done (Ok (Fee (Coin 2), Some s'))"
  using sample_unbond_ok staking_txs_no_replay by meson

theorem jailed_account_locked_witness:
  "verify_unbonding sample_unbond sample_info (jail_until 500 NonLive sample_account) = Done (Err AccountJailed)"
  using jailed_account_locked [of "jail_until 500 NonLive sample_account"]
  by (simp add: is_jailed_def jail_until_def)

end
