(* ===== verification/Genesis_Config.thy ===== *)
theory Genesis_Config
  imports Tx_Types
begin

text \<open>
  The genesis configuration of chain-core/src/init/config.rs: the checks on the
  initial distribution and the initial validators, and the accounts, rewards pool
  and validators a valid configuration yields.
\<close>

datatype staked_destination = Bonded | UnbondedFromGenesis | UnbondedFromCustomTime timespec

datatype distribution_error =
    DistributionCoinError coin_error
  | DoesNotMatchMaxSupply coin
  | AddressNotInDistribution bytes
  | DoesNotMatchRequiredAmount bytes coin
  | InvalidValidatorKey
  | DuplicateValidatorKey
  | InvalidValidatorAccount
  | NoValidators
  | InvalidVotingPower
  | InvalidPunishmentConfiguration
  | InvalidRewardsParamter string

record init_config =
  distribution :: "(bytes, staked_destination \<times> coin) btm"
  ic_network_params :: network_parameters
  council_nodes :: "(bytes, string \<times> string option \<times> tm_pubkey) btm"

record rewards_pool_state =
  period_bonus :: coin
  rp_last_block_height :: block_height
  last_distribution_time :: timespec
  minted :: coin
  tau :: u64

type_synonym genesis_state =
  "staked_state list \<times> rewards_pool_state \<times> (staked_address \<times> council_node) list"

definition rewards_pool_new :: "timespec \<Rightarrow> u64 \<Rightarrow> rewards_pool_state" where
  "rewards_pool_new genesis_time t = \<lparr>period_bonus = coin_zero, rp_last_block_height = 0,
     last_distribution_time = genesis_time, minted = coin_zero, tau = t\<rparr>"

definition check_validator_address :: "init_config \<Rightarrow> bytes \<Rightarrow> distribution_error + unit" where
  "check_validator_address c address =
     (let expected = required_council_node_stake (ic_network_params c) in
      case bm_get (distribution c) address of
        Some (d, amount) \<Rightarrow>
          if d = Bonded \<and> amount \<ge> expected then Ok () else Err (DoesNotMatchRequiredAmount address amount)
      | None \<Rightarrow> Err (AddressNotInDistribution address))"

definition get_council_node :: "init_config \<Rightarrow> bytes \<Rightarrow> distribution_error + council_node" where
  "get_council_node c address =
     and_then (check_validator_address c address) (\<lambda>_.
     and_then (ok_or (bm_get (council_nodes c) address) InvalidValidatorAccount) (\<lambda>(name, contact, pubkey).
     Ok \<lparr>node_name = name, security_contact = contact, consensus_pubkey = pubkey\<rparr>))"

definition genesis_account :: "init_config \<Rightarrow> timespec \<Rightarrow> bytes \<times> staked_destination \<times> coin \<Rightarrow> staked_state" where
  "genesis_account c genesis_time e = (case e of (address, destination, amount) \<Rightarrow>
     (case destination of
        Bonded \<Rightarrow> new_init_bonded amount genesis_time (BasicRedeem address)
          (case get_council_node c address of Inl e \<Rightarrow> None | Inr n \<Rightarrow> Some n)
      | UnbondedFromGenesis \<Rightarrow> new_init_unbonded amount genesis_time (BasicRedeem address)
      | UnbondedFromCustomTime time \<Rightarrow> new_init_unbonded amount time (BasicRedeem address)))"

definition init_get_account :: "init_config \<Rightarrow> timespec \<Rightarrow> staked_state list" where
  "init_get_account c genesis_time = map (genesis_account c genesis_time) (distribution c)"

definition genesis_validators :: "init_config \<Rightarrow> distribution_error + (staked_address \<times> council_node) list" where
  "genesis_validators c = collect_results (map (\<lambda>address.
     and_then (get_council_node c address) (\<lambda>n. Ok (BasicRedeem address, n))) (map fst (council_nodes c)))"

definition check_total :: "init_config \<Rightarrow> distribution_error + unit" where
  "check_total c = (case sum_coins (map (\<lambda>(_, _, amount). amount) (distribution c)) of
     Inl e \<Rightarrow> Err (DistributionCoinError e)
   | Inr s \<Rightarrow> (case coin_add s (monetary_expansion_cap (rewards_config (ic_network_params c))) of
       Inl e \<Rightarrow> Err (DistributionCoinError e)
     | Inr total_sum \<Rightarrow>
         if total_sum \<noteq> coin_max then Err (DoesNotMatchMaxSupply total_sum) else Ok ()))"

definition validate_config_get_genesis :: "init_config \<Rightarrow> timespec \<Rightarrow> (distribution_error + genesis_state) run" where
  "validate_config_get_genesis c genesis_time =
     (let np = ic_network_params c; n = length (council_nodes c) in
      try_run (Done (map_err InvalidRewardsParamter (rewards_validate (rewards_config np)))) (\<lambda>_.
      if council_nodes c = [] then Done (Err NoValidators)
      else if card (set (map (\<lambda>(_, _, _, pubkey). pubkey) (council_nodes c))) \<noteq> n
        then Done (Err DuplicateValidatorKey)
      else (let validators = genesis_validators c in
        try_run (case coin_new (coin_u64 (required_council_node_stake np) * of_nat n) of
            Inl e \<Rightarrow> Done (Err InvalidVotingPower)
          | Inr p \<Rightarrow> run_bind (vote_power_of_coin p) (\<lambda>_. Done (Ok ()))) (\<lambda>_.
        try_run (Done (check_total c)) (\<lambda>_.
        if sp_slash_wait_period (slashing_config np) \<ge> jp_jail_duration (jailing_config np)
        then Done (Err InvalidPunishmentConfiguration)
        else try_run (Done validators) (\<lambda>vs.
          Done (Ok (init_get_account c genesis_time,
            rewards_pool_new genesis_time (monetary_expansion_tau (rewards_config np)), vs))))))))"

section \<open>Lemmas\<close>

lemma genesis_account_total:
  "account_total (genesis_account c t (a, d, amount)) = coin_val amount"
  by (cases d) (simp_all add: genesis_account_def new_init_bonded_def new_init_unbonded_def account_total_def)

lemma genesis_account_address: "ss_address (genesis_account c t e) = BasicRedeem (fst e)"
  by (cases e; cases "fst (snd e)")
    (auto simp: genesis_account_def new_init_bonded_def new_init_unbonded_def)

lemma check_total_Ok:
  "check_total c = Ok () \<longleftrightarrow>
     (\<Sum>(_, _, amount) \<leftarrow> distribution c. coin_val amount) +
       coin_val (monetary_expansion_cap (rewards_config (ic_network_params c))) = max_supply"
proof -
  let ?S = "\<Sum>(_, _, amount) \<leftarrow> distribution c. coin_val amount"
  have m: "map coin_val (map (\<lambda>(_, _, amount). amount) (distribution c)) =
      map (\<lambda>(_, _, amount). coin_val amount) (distribution c)" by auto
  show ?thesis
  proof (cases "sum_coins (map (\<lambda>(_, _, amount). amount) (distribution c))")
    case (Inl e)
    then have "max_supply < ?S" using sum_coins_Err m by metis
    with Inl show ?thesis by (simp add: check_total_def)
  next
    case (Inr s)
    then have s: "coin_val s = ?S" unfolding sum_coins_eq_Ok m by simp
    show ?thesis
    proof (cases "coin_add s (monetary_expansion_cap (rewards_config (ic_network_params c)))")
      case (Inl e)
      then have "max_supply < coin_val s + coin_val (monetary_expansion_cap (rewards_config (ic_network_params c)))"
        using coin_add_is_Err by blast
      with Inr Inl s show ?thesis by (simp add: check_total_def)
    next
      case (Inr t)
      then have "coin_val t = coin_val s + coin_val (monetary_expansion_cap (rewards_config (ic_network_params c)))"
        by (simp add: coin_add_eq_Ok)
      with \<open>sum_coins _ = Ok s\<close> Inr s show ?thesis by (auto simp: check_total_def coin_eq_iff)
    qed
  qed
qed

lemma get_council_node_Ok:
  "get_council_node c a = Ok n \<longleftrightarrow>
     (\<exists>amount. bm_get (distribution c) a = Some (Bonded, amount) \<and>
        required_council_node_stake (ic_network_params c) \<le> amount) \<and>
     bm_get (council_nodes c) a = Some (node_name n, security_contact n, consensus_pubkey n)"
  by (cases n) (auto simp: get_council_node_def check_validator_address_def Let_def and_then_eq_Ok
      ok_or_eq_Ok split: option.splits if_splits)

lemma validate_config_Ok:
  "validate_config_get_genesis c t = Done (Ok (accs, pool, vs)) \<Longrightarrow>
     rewards_validate (rewards_config (ic_network_params c)) = Ok () \<and> council_nodes c \<noteq> [] \<and>
     distinct (map (\<lambda>(_, _, _, pubkey). pubkey) (council_nodes c)) \<and>
     check_total c = Ok () \<and> genesis_validators c = Ok vs \<and> accs = init_get_account c t \<and>
     pool = rewards_pool_new t (monetary_expansion_tau (rewards_config (ic_network_params c))) \<and>
     sp_slash_wait_period (slashing_config (ic_network_params c)) <
       jp_jail_duration (jailing_config (ic_network_params c))"
  by (cases "rewards_validate (rewards_config (ic_network_params c))")
    (auto simp: validate_config_get_genesis_def Let_def try_run_eq_Ok not_le distinct_card card_distinct
      split: if_splits sum.splits)

section \<open>Properties\<close>

text \<open>
  C13: A valid genesis configuration issues the whole supply: the balances of the
  initial accounts and the cap of the monetary expansion add up to the maximal
  supply, with one account per address of the distribution, and the rewards pool
  starts empty.
\<close>

theorem genesis_issues_max_supply:
  assumes "validate_config_get_genesis c t = Done (Ok (accs, pool, vs))"
  shows "sum_list (map account_total accs) +
      coin_val (monetary_expansion_cap (rewards_config (ic_network_params c))) = max_supply \<and>
    map ss_address accs = map (BasicRedeem \<circ> fst) (distribution c) \<and>
    period_bonus pool = coin_zero \<and> minted pool = coin_zero"
proof -
  note ok = validate_config_Ok [OF assms]
  have "map account_total accs = map (\<lambda>(_, _, amount). coin_val amount) (distribution c)"
    using ok by (auto simp: init_get_account_def genesis_account_total)
  moreover have "map ss_address accs = map (BasicRedeem \<circ> fst) (distribution c)"
    using ok by (auto simp: init_get_account_def genesis_account_address)
  ultimately show ?thesis using ok by (simp add: check_total_Ok rewards_pool_new_def)
qed

text \<open>
  The validators of a valid genesis configuration are its council nodes in
  address order, with pairwise different consensus keys; each has an account that
  is bonded with at least the required stake; the waiting time before slashing is
  shorter than the jail time and the expansion parameters are in range.
\<close>

theorem genesis_validators_staked:
  assumes "validate_config_get_genesis c t = Done (Ok (accs, pool, vs))" "bm_wf (council_nodes c)"
  shows "map fst vs = map (BasicRedeem \<circ> fst) (council_nodes c) \<and> vs \<noteq> [] \<and>
    distinct (map (consensus_pubkey \<circ> snd) vs) \<and>
    list_all (\<lambda>(a, n). \<exists>acc \<in> set accs. ss_address acc = a \<and> council_node acc = Some n \<and>
       required_council_node_stake (ic_network_params c) \<le> bonded acc \<and> \<not> is_jailed acc) vs \<and>
    sp_slash_wait_period (slashing_config (ic_network_params c)) <
      jp_jail_duration (jailing_config (ic_network_params c)) \<and>
    tau pool \<noteq> 0 \<and> unat (monetary_expansion_decay (rewards_config (ic_network_params c))) \<le> 1000000"
proof -
  note ok = validate_config_Ok [OF assms(1)]
  have "list_all2 (\<lambda>a y. and_then (get_council_node c a) (\<lambda>n. Ok (BasicRedeem a, n)) = Ok y)
      (map fst (council_nodes c)) vs"
    using ok by (simp add: genesis_validators_def collect_results_Ok del: map_map)
  then have rel: "list_all2 (\<lambda>a y. fst y = BasicRedeem a \<and> get_council_node c a = Ok (snd y))
      (map fst (council_nodes c)) vs"
    by (rule list_all2_mono) (auto simp: and_then_eq_Ok)
  then have len: "length vs = length (council_nodes c)" by (auto dest: list_all2_lengthD)
  have nth: "fst (vs ! i) = BasicRedeem (fst (council_nodes c ! i))"
      "get_council_node c (fst (council_nodes c ! i)) = Ok (snd (vs ! i))" if "i < length vs" for i
    using rel that len by (auto simp: list_all2_conv_all_nth)
  then have fsts: "map fst vs = map (BasicRedeem \<circ> fst) (council_nodes c)"
    using len by (auto simp: list_eq_iff_nth_eq)
  have "map (consensus_pubkey \<circ> snd) vs = map (\<lambda>(_, _, _, pubkey). pubkey) (council_nodes c)"
  proof (rule nth_equalityI)
    fix i
    assume "i < length (map (consensus_pubkey \<circ> snd) vs)"
    then have i: "i < length vs" by simp
    obtain a d where e: "council_nodes c ! i = (a, d)" by (cases "council_nodes c ! i")
    with i len have "bm_get (council_nodes c) a = Some d"
      using bm_entries_get [OF assms(2), of a d] nth_mem [of i "council_nodes c"] by simp
    with nth(2) [OF i] e have "d = (node_name (snd (vs ! i)), security_contact (snd (vs ! i)),
        consensus_pubkey (snd (vs ! i)))" by (simp add: get_council_node_Ok)
    with i len e show "map (consensus_pubkey \<circ> snd) vs ! i = map (\<lambda>(_, _, _, pubkey). pubkey) (council_nodes c) ! i"
      by simp
  qed (simp add: len)
  with ok have dist: "distinct (map (consensus_pubkey \<circ> snd) vs)" by simp
  have "\<exists>acc \<in> set accs. ss_address acc = a \<and> council_node acc = Some n \<and>
       required_council_node_stake (ic_network_params c) \<le> bonded acc \<and> \<not> is_jailed acc"
    if "(a, n) \<in> set vs" for a n
  proof -
    from that obtain i where i: "i < length vs" "vs ! i = (a, n)" by (auto simp: in_set_conv_nth)
    define b where "b = fst (council_nodes c ! i)"
    have b: "a = BasicRedeem b" "get_council_node c b = Ok n" using nth [OF i(1)] i(2) by (simp_all add: b_def)
    then obtain amount where am: "bm_get (distribution c) b = Some (Bonded, amount)"
        "required_council_node_stake (ic_network_params c) \<le> amount"
      by (auto simp: get_council_node_Ok)
    then have "(b, Bonded, amount) \<in> set (distribution c)" by (simp add: bm_get_def map_of_SomeD)
    then have "genesis_account c t (b, Bonded, amount) \<in> set accs"
      using ok by (auto simp: init_get_account_def)
    with b am(2) show ?thesis
      by (intro bexI [of _ "genesis_account c t (b, Bonded, amount)"])
        (auto simp: genesis_account_def new_init_bonded_def is_jailed_def)
  qed
  moreover have "tau pool \<noteq> 0" "unat (monetary_expansion_decay (rewards_config (ic_network_params c))) \<le> 1000000"
    using ok by (auto simp: rewards_pool_new_def rewards_validate_def word_less_nat_alt split: if_splits)
  moreover have "vs \<noteq> []" using ok len by auto
  ultimately show ?thesis using fsts dist ok by (auto simp: list_all_iff)
qed

definition sample_network_params :: network_parameters where
  "sample_network_params = \<lparr>initial_fee_policy = \<lparr>fee_constant = Milli 1100, fee_coefficient = Milli 1250\<rparr>,
     required_council_node_stake = Coin 500000000, unbonding_period = 60,
     jailing_config = \<lparr>jp_jail_duration = 100, jp_block_signing_window = 5, jp_missed_block_threshold = 2\<rparr>,
     slashing_config = \<lparr>sp_liveness_slash_percent = SlashRatio (Milli 100),
       sp_byzantine_slash_percent = SlashRatio (Milli 200), sp_slash_wait_period = 30\<rparr>,
     rewards_config = \<lparr>monetary_expansion_cap = Coin 1000000000000000000, distribution_period = 10,
       monetary_expansion_r0 = Milli 500, monetary_expansion_tau = 145000000000000000,
       monetary_expansion_decay = 999860\<rparr>,
     max_validators = 2\<rparr>"

definition sample_config :: init_config where
  "sample_config = \<lparr>distribution = [([1], Bonded, Coin 4000000000000000000),
       ([2], UnbondedFromGenesis, Coin 5000000000000000000)],
     ic_network_params = sample_network_params,
     council_nodes = [([1], ''a'', None, Ed25519 [7])]\<rparr>"

lemma sample_config_total: "check_total sample_config = Ok ()"
  by (simp add: check_total_Ok sample_config_def sample_network_params_def)

lemma sample_config_node:
  "get_council_node sample_config [1] = Ok \<lparr>node_name = ''a'', security_contact = None, consensus_pubkey = Ed25519 [7]\<rparr>"
  by (simp add: get_council_node_Ok sample_config_def bm_get_def coin_le_iff sample_network_params_def)

lemma sample_config_valid:
  "\<exists>accs pool vs. validate_config_get_genesis sample_config 0 = Done (Ok (accs, pool, vs))"
proof -
  have "genesis_validators sample_config =
      Ok [(BasicRedeem [1], \<lparr>node_name = ''a'', security_contact = None, consensus_pubkey = Ed25519 [7]\<rparr>)]"
    using sample_config_node by (simp add: genesis_validators_def) (simp add: sample_config_def)
  moreover have "rewards_validate (rewards_config (ic_network_params sample_config)) = Ok ()"
    by (simp add: rewards_validate_def sample_config_def sample_network_params_def milli_less_iff milli_integral_def)
  ultimately show ?thesis
    using sample_config_total
    by (simp add: validate_config_get_genesis_def Let_def)
      (simp add: sample_config_def sample_network_params_def coin_new_def MAX_COIN_def)
qed

theorem genesis_issues_max_supply_witness:
  "\<exists>accs pool vs. validate_config_get_genesis sample_config 0 = Done (Ok (accs, pool, vs)) \<and>
     sum_list (map account_total accs) + 1000000000000000000 = max_supply"
proof -
  obtain accs pool vs where v: "validate_config_get_genesis sample_config 0 = Done (Ok (accs, pool, vs))"
    using sample_config_valid by blast
  with genesis_issues_max_supply [OF v] show ?thesis
    by (auto simp: sample_config_def sample_network_params_def)
qed

theorem genesis_validators_staked_witness:
  "\<exists>accs pool vs. validate_config_get_genesis sample_config 0 = Done (Ok (accs, pool, vs)) \<and> vs \<noteq> []"
proof -
  obtain accs pool vs where v: "validate_config_get_genesis sample_config 0 = Done (Ok (accs, pool, vs))"
    using sample_config_valid by blast
  have "bm_wf (council_nodes sample_config)" by (simp add: bm_wf_def sample_config_def)
  from genesis_validators_staked [OF v this] v show ?thesis by auto
qed

end
