(* ===== verification/Bit_Vector.thy ===== *)
theory Bit_Vector
  imports Chain_Prelude
begin

text \<open>
  The interface of the third-party bit vectors (crate bit_vec) that the filter,
  the liveness tracker and the spent-output records use.  The operations are a
  record of parameters; \<open>bitvec_laws\<close> states their documented behaviour against
  the list of bits that \<open>iter\<close> yields.  \<open>list_bitvec\<close> is a concrete instance on
  Boolean lists, used to show that the laws can be met.
\<close>

record 'bv bitvec =
  bv_from_elem :: "nat \<Rightarrow> bool \<Rightarrow> 'bv"
  bv_from_bytes :: "bytes \<Rightarrow> 'bv"
  bv_to_bytes :: "'bv \<Rightarrow> bytes"
  bv_iter :: "'bv \<Rightarrow> bool list"
  bv_get :: "'bv \<Rightarrow> nat \<Rightarrow> bool option"
  bv_set :: "'bv \<Rightarrow> nat \<Rightarrow> bool \<Rightarrow> 'bv run"
  bv_union :: "'bv \<Rightarrow> 'bv \<Rightarrow> 'bv run"
  bv_intersect :: "'bv \<Rightarrow> 'bv \<Rightarrow> 'bv run"
  bv_truncate :: "'bv \<Rightarrow> nat \<Rightarrow> 'bv"
  bv_clear :: "'bv \<Rightarrow> 'bv"

definition bv_len :: "'bv bitvec \<Rightarrow> 'bv \<Rightarrow> nat" where
  "bv_len B v = length (bv_iter B v)"

text \<open>Bits of a byte, most significant first, and bytes of a bit list, zero-filled at the end.\<close>

definition byte_bits :: "u8 \<Rightarrow> bool list" where
  "byte_bits b = map (bit b) [7, 6, 5, 4, 3, 2, 1, 0]"

definition bits_byte :: "bool list \<Rightarrow> u8" where
  "bits_byte bs = foldl (\<lambda>acc b. 2 * acc + of_bool b) 0 (take 8 (bs @ replicate 8 False))"

function bytes_of_bits :: "bool list \<Rightarrow> bytes" where
  "bytes_of_bits bs = (if bs = [] then [] else bits_byte (take 8 bs) # bytes_of_bits (drop 8 bs))"
  by auto
termination
  by (relation "measure length") auto

declare bytes_of_bits.simps [simp del]

definition bits_of_bytes :: "bytes \<Rightarrow> bool list" where
  "bits_of_bytes bs = concat (map byte_bits bs)"

definition bitvec_laws :: "'bv bitvec \<Rightarrow> bool" where
  "bitvec_laws B \<longleftrightarrow>
     (\<forall>n b. bv_iter B (bv_from_elem B n b) = replicate n b) \<and>
     (\<forall>bs. bv_iter B (bv_from_bytes B bs) = bits_of_bytes bs) \<and>
     (\<forall>v. bv_to_bytes B v = bytes_of_bits (bv_iter B v)) \<and>
     (\<forall>v i. bv_get B v i = (if i < bv_len B v then Some (bv_iter B v ! i) else None)) \<and>
     (\<forall>v i b. i < bv_len B v \<longrightarrow> (\<exists>w. bv_set B v i b = Done w \<and> bv_iter B w = (bv_iter B v)[i := b])) \<and>
     (\<forall>v w. bv_len B v = bv_len B w \<longrightarrow>
        (\<exists>u. bv_union B v w = Done u \<and> bv_iter B u = map2 (\<or>) (bv_iter B v) (bv_iter B w))) \<and>
     (\<forall>v w. bv_len B v = bv_len B w \<longrightarrow>
        (\<exists>u. bv_intersect B v w = Done u \<and> bv_iter B u = map2 (\<and>) (bv_iter B v) (bv_iter B w))) \<and>
     (\<forall>v n. bv_iter B (bv_truncate B v n) = take n (bv_iter B v)) \<and>
     (\<forall>v. bv_iter B (bv_clear B v) = replicate (bv_len B v) False)"

lemma bitvec_lawsD:
  assumes "bitvec_laws B"
  shows bv_iter_from_elem: "bv_iter B (bv_from_elem B n b) = replicate n b"
    and bv_iter_from_bytes: "bv_iter B (bv_from_bytes B bs) = bits_of_bytes bs"
    and bv_to_bytes_iter: "bv_to_bytes B v = bytes_of_bits (bv_iter B v)"
    and bv_get_iter: "bv_get B v i = (if i < bv_len B v then Some (bv_iter B v ! i) else None)"
    and bv_iter_truncate: "bv_iter B (bv_truncate B v n) = take n (bv_iter B v)"
    and bv_iter_clear: "bv_iter B (bv_clear B v) = replicate (bv_len B v) False"
  using assms unfolding bitvec_laws_def by blast+

lemma bv_set_Done:
  assumes "bitvec_laws B" "i < bv_len B v"
  obtains w where "bv_set B v i b = Done w" "bv_iter B w = (bv_iter B v)[i := b]"
  using assms unfolding bitvec_laws_def by blast

lemma bv_union_Done:
  assumes "bitvec_laws B" "bv_len B v = bv_len B w"
  obtains u where "bv_union B v w = Done u" "bv_iter B u = map2 (\<or>) (bv_iter B v) (bv_iter B w)"
  using assms unfolding bitvec_laws_def by blast

lemma bv_intersect_Done:
  assumes "bitvec_laws B" "bv_len B v = bv_len B w"
  obtains u where "bv_intersect B v w = Done u" "bv_iter B u = map2 (\<and>) (bv_iter B v) (bv_iter B w)"
  using assms unfolding bitvec_laws_def by blast

section \<open>Bytes and bits\<close>

lemma length_byte_bits [simp]: "length (byte_bits b) = 8"
  by (simp add: byte_bits_def)

lemma length_bits_of_bytes [simp]: "length (bits_of_bytes bs) = 8 * length bs"
  by (induction bs) (simp_all add: bits_of_bytes_def)

lemma foldl_horner:
  "foldl (\<lambda>acc b. 2 * acc + of_bool b) 0 bs = (horner_sum of_bool 2 (rev bs) :: u8)"
  by (induction bs rule: rev_induct) simp_all

lemma bits_byte_horner:
  "length bs = 8 \<Longrightarrow> bits_byte bs = horner_sum of_bool 2 (rev bs)"
  by (simp add: bits_byte_def foldl_horner)

lemma bits_byte_byte_bits [simp]: "bits_byte (byte_bits b) = b"
proof -
  have "rev (byte_bits b) = map (bit b) [0..<8]" by (simp add: byte_bits_def upt_rec eval_nat_numeral)
  then show ?thesis by (simp add: bits_byte_horner horner_sum_bit_eq_take_bit take_bit_word_eq_self)
qed

lemma length_8_cases:
  "length bs = 8 \<Longrightarrow> \<exists>b7 b6 b5 b4 b3 b2 b1 b0. bs = [b7, b6, b5, b4, b3, b2, b1, b0]"
  by (auto simp: eval_nat_numeral length_Suc_conv)

lemma byte_bits_bits_byte: "length bs = 8 \<Longrightarrow> byte_bits (bits_byte bs) = bs"
  using length_8_cases [of bs]
  by (auto simp: bits_byte_horner byte_bits_def bit_horner_sum_bit_iff bit_simps)

lemma bytes_bits_roundtrip [simp]: "bytes_of_bits (bits_of_bytes bs) = bs"
proof (induction bs)
  case Nil
  then show ?case by (simp add: bits_of_bytes_def bytes_of_bits.simps)
next
  case (Cons b bs)
  have "bits_of_bytes (b # bs) = byte_bits b @ bits_of_bytes bs" by (simp add: bits_of_bytes_def)
  moreover have "byte_bits b \<noteq> []" by (simp add: byte_bits_def)
  ultimately show ?case using Cons by (simp add: bytes_of_bits.simps [of "byte_bits b @ _"])
qed

lemma length_bytes_of_bits: "length (bytes_of_bits bs) = (length bs + 7) div 8"
proof (induction bs rule: bytes_of_bits.induct)
  case (1 bs)
  show ?case
  proof (cases "bs = []")
    case False
    then have "length (bytes_of_bits bs) = Suc ((length bs - 8 + 7) div 8)"
      using 1 by (subst bytes_of_bits.simps) simp
    also have "\<dots> = (length bs + 7) div 8"
      using False by (cases "length bs < 8") (auto simp: Suc_leI div_add_self1 not_less le_div_geq)
    finally show ?thesis .
  qed (simp add: bytes_of_bits.simps)
qed

text \<open>Packing bits into bytes and unpacking them pads with zeros up to the next full byte.\<close>

lemma bits_bytes_roundtrip_full:
  "length bs = 8 * n \<Longrightarrow> bits_of_bytes (bytes_of_bits bs) = bs"
proof (induction n arbitrary: bs)
  case 0
  then show ?case by (simp add: bytes_of_bits.simps bits_of_bytes_def)
next
  case (Suc n)
  then have "bs \<noteq> []" "length (take 8 bs) = 8" "length (drop 8 bs) = 8 * n" by auto
  with Suc.IH [of "drop 8 bs"] show ?case
    by (subst bytes_of_bits.simps) (simp add: bits_of_bytes_def byte_bits_bits_byte)
qed

lemma bits_byte_pad: "length bs \<le> 8 \<Longrightarrow> bits_byte (bs @ replicate (8 - length bs) False) = bits_byte bs"
  by (simp add: bits_byte_def take_Cons')

lemma bits_bytes_pad: "\<exists>k. bits_of_bytes (bytes_of_bits bs) = bs @ replicate k False"
proof (induction bs rule: bytes_of_bits.induct)
  case (1 bs)
  show ?case
  proof (cases "bs = []")
    case True
    then show ?thesis by (simp add: bytes_of_bits.simps bits_of_bytes_def)
  next
    case False
    let ?h = "take 8 bs @ replicate (8 - length (take 8 bs)) False"
    have h: "byte_bits (bits_byte (take 8 bs)) = ?h"
      using byte_bits_bits_byte [of ?h] bits_byte_pad [of "take 8 bs"] by simp
    have split: "bits_of_bytes (bytes_of_bits bs) = ?h @ bits_of_bytes (bytes_of_bits (drop 8 bs))"
      using False h by (subst bytes_of_bits.simps) (simp add: bits_of_bytes_def)
    obtain k where k: "bits_of_bytes (bytes_of_bits (drop 8 bs)) = drop 8 bs @ replicate k False"
      using 1 False by blast
    show ?thesis
    proof (cases "length bs \<le> 8")
      case True
      with split k have "bits_of_bytes (bytes_of_bits bs)
        = bs @ replicate (8 - length bs) False @ replicate k False" by simp
      then have "bits_of_bytes (bytes_of_bits bs) = bs @ replicate (8 - length bs + k) False"
        by (simp only: replicate_add)
      then show ?thesis ..
    next
      case False
      with split k have "bits_of_bytes (bytes_of_bits bs) = bs @ replicate k False" by simp
      then show ?thesis ..
    qed
  qed
qed

lemma bits_bytes_roundtrip_take: "take (length bs) (bits_of_bytes (bytes_of_bits bs)) = bs"
  using bits_bytes_pad [of bs] by auto

section \<open>A concrete instance\<close>

definition list_bitvec :: "bool list bitvec" where
  "list_bitvec = \<lparr>bv_from_elem = replicate, bv_from_bytes = bits_of_bytes, bv_to_bytes = bytes_of_bits,
     bv_iter = \<lambda>v. v, bv_get = \<lambda>v i. if i < length v then Some (v ! i) else None,
     bv_set = \<lambda>v i b. if i < length v then Done (v[i := b]) else Panic ''index out of bounds'',
     bv_union = \<lambda>v w. if length v = length w then Done (map2 (\<or>) v w) else Panic ''lengths differ'',
     bv_intersect = \<lambda>v w. if length v = length w then Done (map2 (\<and>) v w) else Panic ''lengths differ'',
     bv_truncate = \<lambda>v n. take n v, bv_clear = \<lambda>v. replicate (length v) False\<rparr>"

lemma list_bitvec_laws: "bitvec_laws list_bitvec"
  by (simp add: bitvec_laws_def list_bitvec_def bv_len_def)

end
