(* ===== verification/Bloom_Filter.thy ===== *)
theory Bloom_Filter
  imports Bit_Vector
begin

text \<open>
  The block filter of chain-tx-filter: a 2048-bit Bloom filter over view keys
  (src/filter.rs) and its wrapper (src/lib.rs).  Keccak-256 and the serialisation
  of public keys are parameters, and so are the bit vectors.  The lemmas show that
  the operations neither panic nor lose bits, so a key that was added is found
  later, also after joining filters and after the trip through raw bytes.
\<close>

unbundle bit_operations_syntax

datatype 'bv bloom = Bloom (bloom_bits: 'bv)

record 'bv block_filter =
  bf_bloom :: "'bv bloom"
  modified :: bool

section \<open>Operations\<close>

definition bloom_default :: "'bv bitvec \<Rightarrow> 'bv bloom" where
  "bloom_default B = Bloom (bv_from_elem B 2048 False)"

definition bloom_try_from :: "'bv bitvec \<Rightarrow> bytes \<Rightarrow> string + 'bv bloom" where
  "bloom_try_from B value =
     (if length value \<noteq> 256 then Err ''Invalid length, ethbloom is expected to be 256-bytes''
      else Ok (Bloom (bv_from_bytes B value)))"

definition set_index :: "bytes \<Rightarrow> nat \<Rightarrow> nat" where
  "set_index h i = (unat (h ! i) * 256 + unat (h ! (i + 1))) mod 2048"

definition set_bit_in :: "bytes \<Rightarrow> bytes \<Rightarrow> nat \<Rightarrow> bytes" where
  "set_bit_in h r i = (let m = set_index h i in r[m div 8 := (r ! (m div 8)) OR push_bit (m mod 8) 1])"

definition single_set :: "'bv bitvec \<Rightarrow> (bytes \<Rightarrow> bytes) \<Rightarrow> bytes \<Rightarrow> 'bv" where
  "single_set B keccak arr =
     bv_from_bytes B (foldl (set_bit_in (keccak arr)) (replicate 256 0) [0, 2, 4])"

definition bloom_reset :: "'bv bitvec \<Rightarrow> 'bv bloom \<Rightarrow> 'bv bloom" where
  "bloom_reset B b = Bloom (bv_clear B (bloom_bits b))"

definition bloom_add :: "'bv bitvec \<Rightarrow> 'bv bloom \<Rightarrow> 'bv bloom \<Rightarrow> 'bv bloom run" where
  "bloom_add B b other = run_bind (bv_union B (bloom_bits b) (bloom_bits other)) (\<lambda>v. Done (Bloom v))"

definition bloom_set :: "'bv bitvec \<Rightarrow> (bytes \<Rightarrow> bytes) \<Rightarrow> 'bv bloom \<Rightarrow> bytes \<Rightarrow> 'bv bloom run" where
  "bloom_set B keccak b arr =
     run_bind (bv_union B (bloom_bits b) (single_set B keccak arr)) (\<lambda>v. Done (Bloom v))"

definition bloom_check :: "'bv bitvec \<Rightarrow> (bytes \<Rightarrow> bytes) \<Rightarrow> 'bv bloom \<Rightarrow> bytes \<Rightarrow> bool run" where
  "bloom_check B keccak b arr =
     (let s1 = single_set B keccak arr in
      run_bind (bv_intersect B s1 (bloom_bits b)) (\<lambda>s2. Done (bv_iter B s2 = bv_iter B s1)))"

definition bloom_raw_data :: "'bv bitvec \<Rightarrow> 'bv bloom \<Rightarrow> bytes run" where
  "bloom_raw_data B b = (let bytes = bv_to_bytes B (bloom_bits b) in
     run_bind (assert_run (length bytes = 256) ''copy_from_slice'') (\<lambda>_. Done bytes))"

definition filter_default :: "'bv bitvec \<Rightarrow> 'bv block_filter" where
  "filter_default B = \<lparr>bf_bloom = bloom_default B, modified = False\<rparr>"

definition filter_reset :: "'bv bitvec \<Rightarrow> 'bv block_filter \<Rightarrow> 'bv block_filter" where
  "filter_reset B f = f\<lparr>modified := False, bf_bloom := bloom_reset B (bf_bloom f)\<rparr>"

definition add_filter :: "'bv bitvec \<Rightarrow> 'bv block_filter \<Rightarrow> 'bv block_filter \<Rightarrow> 'bv block_filter run" where
  "add_filter B f other = run_bind (bloom_add B (bf_bloom f) (bf_bloom other)) (\<lambda>b.
     Done (f\<lparr>modified := True, bf_bloom := b\<rparr>))"

definition add_view_key ::
    "'bv bitvec \<Rightarrow> (bytes \<Rightarrow> bytes) \<Rightarrow> ('k \<Rightarrow> bytes) \<Rightarrow> 'bv block_filter \<Rightarrow> 'k \<Rightarrow> 'bv block_filter run" where
  "add_view_key B keccak ser f view_key = run_bind (bloom_set B keccak (bf_bloom f) (ser view_key)) (\<lambda>b.
     Done (f\<lparr>modified := True, bf_bloom := b\<rparr>))"

definition check_view_key ::
    "'bv bitvec \<Rightarrow> (bytes \<Rightarrow> bytes) \<Rightarrow> ('k \<Rightarrow> bytes) \<Rightarrow> 'bv block_filter \<Rightarrow> 'k \<Rightarrow> bool run" where
  "check_view_key B keccak ser f view_key = bloom_check B keccak (bf_bloom f) (ser view_key)"

definition filter_get_raw :: "'bv bitvec \<Rightarrow> 'bv block_filter \<Rightarrow> bytes run" where
  "filter_get_raw B f = bloom_raw_data B (bf_bloom f)"

definition filter_try_from :: "'bv bitvec \<Rightarrow> bytes \<Rightarrow> string + 'bv block_filter" where
  "filter_try_from B value = and_then (bloom_try_from B value) (\<lambda>b. Ok \<lparr>bf_bloom = b, modified = False\<rparr>)"

definition filter_from_raw :: "'bv bitvec \<Rightarrow> bytes \<Rightarrow> 'bv block_filter" where
  "filter_from_raw B val = \<lparr>bf_bloom = Bloom (bv_from_bytes B val), modified = False\<rparr>"

definition filter_data :: "'bv bitvec \<Rightarrow> 'bv block_filter \<Rightarrow> bytes" where
  "filter_data B f = bv_to_bytes B (bloom_bits (bf_bloom f))"

section \<open>Filters as sets of bits\<close>

definition filter_bits :: "'bv bitvec \<Rightarrow> 'bv block_filter \<Rightarrow> bool list" where
  "filter_bits B f = bv_iter B (bloom_bits (bf_bloom f))"

definition wf_filter :: "'bv bitvec \<Rightarrow> 'bv block_filter \<Rightarrow> bool" where
  "wf_filter B f \<longleftrightarrow> length (filter_bits B f) = 2048"

definition key_bits :: "(bytes \<Rightarrow> bytes) \<Rightarrow> bytes \<Rightarrow> bool list" where
  "key_bits keccak arr = bits_of_bytes (foldl (set_bit_in (keccak arr)) (replicate 256 0) [0, 2, 4])"

text \<open>A key is present when all its bits are.\<close>

definition covers :: "bool list \<Rightarrow> bool list \<Rightarrow> bool" where
  "covers bits ks \<longleftrightarrow> list_all2 (\<lambda>b k. k \<longrightarrow> b) bits ks"

lemma length_key_bits [simp]: "length (key_bits keccak arr) = 2048"
  by (simp add: key_bits_def set_bit_in_def Let_def)

lemma iter_single_set: "bitvec_laws B \<Longrightarrow> bv_iter B (single_set B keccak arr) = key_bits keccak arr"
  by (simp add: single_set_def key_bits_def bv_iter_from_bytes)

lemma map2_and_eq: "length bs = length ks \<Longrightarrow> map2 (\<and>) ks bs = ks \<longleftrightarrow> covers bs ks"
  by (induction bs ks rule: list_induct2) (auto simp: covers_def)

lemma covers_or1: "length bs = length cs \<Longrightarrow> covers bs ks \<Longrightarrow> covers (map2 (\<or>) bs cs) ks"
  by (induction bs cs arbitrary: ks rule: list_induct2) (auto simp: covers_def list_all2_Cons1)

lemma covers_or2: "length bs = length cs \<Longrightarrow> covers cs ks \<Longrightarrow> covers (map2 (\<or>) bs cs) ks"
  by (induction bs cs arbitrary: ks rule: list_induct2) (auto simp: covers_def list_all2_Cons1)

lemma covers_refl: "covers ks ks"
  by (induction ks) (auto simp: covers_def)

lemma check_view_key_covers:
  assumes "bitvec_laws B" "wf_filter B f"
  shows "check_view_key B keccak ser f k = Done (covers (filter_bits B f) (key_bits keccak (ser k)))"
proof -
  have "bv_len B (single_set B keccak (ser k)) = bv_len B (bloom_bits (bf_bloom f))"
    using assms by (simp add: bv_len_def iter_single_set wf_filter_def filter_bits_def)
  then obtain u where "bv_intersect B (single_set B keccak (ser k)) (bloom_bits (bf_bloom f)) = Done u"
      "bv_iter B u = map2 (\<and>) (key_bits keccak (ser k)) (filter_bits B f)"
    using bv_intersect_Done [OF assms(1)] iter_single_set [OF assms(1)] by (metis filter_bits_def)
  with assms show ?thesis
    by (simp add: check_view_key_def bloom_check_def Let_def iter_single_set map2_and_eq wf_filter_def)
qed

lemma add_view_key_Done:
  assumes "bitvec_laws B" "wf_filter B f"
  obtains f' where "add_view_key B keccak ser f k = Done f'" "wf_filter B f'" "modified f'"
    "filter_bits B f' = map2 (\<or>) (filter_bits B f) (key_bits keccak (ser k))"
proof -
  have "bv_len B (bloom_bits (bf_bloom f)) = bv_len B (single_set B keccak (ser k))"
    using assms by (simp add: bv_len_def iter_single_set wf_filter_def filter_bits_def)
  then obtain u where "bv_union B (bloom_bits (bf_bloom f)) (single_set B keccak (ser k)) = Done u"
      "bv_iter B u = map2 (\<or>) (filter_bits B f) (key_bits keccak (ser k))"
    using bv_union_Done [OF assms(1)] iter_single_set [OF assms(1)] by (metis filter_bits_def)
  with that [of "f\<lparr>modified := True, bf_bloom := Bloom u\<rparr>"] assms show ?thesis
    by (simp add: add_view_key_def bloom_set_def wf_filter_def filter_bits_def)
qed

lemma add_filter_Done:
  assumes "bitvec_laws B" "wf_filter B f" "wf_filter B g"
  obtains f' where "add_filter B f g = Done f'" "wf_filter B f'"
    "filter_bits B f' = map2 (\<or>) (filter_bits B f) (filter_bits B g)"
proof -
  have "bv_len B (bloom_bits (bf_bloom f)) = bv_len B (bloom_bits (bf_bloom g))"
    using assms by (simp add: bv_len_def wf_filter_def filter_bits_def)
  then obtain u where "bv_union B (bloom_bits (bf_bloom f)) (bloom_bits (bf_bloom g)) = Done u"
      "bv_iter B u = map2 (\<or>) (filter_bits B f) (filter_bits B g)"
    using bv_union_Done [OF assms(1)] by (metis filter_bits_def)
  with that [of "f\<lparr>modified := True, bf_bloom := Bloom u\<rparr>"] assms show ?thesis
    by (simp add: add_filter_def bloom_add_def wf_filter_def filter_bits_def)
qed

lemma wf_filter_default [simp]: "bitvec_laws B \<Longrightarrow> wf_filter B (filter_default B)"
  by (simp add: wf_filter_def filter_bits_def filter_default_def bloom_default_def bv_iter_from_elem)

text \<open>Adding keys one after the other.\<close>

definition add_view_keys ::
    "'bv bitvec \<Rightarrow> (bytes \<Rightarrow> bytes) \<Rightarrow> ('k \<Rightarrow> bytes) \<Rightarrow> 'k list \<Rightarrow> 'bv block_filter \<Rightarrow> 'bv block_filter run" where
  "add_view_keys B keccak ser ks f = foldl (\<lambda>m k. run_bind m (\<lambda>g. add_view_key B keccak ser g k)) (Done f) ks"

lemma add_view_keys_Done:
  assumes "bitvec_laws B" "wf_filter B f"
  shows "\<exists>f'. add_view_keys B keccak ser ks f = Done f' \<and> wf_filter B f' \<and>
    (\<forall>bs. covers (filter_bits B f) bs \<longrightarrow> covers (filter_bits B f') bs) \<and>
    (\<forall>k \<in> set ks. covers (filter_bits B f') (key_bits keccak (ser k)))"
proof (induction ks rule: rev_induct)
  case Nil
  then show ?case using assms by (simp add: add_view_keys_def)
next
  case (snoc k ks)
  then obtain g where g: "add_view_keys B keccak ser ks f = Done g" "wf_filter B g"
      "\<forall>bs. covers (filter_bits B f) bs \<longrightarrow> covers (filter_bits B g) bs"
      "\<forall>k \<in> set ks. covers (filter_bits B g) (key_bits keccak (ser k))" by blast
  obtain f' where f': "add_view_key B keccak ser g k = Done f'" "wf_filter B f'"
      "filter_bits B f' = map2 (\<or>) (filter_bits B g) (key_bits keccak (ser k))"
    using add_view_key_Done [OF assms(1) g(2)] by metis
  have len: "length (filter_bits B g) = length (key_bits keccak (ser k))"
    using g(2) by (simp add: wf_filter_def)
  show ?case
    using g f' covers_or1 [OF len] covers_or2 [OF len covers_refl]
    by (auto simp: add_view_keys_def)
qed

section \<open>Properties\<close>

text \<open>
  C34: The block filter has no false negatives.  Adding keys to the filter and
  joining a second filter never panics; every key added to either filter, and
  every key either filter already reported, is reported by the joint filter and
  by the filter restored from its raw bytes.
\<close>

theorem block_filter_no_false_negatives:
  assumes "bitvec_laws B" "wf_filter B f" "wf_filter B g"
  shows "\<exists>f1 g1 h raw r. add_view_keys B keccak ser ks f = Done f1 \<and>
    add_view_keys B keccak ser ls g = Done g1 \<and> add_filter B f1 g1 = Done h \<and>
    filter_get_raw B h = Done raw \<and> filter_try_from B raw = Ok r \<and>
    (\<forall>k. k \<in> set ks \<union> set ls \<or> check_view_key B keccak ser f k = Done True \<or>
         check_view_key B keccak ser g k = Done True \<longrightarrow>
       check_view_key B keccak ser h k = Done True \<and> check_view_key B keccak ser r k = Done True)"
proof -
  obtain f1 where f1: "add_view_keys B keccak ser ks f = Done f1" "wf_filter B f1"
      "\<forall>bs. covers (filter_bits B f) bs \<longrightarrow> covers (filter_bits B f1) bs"
      "\<forall>k \<in> set ks. covers (filter_bits B f1) (key_bits keccak (ser k))"
    using add_view_keys_Done [OF assms(1,2)] by metis
  obtain g1 where g1: "add_view_keys B keccak ser ls g = Done g1" "wf_filter B g1"
      "\<forall>bs. covers (filter_bits B g) bs \<longrightarrow> covers (filter_bits B g1) bs"
      "\<forall>k \<in> set ls. covers (filter_bits B g1) (key_bits keccak (ser k))"
    using add_view_keys_Done [OF assms(1,3)] by metis
  obtain h where h: "add_filter B f1 g1 = Done h" "wf_filter B h"
      "filter_bits B h = map2 (\<or>) (filter_bits B f1) (filter_bits B g1)"
    using add_filter_Done [OF assms(1) f1(2) g1(2)] by metis
  let ?raw = "bytes_of_bits (filter_bits B h)"
  have raw: "filter_get_raw B h = Done ?raw" and len: "length ?raw = 256"
    using h(2) assms(1)
    by (simp_all add: filter_get_raw_def bloom_raw_data_def Let_def wf_filter_def filter_bits_def
        bv_to_bytes_iter length_bytes_of_bits)
  define r where "r = \<lparr>bf_bloom = Bloom (bv_from_bytes B ?raw), modified = False\<rparr>"
  have r: "filter_try_from B ?raw = Ok r" using len by (simp add: filter_try_from_def bloom_try_from_def r_def)
  have bits: "filter_bits B r = filter_bits B h"
    using bits_bytes_roundtrip_full [of "filter_bits B h" 256] h(2) assms(1)
    by (simp add: r_def wf_filter_def filter_bits_def bv_iter_from_bytes)
  then have wfr: "wf_filter B r" using h(2) by (simp add: wf_filter_def)
  have leng: "length (filter_bits B f1) = length (filter_bits B g1)"
    using f1(2) g1(2) by (simp add: wf_filter_def)
  have "check_view_key B keccak ser h k = Done True \<and> check_view_key B keccak ser r k = Done True"
    if "k \<in> set ks \<union> set ls \<or> check_view_key B keccak ser f k = Done True \<or>
         check_view_key B keccak ser g k = Done True" for k
  proof -
    have "covers (filter_bits B f1) (key_bits keccak (ser k)) \<or> covers (filter_bits B g1) (key_bits keccak (ser k))"
      using that f1(3,4) g1(3,4) assms by (auto simp: check_view_key_covers)
    then have "covers (filter_bits B h) (key_bits keccak (ser k))"
      using covers_or1 [OF leng] covers_or2 [OF leng] h(3) by auto
    with assms(1) h(2) wfr bits show ?thesis by (simp add: check_view_key_covers)
  qed
  with f1(1) g1(1) h(1) raw r show ?thesis by blast
qed

theorem block_filter_no_false_negatives_witness:
  "\<exists>f1 g1 h raw r. add_view_keys list_bitvec (\<lambda>b. b @ replicate 32 0) (\<lambda>k. [k]) [3] (filter_default list_bitvec) = Done f1 \<and>
    add_filter list_bitvec f1 g1 = Done h \<and> filter_get_raw list_bitvec h = Done raw \<and>
    filter_try_from list_bitvec raw = Ok r \<and>
    check_view_key list_bitvec (\<lambda>b. b @ replicate 32 0) (\<lambda>k. [k]) r (3 :: u8) = Done True"
  using block_filter_no_false_negatives [OF list_bitvec_laws wf_filter_default [OF list_bitvec_laws]
      wf_filter_default [OF list_bitvec_laws], of "\<lambda>b. b @ replicate 32 0" "\<lambda>k. [k]" "[3 :: u8]" "[]"]
  by (elim exE) (metis UnI1 list.set_intros(1))

end
