(* ===== verification/Punishment_State.thy ===== *)
theory Punishment_State
  imports Staked_State Bit_Vector
begin

text \<open>
  Runtime state for punishments: the liveness tracker (chain-abci/src/liveness.rs),
  the slashing schedule (chain-abci/src/slashing.rs) and the maps that hold them
  (chain-abci/src/punishment.rs).  The tracker is a ring buffer of signing bits;
  the main lemma reads it as the window of the most recent blocks.
\<close>

section \<open>Liveness\<close>

datatype 'bv liveness_tracker = LivenessTracker (liveness: 'bv)

definition tracker_new :: "'bv bitvec \<Rightarrow> u16 \<Rightarrow> 'bv liveness_tracker" where
  "tracker_new B block_signing_window = LivenessTracker (bv_from_elem B (unat block_signing_window) True)"

text \<open>The height is an \<open>i64\<close> that is cast to \<open>usize\<close> before the subtraction, which wraps.\<close>

definition tracker_update ::
    "'bv bitvec \<Rightarrow> block_height \<Rightarrow> bool \<Rightarrow> 'bv liveness_tracker \<Rightarrow> 'bv liveness_tracker run" where
  "tracker_update B height has_signed t =
     (let window = bv_len B (liveness t) in
      if window = 0 then Panic ''attempt to calculate the remainder with a divisor of zero''
      else (let update_index = unat (word_of_int height - 1 :: u64) mod window in
        run_bind (bv_set B (liveness t) update_index has_signed) (\<lambda>v. Done (LivenessTracker v))))"

definition is_live :: "'bv bitvec \<Rightarrow> u16 \<Rightarrow> 'bv liveness_tracker \<Rightarrow> bool" where
  "is_live B missed_block_threshold t =
     (let zero_count = length (filter Not (bv_iter B (liveness t))) in
      zero_count < unat missed_block_threshold)"

text \<open>
  The codec of a tracker, over the bytes the codec library sees: the length as two
  little-endian bytes handed over as a number, and the packed bits.
\<close>

definition tracker_encode :: "'bv bitvec \<Rightarrow> 'bv liveness_tracker \<Rightarrow> u16 \<times> bytes" where
  "tracker_encode B t = (of_nat (bv_len B (liveness t)), bv_to_bytes B (liveness t))"

definition tracker_decode :: "'bv bitvec \<Rightarrow> u16 \<times> bytes \<Rightarrow> 'bv liveness_tracker" where
  "tracker_decode B e = (case e of (len, bytes) \<Rightarrow>
     LivenessTracker (bv_truncate B (bv_from_bytes B bytes) (unat len)))"

section \<open>Slashing schedule\<close>

record slashing_schedule =
  slash_ratio :: slash_ratio
  slashing_time :: timespec
  schedule_kind :: punishment_kind

instantiation slash_ratio :: linorder
begin

definition less_eq_slash_ratio :: "slash_ratio \<Rightarrow> slash_ratio \<Rightarrow> bool" where
  "less_eq_slash_ratio a b \<longleftrightarrow> ratio_milli a \<le> ratio_milli b"

definition less_slash_ratio :: "slash_ratio \<Rightarrow> slash_ratio \<Rightarrow> bool" where
  "less_slash_ratio a b \<longleftrightarrow> ratio_milli a < ratio_milli b"

instance
  by standard (auto simp: less_eq_slash_ratio_def less_slash_ratio_def slash_ratio.expand)

end

definition schedule_new :: "slash_ratio \<Rightarrow> timespec \<Rightarrow> punishment_kind \<Rightarrow> slashing_schedule" where
  "schedule_new r t k = \<lparr>slash_ratio = r, slashing_time = t, schedule_kind = k\<rparr>"

definition update_slash_ratio :: "slash_ratio \<Rightarrow> punishment_kind \<Rightarrow> slashing_schedule \<Rightarrow> slashing_schedule" where
  "update_slash_ratio new_ratio k s =
     (if new_ratio > slash_ratio s then s\<lparr>slash_ratio := new_ratio, schedule_kind := k\<rparr> else s)"

definition can_slash :: "slashing_schedule \<Rightarrow> timespec \<Rightarrow> bool" where
  "can_slash s current_time \<longleftrightarrow> current_time \<ge> slashing_time s"

record 'bv validator_punishment =
  validator_liveness :: "(tm_address, 'bv liveness_tracker) btm"
  slashing_schedules :: "(staked_address, slashing_schedule) btm"

lemma update_slash_ratio_max:
  "slash_ratio (update_slash_ratio r k s) = max (slash_ratio s) r"
  "slashing_time (update_slash_ratio r k s) = slashing_time s"
  by (auto simp: update_slash_ratio_def max_def)

section \<open>The tracker as a sliding window\<close>

text \<open>
  A ring buffer at position \<open>h\<close> (the height minus one of the next block), read
  from that position, is the window of signing bits, oldest first.
\<close>

lemma rotate_update:
  assumes "xs \<noteq> []"
  shows "rotate (Suc h) (xs[h mod length xs := b]) = tl (rotate h xs) @ [b]"
proof (rule nth_equalityI)
  let ?n = "length xs"
  fix i
  assume "i < length (rotate (Suc h) (xs[h mod ?n := b]))"
  then have i: "i < ?n" by simp
  have idx: "rotate (Suc h) (xs[h mod ?n := b]) ! i = xs[h mod ?n := b] ! ((Suc h + i) mod ?n)"
    using i nth_rotate [of i "xs[h mod ?n := b]" "Suc h"] by simp
  show "rotate (Suc h) (xs[h mod ?n := b]) ! i = (tl (rotate h xs) @ [b]) ! i"
  proof (cases "Suc i = ?n")
    case True
    then have "(Suc h + i) mod ?n = h mod ?n" by (metis add_Suc_right add_Suc_shift mod_add_self2)
    moreover have "h mod ?n < ?n" using assms by simp
    moreover have "i = length (tl (rotate h xs))" using True by simp
    then have "(tl (rotate h xs) @ [b]) ! i = b" by (simp only: nth_append_length)
    ultimately show ?thesis using idx by simp
  next
    case False
    then have si: "Suc i < ?n" using i by simp
    have "(h + Suc i) mod ?n \<noteq> h mod ?n"
    proof
      assume "(h + Suc i) mod ?n = h mod ?n"
      then have "Suc i mod ?n = 0" by (metis add_diff_cancel_left' le_add1 mod_eq_dvd_iff_nat mod_0_imp_dvd dvd_imp_mod_0)
      with si show False by simp
    qed
    then have "rotate (Suc h) (xs[h mod ?n := b]) ! i = xs ! ((h + Suc i) mod ?n)"
      using idx by simp
    also have "\<dots> = rotate h xs ! Suc i" using si by (simp add: nth_rotate)
    also have "\<dots> = (tl (rotate h xs) @ [b]) ! i"
    proof -
      have "i < length (tl (rotate h xs))" using si by simp
      then show ?thesis by (simp only: nth_append nth_tl if_True)
    qed
    finally show ?thesis .
  qed
qed (use assms in simp)

lemma filter_rotate_length: "length (filter P (rotate n xs)) = length (filter P xs)"
proof -
  let ?k = "n mod length xs"
  have "length (filter P (take ?k xs)) + length (filter P (drop ?k xs)) = length (filter P xs)"
    by (metis append_take_drop_id filter_append length_append)
  then show ?thesis by (simp add: rotate_drop_take)
qed

text \<open>Feeding the bits of consecutive blocks, the first of height \<open>h + 1\<close>.\<close>

fun tracker_feed :: "'bv bitvec \<Rightarrow> nat \<Rightarrow> bool list \<Rightarrow> 'bv liveness_tracker \<Rightarrow> 'bv liveness_tracker run" where
  "tracker_feed B h [] t = Done t"
| "tracker_feed B h (b # bs) t = run_bind (tracker_update B (int h + 1) b t) (tracker_feed B (Suc h) bs)"

definition last_n :: "nat \<Rightarrow> 'a list \<Rightarrow> 'a list" where
  "last_n n xs = drop (length xs - n) xs"

lemma tracker_update_Done:
  assumes "bitvec_laws B" "bv_iter B (liveness t) \<noteq> []" "h < 2 ^ 63"
  obtains t' where "tracker_update B (int h + 1) b t = Done t'"
    "bv_iter B (liveness t') = (bv_iter B (liveness t))[h mod bv_len B (liveness t) := b]"
proof -
  have "word_of_int (int h + 1) - 1 = (of_nat h :: u64)"
    by (simp only: of_int_add of_int_of_nat_eq of_int_1 add_diff_cancel_right')
  moreover have "h < 2 ^ LENGTH(64)" using assms(3) by simp
  then have "unat (of_nat h :: u64) = h" by (simp only: unat_of_nat mod_less)
  ultimately have idx: "unat (word_of_int (int h + 1) - 1 :: u64) = h" by (simp only:)
  have nz: "bv_len B (liveness t) \<noteq> 0" using assms(2) by (simp add: bv_len_def)
  then have "h mod bv_len B (liveness t) < bv_len B (liveness t)" by simp
  then obtain v where v: "bv_set B (liveness t) (h mod bv_len B (liveness t)) b = Done v"
      "bv_iter B v = (bv_iter B (liveness t))[h mod bv_len B (liveness t) := b]"
    using bv_set_Done [OF assms(1)] by metis
  have "tracker_update B (int h + 1) b t = Done (LivenessTracker v)"
    unfolding tracker_update_def Let_def idx using nz v(1) by simp
  then show ?thesis using that v(2) by simp
qed

lemma tracker_feed_window:
  assumes "bitvec_laws B" "bv_iter B (liveness t) \<noteq> []" "h + length bs < 2 ^ 63"
  shows "\<exists>t'. tracker_feed B h bs t = Done t' \<and>
    rotate (h + length bs) (bv_iter B (liveness t')) =
      last_n (bv_len B (liveness t)) (rotate h (bv_iter B (liveness t)) @ bs)"
  using assms(2,3)
proof (induction bs arbitrary: h t)
  case Nil
  then show ?case by (simp add: last_n_def bv_len_def)
next
  case (Cons b bs)
  let ?xs = "bv_iter B (liveness t)"
  have "h < 2 ^ 63" using Cons.prems(2) by simp
  then obtain t1 where t1: "tracker_update B (int h + 1) b t = Done t1"
      "bv_iter B (liveness t1) = ?xs[h mod length ?xs := b]"
    using tracker_update_Done [OF assms(1) Cons.prems(1), of h b] by (auto simp: bv_len_def)
  then have "bv_iter B (liveness t1) \<noteq> []" using Cons.prems(1) by auto
  with Cons.IH [of t1 "Suc h"] Cons.prems(2) obtain t' where
    t': "tracker_feed B (Suc h) bs t1 = Done t'"
      "rotate (Suc h + length bs) (bv_iter B (liveness t')) =
        last_n (bv_len B (liveness t1)) (rotate (Suc h) (bv_iter B (liveness t1)) @ bs)"
    by auto
  have "rotate (Suc h) (bv_iter B (liveness t1)) = tl (rotate h ?xs) @ [b]"
    using rotate_update [OF Cons.prems(1), of h b] t1(2) by simp
  moreover have "bv_len B (liveness t1) = length ?xs" by (simp add: bv_len_def t1(2))
  moreover have "rotate h ?xs \<noteq> []" using Cons.prems(1) by simp
  ultimately have "last_n (bv_len B (liveness t1)) (rotate (Suc h) (bv_iter B (liveness t1)) @ bs) =
      last_n (length ?xs) (rotate h ?xs @ b # bs)"
    by (cases "rotate h ?xs") (auto simp: last_n_def dest: arg_cong [of _ _ length])
  with t1(1) t' show ?case by (auto simp: bv_len_def)
qed

section \<open>Properties\<close>

text \<open>
  C20: A tracker that is created with a non-empty window and fed with the signing
  bits of consecutive blocks (below height 2 to the power of 63) reports its
  validator as live exactly when fewer than the threshold of the last window's blocks
  were missed, where blocks before the creation count as signed; updating never
  panics.  So a validator that missed exactly \<open>missed_block_threshold\<close> blocks is
  reported as not live, although the parameter is documented as the number of misses
  that is still allowed.
\<close>

theorem liveness_window:
  assumes "bitvec_laws B" "w \<noteq> 0" "h + length bs < 2 ^ 63"
  shows "\<exists>t. tracker_feed B h bs (tracker_new B w) = Done t \<and>
    (is_live B threshold t \<longleftrightarrow>
      length (filter Not (last_n (unat w) (replicate (unat w) True @ bs))) < unat threshold)"
proof -
  let ?t = "tracker_new B w"
  have it: "bv_iter B (liveness ?t) = replicate (unat w) True"
    using assms(1) by (simp add: tracker_new_def bv_iter_from_elem)
  moreover have "unat w \<noteq> 0" using assms(2) by (simp add: unat_eq_0)
  ultimately have "bv_iter B (liveness ?t) \<noteq> []" by simp
  from tracker_feed_window [OF assms(1) this assms(3)] obtain t where
    t: "tracker_feed B h bs ?t = Done t"
      "rotate (h + length bs) (bv_iter B (liveness t)) = last_n (unat w) (rotate h (replicate (unat w) True) @ bs)"
    by (auto simp: it bv_len_def)
  have "rotate h (replicate (unat w) True) = replicate (unat w) True"
    by (rule nth_equalityI) (simp_all add: nth_rotate)
  with t filter_rotate_length [of Not "h + length bs" "bv_iter B (liveness t)"] show ?thesis
    by (auto simp: is_live_def Let_def)
qed

theorem liveness_window_witness:
  "\<exists>t. tracker_feed list_bitvec 6 [False, True, False, False] (tracker_new list_bitvec 3) = Done t \<and>
     \<not> is_live list_bitvec 2 t"
  using liveness_window [OF list_bitvec_laws, of 3 6 "[False, True, False, False]" 2]
  by (auto simp: last_n_def)

text \<open>
  Decoding an encoded tracker gives a tracker with the same bits.
\<close>

theorem tracker_codec_roundtrip:
  assumes "bitvec_laws B" "bv_len B (liveness t) < 2 ^ 16"
  shows "bv_iter B (liveness (tracker_decode B (tracker_encode B t))) = bv_iter B (liveness t)"
  using assms bits_bytes_roundtrip_take [of "bv_iter B (liveness t)"]
  by (simp add: tracker_decode_def tracker_encode_def bv_iter_truncate bv_iter_from_bytes
      bv_to_bytes_iter bv_len_def unat_of_nat take_bit_nat_eq_self)

theorem tracker_codec_roundtrip_witness:
  "liveness (tracker_decode list_bitvec (tracker_encode list_bitvec (LivenessTracker [True, False, True]))) =
     [True, False, True]"
  using tracker_codec_roundtrip [OF list_bitvec_laws, of "LivenessTracker [True, False, True]"]
  by (simp add: bv_len_def list_bitvec_def)

end
