(* ===== verification/Utxo_Store.thy ===== *)
theory Utxo_Store
  imports Tx_Validation Bit_Vector
begin

text \<open>
  The storage layer of chain-abci: the key-value store that records which outputs
  are spent (src/storage/tx.rs, \<open>spend_utxos\<close> of src/app/mod.rs and
  \<open>update_utxos_commit\<close> of src/app/commit.rs) and the trie of staking accounts
  (\<open>get_account\<close>, \<open>update_account\<close>).  The store (crate kvdb), the trie (crate
  starling) and the bit vectors are parameters with their documented laws as
  hypotheses.  The abstract view of the store is the predicate \<open>spent\<close>.
\<close>

section \<open>The key-value store and the account trie\<close>

datatype column = COL_TX_META | COL_WITNESS | COL_BODIES | COL_EXTRA | COL_NODE_INFO
  | COL_MERKLE_PROOFS | COL_APP_HASHS | COL_APP_STATES

type_synonym dbtx = "((column \<times> bytes) \<times> bytes) list"

record 'db kvdb =
  db_get :: "'db \<Rightarrow> column \<Rightarrow> bytes \<Rightarrow> unit + bytes option"
  db_write :: "'db \<Rightarrow> dbtx \<Rightarrow> unit + 'db"
  db_write_buffered :: "'db \<Rightarrow> dbtx \<Rightarrow> 'db"

definition dbtx_put :: "column \<Rightarrow> bytes \<Rightarrow> bytes \<Rightarrow> dbtx \<Rightarrow> dbtx" where
  "dbtx_put c k v t = t @ [((c, k), v)]"

text \<open>After a write, a key reads as the last value put for it, or as before.\<close>

definition kvdb_laws :: "'db kvdb \<Rightarrow> bool" where
  "kvdb_laws K \<longleftrightarrow>
     (\<forall>db t c k. db_get K (db_write_buffered K db t) c k =
        (case map_of (rev t) (c, k) of None \<Rightarrow> db_get K db c k | Some v \<Rightarrow> Ok (Some v))) \<and>
     (\<forall>db t db' c k. db_write K db t = Ok db' \<longrightarrow> db_get K db' c k =
        (case map_of (rev t) (c, k) of None \<Rightarrow> db_get K db c k | Some v \<Rightarrow> Ok (Some v)))"

record 'tr trie =
  trie_get_one :: "'tr \<Rightarrow> h256 \<Rightarrow> h256 \<Rightarrow> unit + staked_state option"
  trie_insert_one :: "'tr \<Rightarrow> h256 option \<Rightarrow> h256 \<Rightarrow> staked_state \<Rightarrow> unit + h256 \<times> 'tr"
  trie_insert :: "'tr \<Rightarrow> h256 option \<Rightarrow> h256 list \<Rightarrow> staked_state list \<Rightarrow> unit + h256 \<times> 'tr"

text \<open>
  Inserting under a root yields a new root that differs from the old one in the
  inserted key only; what was readable under an existing root stays readable.
\<close>

definition trie_laws :: "'tr trie \<Rightarrow> bool" where
  "trie_laws T \<longleftrightarrow>
     (\<forall>t r k a r' t'. trie_insert_one T t (Some r) k a = Ok (r', t') \<longrightarrow>
        trie_get_one T t' r' k = Ok (Some a) \<and>
        (\<forall>k'. k' \<noteq> k \<longrightarrow> trie_get_one T t' r' k' = trie_get_one T t r k')) \<and>
     (\<forall>t r k a r' t' r0 k0 a0. trie_insert_one T t (Some r) k a = Ok (r', t') \<longrightarrow>
        r0 \<noteq> r' \<longrightarrow> trie_get_one T t r0 k0 = Ok (Some a0) \<longrightarrow> trie_get_one T t' r0 k0 = Ok (Some a0))"

definition get_account :: "(bytes \<Rightarrow> h256) \<Rightarrow> 'tr trie \<Rightarrow> staked_address \<Rightarrow> h256 \<Rightarrow> 'tr \<Rightarrow> error + staked_state" where
  "get_account blake T account_address last_root accounts =
     (case trie_get_one T accounts last_root (to_stake_key blake account_address) of
        Inl e \<Rightarrow> Err IoError
      | Inr None \<Rightarrow> Err AccountNotFound
      | Inr (Some a) \<Rightarrow> Ok a)"

definition update_account :: "(bytes \<Rightarrow> h256) \<Rightarrow> 'tr trie \<Rightarrow> staked_state \<Rightarrow> h256 \<Rightarrow> 'tr \<Rightarrow> (h256 \<times> staked_state option \<times> 'tr) run" where
  "update_account blake T account account_root_hash accounts =
     run_bind (expect (trie_insert_one T accounts (Some account_root_hash)
         (to_stake_key blake (ss_address account)) account) ''update account'')
       (\<lambda>(root, accounts'). Done (root, Some account, accounts'))"

section \<open>Spent outputs\<close>

fun check_spent_input_lookup ::
    "'bv bitvec \<Rightarrow> 'db kvdb \<Rightarrow> 'db \<Rightarrow> txo_pointer list \<Rightarrow> error + unit" where
  "check_spent_input_lookup B K db [] = Err NoInputs"
| "check_spent_input_lookup B K db (txin # rest) =
     (case db_get K db COL_TX_META (txo_id txin) of
        Inl e \<Rightarrow> Err IoError
      | Inr None \<Rightarrow> Err InvalidInput
      | Inr (Some v) \<Rightarrow>
          (case bv_get B (bv_from_bytes B v) (unat (txo_index txin)) of
             None \<Rightarrow> Err InvalidInput
           | Some b \<Rightarrow> if b then Err InputSpent
               else if rest = [] then Ok () else check_spent_input_lookup B K db rest))"

definition spend_step ::
    "'bv bitvec \<Rightarrow> 'db kvdb \<Rightarrow> 'db \<Rightarrow> (txid, 'bv) btm \<Rightarrow> txo_pointer \<Rightarrow> (txid, 'bv) btm run" where
  "spend_step B K db updated_txs txin =
     run_bind (case bm_get updated_txs (txo_id txin) of
         Some bv \<Rightarrow> Done bv
       | None \<Rightarrow> run_bind (expect (db_get K db COL_TX_META (txo_id txin)) ''unwrap'') (\<lambda>mv.
           run_bind (expect_opt mv ''unwrap'') (\<lambda>v. Done (bv_from_bytes B v)))) (\<lambda>bv.
     run_bind (bv_set B bv (unat (txo_index txin)) True) (\<lambda>bv'.
     Done (bm_insert (txo_id txin) bv' updated_txs)))"

fun spend_loop ::
    "'bv bitvec \<Rightarrow> 'db kvdb \<Rightarrow> 'db \<Rightarrow> (txid, 'bv) btm \<Rightarrow> txo_pointer list \<Rightarrow> (txid, 'bv) btm run" where
  "spend_loop B K db m [] = Done m"
| "spend_loop B K db m (txin # rest) = run_bind (spend_step B K db m txin) (\<lambda>m'. spend_loop B K db m' rest)"

definition spend_utxos ::
    "'bv bitvec \<Rightarrow> 'db kvdb \<Rightarrow> txo_pointer list \<Rightarrow> 'db \<Rightarrow> dbtx \<Rightarrow> dbtx run" where
  "spend_utxos B K txins db t = run_bind (spend_loop B K db bm_new txins) (\<lambda>updated_txs.
     Done (foldl (\<lambda>t (i, bv). dbtx_put COL_TX_META i (bv_to_bytes B bv) t) t updated_txs))"

definition update_utxos_commit ::
    "'bv bitvec \<Rightarrow> 'db kvdb \<Rightarrow> txo_pointer list \<Rightarrow> u16 \<Rightarrow> txid \<Rightarrow> 'db \<Rightarrow> dbtx \<Rightarrow> dbtx run" where
  "update_utxos_commit B K inputs no_of_outputs i db t = run_bind (spend_utxos B K inputs db t) (\<lambda>t'.
     Done (dbtx_put COL_TX_META i (bv_to_bytes B (bv_from_elem B (unat no_of_outputs) False)) t'))"

section \<open>The abstract view\<close>

definition meta_bits :: "'db kvdb \<Rightarrow> 'db \<Rightarrow> txid \<Rightarrow> bool list option" where
  "meta_bits K db i = (case db_get K db COL_TX_META i of
     Inr (Some v) \<Rightarrow> Some (bits_of_bytes v) | _ \<Rightarrow> None)"

text \<open>An output is recorded, and it is recorded as spent.\<close>

definition recorded :: "'db kvdb \<Rightarrow> 'db \<Rightarrow> txo_pointer \<Rightarrow> bool" where
  "recorded K db p \<longleftrightarrow> (\<exists>bs. meta_bits K db (txo_id p) = Some bs \<and> unat (txo_index p) < length bs)"

definition spent :: "'db kvdb \<Rightarrow> 'db \<Rightarrow> txo_pointer \<Rightarrow> bool" where
  "spent K db p \<longleftrightarrow> (\<exists>bs. meta_bits K db (txo_id p) = Some bs \<and> unat (txo_index p) < length bs \<and>
     bs ! unat (txo_index p))"

lemma check_spent_Ok_iff:
  assumes "bitvec_laws B"
  shows "check_spent_input_lookup B K db ins = Ok () \<longleftrightarrow>
    ins \<noteq> [] \<and> (\<forall>p \<in> set ins. recorded K db p \<and> \<not> spent K db p)"
proof (induction ins)
  case (Cons p ins)
  have "recorded K db p \<and> \<not> spent K db p \<longleftrightarrow>
      (\<exists>v. db_get K db COL_TX_META (txo_id p) = Ok (Some v) \<and>
        bv_get B (bv_from_bytes B v) (unat (txo_index p)) = Some False)"
    by (auto simp: recorded_def spent_def meta_bits_def bv_get_iter [OF assms] bv_len_def
        bv_iter_from_bytes [OF assms] split: sum.splits option.splits if_splits)
  with Cons show ?case by (auto split: sum.splits option.splits if_splits)
qed simp

lemma check_spent_detects:
  assumes "bitvec_laws B" "\<forall>q \<in> set ins. recorded K db q" "p \<in> set ins" "spent K db p"
  shows "check_spent_input_lookup B K db ins = Err InputSpent"
  using assms(2-4)
proof (induction ins)
  case (Cons q ins)
  then obtain v where v: "db_get K db COL_TX_META (txo_id q) = Ok (Some v)"
      "unat (txo_index q) < length (bits_of_bytes v)"
    by (auto simp: recorded_def meta_bits_def split: sum.splits option.splits)
  then have g: "bv_get B (bv_from_bytes B v) (unat (txo_index q)) = Some (bits_of_bytes v ! unat (txo_index q))"
    by (simp add: bv_get_iter [OF assms(1)] bv_len_def bv_iter_from_bytes [OF assms(1)])
  show ?case
  proof (cases "spent K db q")
    case True
    with v g show ?thesis by (auto simp: spent_def meta_bits_def)
  next
    case False
    with Cons.prems have "p \<in> set ins" by auto
    moreover from False v have "\<not> bits_of_bytes v ! unat (txo_index q)"
      by (auto simp: spent_def meta_bits_def)
    ultimately show ?thesis using Cons v g by auto
  qed
qed simp

section \<open>Marking outputs as spent\<close>

text \<open>The bits of a transaction after marking the inputs \<open>ps\<close>.\<close>

definition marked :: "txid \<Rightarrow> txo_pointer list \<Rightarrow> bool list \<Rightarrow> bool list" where
  "marked i ps bs = foldl (\<lambda>bs p. if txo_id p = i then bs[unat (txo_index p) := True] else bs) bs ps"

lemma length_marked [simp]: "length (marked i ps bs) = length bs"
  by (induction ps arbitrary: bs) (auto simp: marked_def)

lemma marked_snoc:
  "marked i (ps @ [p]) bs = (if txo_id p = i then (marked i ps bs)[unat (txo_index p) := True] else marked i ps bs)"
  by (simp add: marked_def)

lemma marked_nth:
  "n < length bs \<Longrightarrow> marked i ps bs ! n \<longleftrightarrow> bs ! n \<or> (\<exists>p \<in> set ps. txo_id p = i \<and> unat (txo_index p) = n)"
proof (induction ps rule: rev_induct)
  case Nil
  then show ?case by (simp add: marked_def)
next
  case (snoc p ps)
  then show ?case by (cases "unat (txo_index p) = n") (auto simp: marked_snoc)
qed

lemma marked_other: "i \<notin> txo_id ` set ps \<Longrightarrow> marked i ps bs = bs"
  by (induction ps rule: rev_induct) (auto simp: marked_snoc, simp add: marked_def)

definition spend_inv :: "'bv bitvec \<Rightarrow> 'db kvdb \<Rightarrow> 'db \<Rightarrow> txo_pointer list \<Rightarrow> (txid, 'bv) btm \<Rightarrow> bool" where
  "spend_inv B K db ps m \<longleftrightarrow> bm_wf m \<and>
     (\<forall>i. bm_get m i = None \<longleftrightarrow> i \<notin> txo_id ` set ps) \<and>
     (\<forall>i bv. bm_get m i = Some bv \<longrightarrow> (\<exists>bs. meta_bits K db i = Some bs \<and> bv_iter B bv = marked i ps bs))"

lemma spend_step_inv:
  assumes laws: "bitvec_laws B" and inv: "spend_inv B K db ps m" and rec: "recorded K db p"
  shows "\<exists>m'. spend_step B K db m p = Done m' \<and> spend_inv B K db (ps @ [p]) m'"
proof -
  obtain bs where bs: "meta_bits K db (txo_id p) = Some bs" "unat (txo_index p) < length bs"
    using rec by (auto simp: recorded_def)
  then obtain v where v: "db_get K db COL_TX_META (txo_id p) = Ok (Some v)" "bs = bits_of_bytes v"
    by (auto simp: meta_bits_def split: sum.splits option.splits)
  obtain bv where bv: "bv_iter B bv = marked (txo_id p) ps bs"
      "spend_step B K db m p = run_bind (bv_set B bv (unat (txo_index p)) True)
         (\<lambda>bv'. Done (bm_insert (txo_id p) bv' m))"
  proof (cases "bm_get m (txo_id p)")
    case None
    then have "txo_id p \<notin> txo_id ` set ps" using inv by (simp add: spend_inv_def)
    then have "marked (txo_id p) ps bs = bs" by (rule marked_other)
    with None v that [of "bv_from_bytes B v"] show ?thesis
      by (simp add: spend_step_def bv_iter_from_bytes [OF laws])
  next
    case (Some bv)
    with inv bs(1) have "bv_iter B bv = marked (txo_id p) ps bs"
      unfolding spend_inv_def by (metis option.inject)
    with Some that [of bv] show ?thesis by (simp add: spend_step_def)
  qed
  then obtain bv' where bv': "bv_set B bv (unat (txo_index p)) True = Done bv'"
      "bv_iter B bv' = marked (txo_id p) (ps @ [p]) bs"
    using bv_set_Done [OF laws, of "unat (txo_index p)" bv True] bs(2)
    by (auto simp: bv_len_def marked_snoc)
  have wf: "bm_wf m" using inv by (simp add: spend_inv_def)
  have "spend_inv B K db (ps @ [p]) (bm_insert (txo_id p) bv' m)"
    unfolding spend_inv_def
  proof (intro conjI allI impI)
    fix i
    show "bm_wf (bm_insert (txo_id p) bv' m)" using wf by (rule btm.inv_ins)
    show "bm_get (bm_insert (txo_id p) bv' m) i = None \<longleftrightarrow> i \<notin> txo_id ` set (ps @ [p])"
      using inv by (auto simp: spend_inv_def bm_get_insert [OF wf])
    fix w
    assume "bm_get (bm_insert (txo_id p) bv' m) i = Some w"
    with inv bs(1) bv'(2) show "\<exists>bs. meta_bits K db i = Some bs \<and> bv_iter B w = marked i (ps @ [p]) bs"
      by (cases "i = txo_id p") (auto simp: spend_inv_def bm_get_insert [OF wf] marked_snoc)
  qed
  with bv(2) bv'(1) show ?thesis by simp
qed

lemma spend_loop_inv:
  assumes "bitvec_laws B" "spend_inv B K db ps m" "\<forall>p \<in> set qs. recorded K db p"
  shows "\<exists>m'. spend_loop B K db m qs = Done m' \<and> spend_inv B K db (ps @ qs) m'"
  using assms(2,3)
proof (induction qs arbitrary: ps m)
  case (Cons p qs)
  then obtain m' where m': "spend_step B K db m p = Done m'" "spend_inv B K db (ps @ [p]) m'"
    using spend_step_inv [OF assms(1)] by (metis list.set_intros(1))
  from Cons.IH [OF m'(2)] Cons.prems(2) m'(1) show ?case by simp
qed simp

lemma foldl_put:
  "foldl (\<lambda>t (i, bv). dbtx_put c i (f bv) t) t m = t @ map (\<lambda>(i, bv). ((c, i), f bv)) m"
  by (induction m arbitrary: t) (auto simp: dbtx_put_def)

lemma map_of_meta_puts:
  "map_of (map (\<lambda>(i, bv). ((COL_TX_META, i), f bv)) m) (c, k) =
     (if c = COL_TX_META then map_option f (map_of m k) else None)"
  by (induction m) auto

lemma map_of_rev_distinct: "distinct (map fst m) \<Longrightarrow> map_of (rev m) = map_of m"
  by (metis distinct_rev map_of_inject_set rev_map set_rev)

text \<open>What the writes of \<open>spend_utxos\<close> do to the store.\<close>

lemma spend_utxos_store:
  assumes laws: "bitvec_laws B" "kvdb_laws K" and rec: "\<forall>p \<in> set ins. recorded K db p"
  shows "\<exists>ws. spend_utxos B K ins db t = Done (t @ ws) \<and>
    (\<forall>c k. c \<noteq> COL_TX_META \<longrightarrow> map_of (rev ws) (c, k) = None) \<and>
    (\<forall>i. map_of (rev ws) (COL_TX_META, i) = None \<longleftrightarrow> i \<notin> txo_id ` set ins) \<and>
    (\<forall>i. meta_bits K (db_write_buffered K db ws) i =
       (case meta_bits K db i of None \<Rightarrow> None | Some bs \<Rightarrow> Some (marked i ins bs)))"
proof -
  have "spend_inv B K db [] bm_new" by (simp add: spend_inv_def)
  from spend_loop_inv [OF laws(1) this rec] obtain m where
    m: "spend_loop B K db bm_new ins = Done m" "spend_inv B K db ins m" by auto
  let ?ws = "map (\<lambda>(i, bv). ((COL_TX_META, i), bv_to_bytes B bv)) m"
  have wf: "bm_wf m" using m(2) by (simp add: spend_inv_def)
  have rv: "map_of (rev ?ws) (c, k) = (if c = COL_TX_META then map_option (bv_to_bytes B) (bm_get m k) else None)"
    for c k
  proof -
    have "rev ?ws = map (\<lambda>(i, bv). ((COL_TX_META, i), bv_to_bytes B bv)) (rev m)" by (simp add: rev_map)
    moreover have "map_of (rev m) k = bm_get m k"
      using map_of_rev_distinct [OF btm.entries_distinct [OF wf]] by (simp add: bm_get_def)
    ultimately show ?thesis by (simp add: map_of_meta_puts del: rev_map)
  qed
  have "meta_bits K (db_write_buffered K db ?ws) i =
      (case meta_bits K db i of None \<Rightarrow> None | Some bs \<Rightarrow> Some (marked i ins bs))" for i
  proof (cases "bm_get m i")
    case None
    then have "meta_bits K (db_write_buffered K db ?ws) i = meta_bits K db i"
      using laws(2) rv [of COL_TX_META i] by (simp add: meta_bits_def kvdb_laws_def)
    moreover have "i \<notin> txo_id ` set ins" using None m(2) by (simp add: spend_inv_def)
    then have "marked i ins bs = bs" for bs by (rule marked_other)
    ultimately show ?thesis by (simp split: option.splits)
  next
    case (Some bv)
    then obtain bs where bs: "meta_bits K db i = Some bs" "bv_iter B bv = marked i ins bs"
      using m(2) unfolding spend_inv_def by blast
    obtain v where "bs = bits_of_bytes v"
      using bs(1) by (auto simp: meta_bits_def split: sum.splits option.splits)
    then have "length (marked i ins bs) = 8 * length v" by simp
    from bits_bytes_roundtrip_full [OF this]
    have "bits_of_bytes (bv_to_bytes B bv) = marked i ins bs"
      by (simp add: bv_to_bytes_iter [OF laws(1)] bs(2))
    then show ?thesis
      using laws(2) rv [of COL_TX_META i] Some bs(1) by (simp add: meta_bits_def kvdb_laws_def)
  qed
  moreover have "spend_utxos B K ins db t = Done (t @ ?ws)"
    using m(1) by (simp add: spend_utxos_def foldl_put)
  moreover have "\<forall>i. map_of (rev ?ws) (COL_TX_META, i) = None \<longleftrightarrow> i \<notin> txo_id ` set ins"
    using rv m(2) by (simp add: spend_inv_def)
  moreover have "\<forall>c k. c \<noteq> COL_TX_META \<longrightarrow> map_of (rev ?ws) (c, k) = None" using rv by simp
  ultimately show ?thesis by (intro exI [of _ ?ws]) blast
qed

lemma spend_utxos_spent:
  assumes "meta_bits K db' (txo_id p) =
      (case meta_bits K db (txo_id p) of None \<Rightarrow> None | Some bs \<Rightarrow> Some (marked (txo_id p) ins bs))"
    and "\<forall>q \<in> set ins. recorded K db q"
  shows "spent K db' p \<longleftrightarrow> spent K db p \<or> p \<in> set ins" and "recorded K db' p \<longleftrightarrow> recorded K db p"
proof -
  have "q = p" if "txo_id q = txo_id p" "unat (txo_index q) = unat (txo_index p)" for q :: txo_pointer
    using that by (cases q; cases p) (simp add: word_unat_eq_iff)
  then have eq: "(\<exists>q \<in> set ins. txo_id q = txo_id p \<and> unat (txo_index q) = unat (txo_index p)) \<longleftrightarrow> p \<in> set ins"
    by blast
  show "recorded K db' p \<longleftrightarrow> recorded K db p"
    using assms(1) by (auto simp: recorded_def split: option.splits)
  have "spent K db' p \<longleftrightarrow> recorded K db p \<and> (spent K db p \<or> p \<in> set ins)"
    using assms(1) eq by (auto simp: spent_def recorded_def marked_nth split: option.splits)
  then show "spent K db' p \<longleftrightarrow> spent K db p \<or> p \<in> set ins"
    using assms(2) by (auto simp: spent_def recorded_def)
qed

lemma spend_utxos_effect:
  assumes "bitvec_laws B" "kvdb_laws K" and rec: "\<forall>p \<in> set ins. recorded K db p"
  shows "\<exists>t. spend_utxos B K ins db [] = Done t \<and>
    (\<forall>p. spent K (db_write_buffered K db t) p \<longleftrightarrow> spent K db p \<or> p \<in> set ins) \<and>
    (\<forall>p. recorded K (db_write_buffered K db t) p \<longleftrightarrow> recorded K db p)"
proof -
  obtain t where t: "spend_utxos B K ins db [] = Done t"
      "\<And>i. meta_bits K (db_write_buffered K db t) i =
        (case meta_bits K db i of None \<Rightarrow> None | Some bs \<Rightarrow> Some (marked i ins bs))"
    using spend_utxos_store [OF assms(1,2) rec, of "[]"] by auto
  then show ?thesis using spend_utxos_spent [OF t(2) rec] by blast
qed

section \<open>Properties\<close>

text \<open>
  C2: No double spending at the storage level.  If the inputs of a transaction pass
  the lookup, marking them never panics, and in the store after the write exactly
  these outputs are spent in addition to those spent before, every other recorded
  output keeps its state, and any later transaction over recorded outputs that
  contains one of the inputs is rejected with \<open>InputSpent\<close>.
\<close>

theorem spend_utxos_no_double_spend:
  assumes "bitvec_laws B" "kvdb_laws K" "check_spent_input_lookup B K db ins = Ok ()"
  shows "\<exists>t. spend_utxos B K ins db [] = Done t \<and>
    (\<forall>p. spent K (db_write_buffered K db t) p \<longleftrightarrow> spent K db p \<or> p \<in> set ins) \<and>
    (\<forall>p. recorded K (db_write_buffered K db t) p \<longleftrightarrow> recorded K db p) \<and>
    (\<forall>later p. p \<in> set ins \<and> p \<in> set later \<and> list_all (recorded K db) later \<longrightarrow>
       check_spent_input_lookup B K (db_write_buffered K db t) later = Err InputSpent)"
proof -
  have "\<forall>p \<in> set ins. recorded K db p" using assms(3) by (simp add: check_spent_Ok_iff [OF assms(1)])
  from spend_utxos_effect [OF assms(1,2) this] obtain t where t: "spend_utxos B K ins db [] = Done t"
      "\<And>p. spent K (db_write_buffered K db t) p \<longleftrightarrow> spent K db p \<or> p \<in> set ins"
      "\<And>p. recorded K (db_write_buffered K db t) p \<longleftrightarrow> recorded K db p" by blast
  have "check_spent_input_lookup B K (db_write_buffered K db t) later = Err InputSpent"
    if "p \<in> set ins" "p \<in> set later" "list_all (recorded K db) later" for later p
    using that t(2,3) check_spent_detects [OF assms(1)] by (metis list_all_iff)
  with t show ?thesis by blast
qed

lemma zero_bits_nth:
  assumes "k < length (bits_of_bytes (bytes_of_bits (replicate n False)))"
  shows "\<not> bits_of_bytes (bytes_of_bits (replicate n False)) ! k"
proof -
  obtain m where "bits_of_bytes (bytes_of_bits (replicate n False)) = replicate n False @ replicate m False"
    using bits_bytes_pad by blast
  then have "bits_of_bytes (bytes_of_bits (replicate n False)) = replicate (n + m) False"
    by (simp add: replicate_add)
  with assms show ?thesis by simp
qed

section \<open>Concrete instances\<close>

definition map_kvdb :: "(column \<times> bytes \<Rightarrow> bytes option) kvdb" where
  "map_kvdb = \<lparr>db_get = \<lambda>m c k. Ok (m (c, k)), db_write = \<lambda>m t. Ok (m ++ map_of (rev t)),
     db_write_buffered = \<lambda>m t. m ++ map_of (rev t)\<rparr>"

lemma map_kvdb_laws: "kvdb_laws map_kvdb"
  by (auto simp: kvdb_laws_def map_kvdb_def map_add_def split: option.splits)

text \<open>A trie that keeps the contents under every root; the roots are numbered in unary.\<close>

definition map_trie :: "((h256 \<Rightarrow> h256 \<Rightarrow> staked_state option) \<times> nat) trie" where
  "map_trie = \<lparr>trie_get_one = \<lambda>(f, n) r k. Ok (f r k),
     trie_insert_one = \<lambda>(f, n) r k a. let r' = replicate (n + 1) 0 in
       Ok (r', f(r' := (case r of None \<Rightarrow> Map.empty | Some r0 \<Rightarrow> f r0)(k \<mapsto> a)), n + 1),
     trie_insert = \<lambda>(f, n) r ks as. let r' = replicate (n + 1) 0 in
       Ok (r', f(r' := (case r of None \<Rightarrow> Map.empty | Some r0 \<Rightarrow> f r0) ++ map_of (zip ks as)), n + 1)\<rparr>"

lemma map_trie_laws: "trie_laws map_trie"
  by (auto simp: trie_laws_def map_trie_def Let_def)

definition sample_db :: "column \<times> bytes \<Rightarrow> bytes option" where
  "sample_db = [(COL_TX_META, [1]) \<mapsto> [0]]"

definition sample_pointer :: txo_pointer where
  "sample_pointer = \<lparr>txo_id = [1], txo_index = 2\<rparr>"

lemma sample_lookup_ok: "check_spent_input_lookup list_bitvec map_kvdb sample_db [sample_pointer] = Ok ()"
  by (simp add: map_kvdb_def sample_db_def sample_pointer_def list_bitvec_def bits_of_bytes_def byte_bits_def)

theorem spend_utxos_no_double_spend_witness:
  "\<exists>t. spend_utxos list_bitvec map_kvdb [sample_pointer] sample_db [] = Done t \<and>
     check_spent_input_lookup list_bitvec map_kvdb (db_write_buffered map_kvdb sample_db t) [sample_pointer] = Err InputSpent"
proof -
  have rec: "list_all (recorded map_kvdb sample_db) [sample_pointer]"
    using sample_lookup_ok [unfolded check_spent_Ok_iff [OF list_bitvec_laws]] by simp
  obtain t where t: "spend_utxos list_bitvec map_kvdb [sample_pointer] sample_db [] = Done t"
      "\<forall>later p. p \<in> set [sample_pointer] \<and> p \<in> set later \<and> list_all (recorded map_kvdb sample_db) later \<longrightarrow>
         check_spent_input_lookup list_bitvec map_kvdb (db_write_buffered map_kvdb sample_db t) later = Err InputSpent"
    using spend_utxos_no_double_spend [OF list_bitvec_laws map_kvdb_laws sample_lookup_ok] by blast
  from t(2) [rule_format, of sample_pointer "[sample_pointer]"] rec
  have "check_spent_input_lookup list_bitvec map_kvdb (db_write_buffered map_kvdb sample_db t) [sample_pointer] = Err InputSpent"
    by (simp only: list.set_intros simp_thms)
  with t(1) show ?thesis by blast
qed

end
