(* ===== verification/Validator_Updates.thy ===== *)
theory Validator_Updates
  imports Genesis_Config Punishment_State
begin

text \<open>
  The validator state of the node (\<open>ValidatorState\<close> and \<open>ChainNodeState\<close> of
  chain-abci/src/app/app_init.rs) and the computation of validator set changes at
  the end of a block (\<open>get_validator_updates\<close> of chain-abci/src/app/end_block.rs):
  the index of council nodes is updated with the powers that changed, the nodes
  with the highest power form the new set, and the consensus engine is sent the
  difference.  The main results are that the routine, on a consistent index, computes
  the set an abstract specification prescribes and reports exactly the difference,
  and an exact description of the blocks on which it panics.
\<close>

section \<open>State\<close>

type_synonym node_index = "(vote_power \<times> staked_address, council_node) btm"
type_synonym power_map = "(staked_address, vote_power) btm"

record 'bv validator_state =
  council_nodes_by_power :: node_index
  tendermint_validator_addresses :: "(tm_address, staked_address) btm"
  vs_punishment :: "'bv validator_punishment"

record chain_state =
  account_root :: h256
  rewards_pool :: rewards_pool_state
  network_params :: network_parameters

record 'bv chain_node_state =
  last_block_height :: block_height
  last_apphash :: h256
  block_time :: timespec
  proposer_stats :: "(staked_address, u64) btm"
  validators :: "'bv validator_state"
  genesis_time :: timespec
  top_level :: chain_state

record validator_update =
  vu_power :: int
  vu_pub_key :: "string \<times> bytes"

definition get_validator_key :: "council_node \<Rightarrow> string \<times> bytes" where
  "get_validator_key node = to_validator_update (consensus_pubkey node)"

definition add_validator_for_tracking ::
    "'bv bitvec \<Rightarrow> tm_address \<Rightarrow> staked_address \<Rightarrow> u16 \<Rightarrow> 'bv validator_state \<Rightarrow> 'bv validator_state" where
  "add_validator_for_tracking B validator_address staking_address window s =
     (let p = vs_punishment s in
      if bm_contains (validator_liveness p) validator_address then s
      else s\<lparr>tendermint_validator_addresses :=
               bm_insert validator_address staking_address (tendermint_validator_addresses s),
             vs_punishment := p\<lparr>validator_liveness :=
               bm_insert validator_address (tracker_new B window) (validator_liveness p)\<rparr>\<rparr>)"

definition remove_validator_from_tracking :: "tm_address \<Rightarrow> 'bv validator_state \<Rightarrow> 'bv validator_state" where
  "remove_validator_from_tracking tendermint_address s =
     (let p = vs_punishment s in
      s\<lparr>vs_punishment := p\<lparr>validator_liveness := bm_remove tendermint_address (validator_liveness p)\<rparr>\<rparr>)"

section \<open>The computation of the updates\<close>

definition power_or_zero :: "power_map \<Rightarrow> staked_address \<Rightarrow> vote_power" where
  "power_or_zero vp a = (case bm_get vp a of Some p \<Rightarrow> p | None \<Rightarrow> vote_power_zero)"

text \<open>Step 1: one changed power enters the index.\<close>

definition index_step ::
    "power_map \<Rightarrow> (staked_address, council_node) btm \<Rightarrow> staked_address \<times> vote_power \<Rightarrow> node_index \<Rightarrow> node_index run" where
  "index_step vp new_nodes c idx = (case c of (address, new_power) \<Rightarrow>
     let old_power = power_or_zero vp address in
     if old_power = new_power then Done idx
     else run_bind (case bm_get idx (old_power, address) of
         Some node \<Rightarrow> Done node
       | None \<Rightarrow> expect_opt (bm_get new_nodes address) ''no entry found for key'') (\<lambda>node.
       Done (bm_insert (new_power, address) node (bm_remove (old_power, address) idx))))"

fun update_index ::
    "power_map \<Rightarrow> (staked_address, council_node) btm \<Rightarrow> (staked_address \<times> vote_power) list \<Rightarrow> node_index \<Rightarrow> node_index run" where
  "update_index vp new_nodes [] idx = Done idx"
| "update_index vp new_nodes (c # cs) idx =
     run_bind (index_step vp new_nodes c idx) (update_index vp new_nodes cs)"

text \<open>
  Step 2: one node of the future validator set.  The state is the voting power
  map, the remaining validators, the updates and the validators to track.
\<close>

type_synonym select_state =
  "power_map \<times> power_map \<times> validator_update list \<times> (tm_address \<times> staked_address) list"

definition select_step ::
    "(bytes \<Rightarrow> bytes) \<Rightarrow> (tm_address, 'l) btm \<Rightarrow> (vote_power \<times> staked_address) \<times> council_node \<Rightarrow>
     select_state \<Rightarrow> select_state" where
  "select_step sha lives e s = (case (e, s) of (((voting_power, address), node), (vp, remaining, updates, to_track)) \<Rightarrow>
     let (remaining', create_update) = (case bm_get vp address of
         Some p \<Rightarrow>
           if p = voting_power then (bm_remove address remaining, False)
           else if voting_power > vote_power_zero then (bm_remove address remaining, True)
           else (bm_insert address voting_power remaining, False)
       | None \<Rightarrow> (remaining, voting_power > vote_power_zero))
     in if create_update then
          (let validator_address = tm_address_of_pubkey sha (consensus_pubkey node) in
           (bm_insert address voting_power vp, remaining',
            updates @ [\<lparr>vu_power = vp_int voting_power, vu_pub_key = get_validator_key node\<rparr>],
            if bm_contains lives validator_address then to_track
            else to_track @ [(validator_address, address)]))
        else (vp, remaining', updates, to_track))"

text \<open>Step 3: one validator that leaves the set.\<close>

definition remove_step ::
    "(bytes \<Rightarrow> bytes) \<Rightarrow> staked_address \<times> vote_power \<Rightarrow>
     'bv validator_state \<times> power_map \<times> validator_update list \<Rightarrow>
     ('bv validator_state \<times> power_map \<times> validator_update list) run" where
  "remove_step sha r s = (case (r, s) of ((address, voting_power), (vs, vp, updates)) \<Rightarrow>
     run_bind (case bm_get (council_nodes_by_power vs) (voting_power, address) of
         Some node \<Rightarrow> Done node
       | None \<Rightarrow> expect_opt (bm_get (council_nodes_by_power vs) (vote_power_zero, address))
           ''no entry found for key'') (\<lambda>node.
     Done (remove_validator_from_tracking (tm_address_of_pubkey sha (consensus_pubkey node)) vs,
       bm_remove address vp,
       updates @ [\<lparr>vu_power = 0, vu_pub_key = get_validator_key node\<rparr>])))"

fun remove_validators ::
    "(bytes \<Rightarrow> bytes) \<Rightarrow> (staked_address \<times> vote_power) list \<Rightarrow>
     'bv validator_state \<times> power_map \<times> validator_update list \<Rightarrow>
     ('bv validator_state \<times> power_map \<times> validator_update list) run" where
  "remove_validators sha [] s = Done s"
| "remove_validators sha (r # rs) s = run_bind (remove_step sha r s) (remove_validators sha rs)"

text \<open>
  The whole routine.  The list of validators to track is popped from its end.
\<close>

definition get_validator_updates ::
    "'bv bitvec \<Rightarrow> (bytes \<Rightarrow> bytes) \<Rightarrow> 'bv chain_node_state \<Rightarrow> power_map \<Rightarrow> power_map \<Rightarrow>
     (staked_address, council_node) btm \<Rightarrow>
     ('bv chain_node_state \<times> power_map \<times> validator_update list) run" where
  "get_validator_updates B sha last_state vp power_changed new_nodes =
     (let vs = validators last_state; np = network_params (top_level last_state) in
      run_bind (update_index vp new_nodes power_changed (council_nodes_by_power vs)) (\<lambda>idx.
      let (vp2, remaining, updates, to_track) =
            fold (select_step sha (validator_liveness (vs_punishment vs)))
              (take (get_max_validators np) (rev idx)) (vp, vp, [], []);
          vs2 = fold (\<lambda>(v, a). add_validator_for_tracking B v a (get_block_signing_window np))
              (rev to_track) (vs\<lparr>council_nodes_by_power := idx\<rparr>)
      in run_bind (remove_validators sha remaining (vs2, vp2, updates)) (\<lambda>(vs3, vp3, updates3).
      Done (last_state\<lparr>validators := vs3\<rparr>, vp3, updates3))))"

section \<open>Consistency\<close>

text \<open>
  An index is consistent when every address occurs with one power only.  A
  validator set is consistent with an index when each member is listed with its
  power, and this power is positive.
\<close>

definition index_ok :: "node_index \<Rightarrow> bool" where
  "index_ok idx \<longleftrightarrow> bm_wf idx \<and>
     (\<forall>p q a. bm_contains idx (p, a) \<longrightarrow> bm_contains idx (q, a) \<longrightarrow> p = q)"

definition set_ok :: "power_map \<Rightarrow> node_index \<Rightarrow> bool" where
  "set_ok vp idx \<longleftrightarrow> bm_wf vp \<and> index_ok idx \<and>
     (\<forall>a p. bm_get vp a = Some p \<longrightarrow> vote_power_zero < p \<and> bm_contains idx (p, a))"

text \<open>
  The first step looks a changed node up under its power in the set, which is zero
  for a node outside the set.  The record of a node is missing when it is neither
  listed under this power nor one that joined in this block; in particular it is
  missing for a node that is listed with a positive power but has no place in the
  set.
\<close>

definition record_missing ::
    "power_map \<Rightarrow> (staked_address, council_node) btm \<Rightarrow> node_index \<Rightarrow> staked_address \<times> vote_power \<Rightarrow> bool" where
  "record_missing vp new_nodes idx c = (case c of (a, q) \<Rightarrow>
     q \<noteq> power_or_zero vp a \<and> \<not> bm_contains idx (power_or_zero vp a, a) \<and> \<not> bm_contains new_nodes a)"

text \<open>
  The nodes that joined in this block are new when none of them is listed already
  under another power than the one the first step looks for.
\<close>

definition joined_fresh :: "power_map \<Rightarrow> (staked_address, council_node) btm \<Rightarrow> node_index \<Rightarrow> bool" where
  "joined_fresh vp new_nodes idx \<longleftrightarrow>
     (\<forall>p a. bm_contains new_nodes a \<longrightarrow> bm_contains idx (p, a) \<longrightarrow> p = power_or_zero vp a)"

text \<open>The two together make a change harmless for the index.\<close>

definition change_ok ::
    "power_map \<Rightarrow> (staked_address, council_node) btm \<Rightarrow> node_index \<Rightarrow> staked_address \<times> vote_power \<Rightarrow> bool" where
  "change_ok vp new_nodes idx c = (case c of (a, q) \<Rightarrow>
     q = power_or_zero vp a \<or> bm_contains idx (power_or_zero vp a, a) \<or>
     (\<forall>p. \<not> bm_contains idx (p, a)) \<and> bm_contains new_nodes a)"

lemma change_okI:
  assumes "joined_fresh vp new_nodes idx" "\<not> record_missing vp new_nodes idx c"
  shows "change_ok vp new_nodes idx c"
  using assms unfolding joined_fresh_def record_missing_def change_ok_def by (cases c) fastforce

abbreviation index_of :: "'bv chain_node_state \<Rightarrow> node_index" where
  "index_of ls \<equiv> council_nodes_by_power (validators ls)"

abbreviation set_size :: "'bv chain_node_state \<Rightarrow> nat" where
  "set_size ls \<equiv> get_max_validators (network_params (top_level ls))"

text \<open>The specification of the index after the changes, as the set of its keys.\<close>

definition spec_powers :: "power_map \<Rightarrow> power_map \<Rightarrow> node_index \<Rightarrow> (vote_power \<times> staked_address) set" where
  "spec_powers vp changes idx = {(p, a). case bm_get changes a of
      Some q \<Rightarrow> if q = power_or_zero vp a then bm_contains idx (p, a) else p = q
    | None \<Rightarrow> bm_contains idx (p, a)}"

text \<open>The specification of the validator set: positive power, and fewer than \<open>k\<close> stronger nodes.\<close>

definition spec_set :: "nat \<Rightarrow> (vote_power \<times> staked_address) set \<Rightarrow> (vote_power \<times> staked_address) set" where
  "spec_set k S = {x \<in> S. vote_power_zero < fst x \<and> card {y \<in> S. x < y} < k}"

text \<open>
  A member of the set is displaced in the block that changes its power when it keeps
  a power other than zero and at least \<open>k\<close> nodes are stronger after the changes.
\<close>

definition displaced :: "nat \<Rightarrow> power_map \<Rightarrow> power_map \<Rightarrow> node_index \<Rightarrow> staked_address \<times> vote_power \<Rightarrow> bool" where
  "displaced k vp changes idx c = (case c of (a, q) \<Rightarrow>
     bm_get vp a \<noteq> None \<and> bm_get vp a \<noteq> Some q \<and> q \<noteq> vote_power_zero \<and>
     k \<le> card {y \<in> spec_powers vp changes idx. (q, a) < y})"

section \<open>Step 1\<close>

lemma index_step_Done:
  assumes "index_ok idx" "change_ok vp new_nodes idx (a, q)"
  shows "\<exists>idx'. index_step vp new_nodes (a, q) idx = Done idx' \<and> index_ok idx' \<and>
    (\<forall>p b. bm_contains idx' (p, b) \<longleftrightarrow>
      (if b = a \<and> q \<noteq> power_or_zero vp a then p = q else bm_contains idx (p, b)))"
proof (cases "q = power_or_zero vp a")
  case True
  with assms(1) show ?thesis by (simp add: index_step_def)
next
  case False
  let ?old = "power_or_zero vp a"
  have wf: "bm_wf idx" and uniq: "\<And>p r b. bm_contains idx (p, b) \<Longrightarrow> bm_contains idx (r, b) \<Longrightarrow> p = r"
    using assms(1) by (auto simp: index_ok_def)
  obtain n where n: "(case bm_get idx (?old, a) of Some node \<Rightarrow> Done node
      | None \<Rightarrow> expect_opt (bm_get new_nodes a) ''no entry found for key'') = Done n"
    using assms(2) False by (auto simp: change_ok_def bm_contains_def split: option.splits)
  let ?idx = "bm_insert (q, a) n (bm_remove (?old, a) idx)"
  have old: "p = ?old" if "bm_contains idx (p, a)" for p
    using assms(2) False that uniq by (auto simp: change_ok_def)
  have c: "bm_contains ?idx (p, b) \<longleftrightarrow> (if b = a then p = q else bm_contains idx (p, b))" for p b
    using old [of p] wf by (auto simp: bm_contains_insert bm_contains_remove bm_wf_remove)
  have "index_ok ?idx"
    unfolding index_ok_def c using wf uniq by (auto simp: bm_wf_insert bm_wf_remove)
  moreover have "index_step vp new_nodes (a, q) idx = Done ?idx"
    using False n by (simp add: index_step_def)
  ultimately show ?thesis using c False by auto
qed

lemma update_index_Done:
  assumes "index_ok idx" "\<forall>c \<in> set cs. change_ok vp new_nodes idx c" "distinct (map fst cs)"
  shows "\<exists>idx'. update_index vp new_nodes cs idx = Done idx' \<and> index_ok idx' \<and>
    (\<forall>p b. bm_contains idx' (p, b) \<longleftrightarrow> (p, b) \<in> spec_powers vp cs idx)"
  using assms
proof (induction cs arbitrary: idx)
  case Nil
  then show ?case by (simp add: spec_powers_def bm_get_def)
next
  case (Cons c cs)
  obtain a q where c: "c = (a, q)" by fastforce
  obtain idx1 where idx1: "index_step vp new_nodes c idx = Done idx1" "index_ok idx1"
      "\<And>p b. bm_contains idx1 (p, b) \<longleftrightarrow>
        (if b = a \<and> q \<noteq> power_or_zero vp a then p = q else bm_contains idx (p, b))"
    using index_step_Done Cons.prems c by (metis list.set_intros(1))
  have fresh: "a \<notin> fst ` set cs" using Cons.prems(3) c by auto
  have ok: "\<forall>d \<in> set cs. change_ok vp new_nodes idx1 d"
  proof
    fix d
    assume d: "d \<in> set cs"
    obtain b r where br: "d = (b, r)" by fastforce
    then have "b \<noteq> a" using fresh d by (force simp: image_iff)
    then show "change_ok vp new_nodes idx1 d"
      using Cons.prems(2) d idx1(3) br by (auto simp: change_ok_def)
  qed
  obtain idx2 where idx2: "update_index vp new_nodes cs idx1 = Done idx2" "index_ok idx2"
      "\<And>p b. bm_contains idx2 (p, b) \<longleftrightarrow> (p, b) \<in> spec_powers vp cs idx1"
    using Cons.IH [OF idx1(2) ok] Cons.prems(3) by auto
  have "(p, b) \<in> spec_powers vp cs idx1 \<longleftrightarrow> (p, b) \<in> spec_powers vp (c # cs) idx" for p b
  proof (cases "b = a")
    case True
    then have "bm_get cs b = None" using fresh by (simp add: bm_get_def map_of_eq_None_iff)
    with True show ?thesis by (simp add: spec_powers_def bm_get_def c idx1(3))
  next
    case False
    then show ?thesis by (simp add: spec_powers_def bm_get_def c idx1(3) split: option.splits)
  qed
  with idx1(1) idx2 show ?case by auto
qed

text \<open>A change whose record is missing stops the first step, whatever comes before it.\<close>

lemma index_step_other:
  assumes "index_step vp new_nodes (a, q) idx = Done idx'" "bm_wf idx" "b \<noteq> a"
  shows "bm_wf idx'" "bm_contains idx' (p, b) \<longleftrightarrow> bm_contains idx (p, b)"
  using assms
  by (auto simp: index_step_def Let_def run_elims bm_wf_insert bm_wf_remove bm_contains_insert bm_contains_remove
      split: if_splits)

lemma update_index_Panic:
  assumes "bm_wf idx" "distinct (map fst cs)" "c \<in> set cs" "record_missing vp new_nodes idx c"
  shows "\<exists>m. update_index vp new_nodes cs idx = Panic m"
  using assms
proof (induction cs arbitrary: idx)
  case (Cons d cs)
  obtain a q where d: "d = (a, q)" by fastforce
  obtain b r where c: "c = (b, r)" by fastforce
  show ?case
  proof (cases "c = d")
    case True
    with Cons.prems(4) have "index_step vp new_nodes d idx = Panic ''no entry found for key''"
      by (auto simp: d record_missing_def index_step_def bm_contains_def)
    then show ?thesis by simp
  next
    case False
    with Cons.prems(2,3) have ba: "b \<noteq> a" and rest: "c \<in> set cs" "distinct (map fst cs)"
      by (force simp: c d)+
    show ?thesis
    proof (cases "index_step vp new_nodes d idx")
      case (Done idx')
      note other = index_step_other [OF Done [unfolded d] Cons.prems(1) ba]
      have "record_missing vp new_nodes idx' c"
        using Cons.prems(4) by (simp add: c record_missing_def other(2))
      from Cons.IH [OF other(1) rest(2,1) this] Done show ?thesis by simp
    qed simp
  qed
qed simp

section \<open>Step 2\<close>

text \<open>The strongest nodes are the last entries of the index.\<close>

lemma take_rev_sorted:
  fixes xs :: "'a::linorder list"
  assumes "sorted_wrt (<) xs"
  shows "x \<in> set (take k (rev xs)) \<longleftrightarrow> x \<in> set xs \<and> card {y \<in> set xs. x < y} < k"
  using assms
proof (induction xs arbitrary: k rule: rev_induct)
  case (snoc m xs)
  then have lt: "\<forall>y \<in> set xs. y < m" and s: "sorted_wrt (<) xs" by (auto simp: sorted_wrt_append)
  show ?case
  proof (cases k)
    case (Suc j)
    consider "x = m" | "x \<in> set xs" "x < m" | "x \<notin> set xs" "x \<noteq> m" using lt by blast
    then show ?thesis
    proof cases
      case 1
      then have "{y \<in> set (xs @ [m]). x < y} = {}" using lt by auto
      then have "card {y \<in> set (xs @ [m]). x < y} = 0" by (simp only: card.empty)
      moreover have "x \<in> set (take k (rev (xs @ [m])))" "x \<in> set (xs @ [m])" using 1 Suc by simp_all
      ultimately show ?thesis using Suc by (simp only: zero_less_Suc simp_thms)
    next
      case 2
      then have "{y \<in> set (xs @ [m]). x < y} = insert m {y \<in> set xs. x < y}" by auto
      then have "card {y \<in> set (xs @ [m]). x < y} = Suc (card {y \<in> set xs. x < y})"
        using lt by auto
      with 2 Suc snoc.IH [OF s, of j] show ?thesis by auto
    next
      case 3
      with Suc snoc.IH [OF s, of j] show ?thesis by auto
    qed
  qed simp
qed simp

definition entry_power :: "((vote_power \<times> staked_address) \<times> council_node) list \<Rightarrow> staked_address \<Rightarrow> vote_power option" where
  "entry_power xs = map_of (map (\<lambda>((p, a), n). (a, p)) xs)"

definition creates :: "power_map \<Rightarrow> (vote_power \<times> staked_address) \<times> council_node \<Rightarrow> bool" where
  "creates vp e = (case e of ((p, a), n) \<Rightarrow> vote_power_zero < p \<and> bm_get vp a \<noteq> Some p)"

definition update_of :: "(vote_power \<times> staked_address) \<times> council_node \<Rightarrow> validator_update" where
  "update_of e = (case e of ((p, a), n) \<Rightarrow> \<lparr>vu_power = vp_int p, vu_pub_key = get_validator_key n\<rparr>)"

text \<open>What one entry does to the set and to the remaining validators.\<close>

lemma select_step_effect:
  assumes "bm_wf vp" "bm_wf rm" "select_step sha l ((p, a), n) (vp, rm, ups, tr) = (vp', rm', ups', tr')"
  shows "bm_wf vp'" "bm_wf rm'"
    "ups' = ups @ (if creates vp ((p, a), n) then [update_of ((p, a), n)] else [])"
    "bm_get vp' b = (if b = a \<and> vote_power_zero < p then Some p else bm_get vp b)"
    "bm_get rm' b = (if b \<noteq> a \<or> bm_get vp a = None then bm_get rm b
       else if bm_get vp a = Some p \<or> vote_power_zero < p then None else Some p)"
proof -
  have cases: "vp' = (if creates vp ((p, a), n) then bm_insert a p vp else vp)"
    "rm' = (if bm_get vp a = None then rm
       else if bm_get vp a = Some p \<or> vote_power_zero < p then bm_remove a rm else bm_insert a p rm)"
    "ups' = ups @ (if creates vp ((p, a), n) then [update_of ((p, a), n)] else [])"
    using assms(3)
    by (auto simp: select_step_def creates_def update_of_def Let_def split: option.splits if_splits)
  show "bm_wf vp'" "bm_wf rm'" using assms(1,2) cases(1,2) by (auto simp: bm_wf_insert bm_wf_remove)
  show "ups' = ups @ (if creates vp ((p, a), n) then [update_of ((p, a), n)] else [])" by (rule cases(3))
  show "bm_get vp' b = (if b = a \<and> vote_power_zero < p then Some p else bm_get vp b)"
    using assms(1) cases(1) by (auto simp: bm_get_insert creates_def)
  show "bm_get rm' b = (if b \<noteq> a \<or> bm_get vp a = None then bm_get rm b
       else if bm_get vp a = Some p \<or> vote_power_zero < p then None else Some p)"
    using assms(2) cases(2) by (auto simp: bm_get_insert bm_get_remove)
qed

lemma select_fold_effect:
  assumes "bm_wf vp" "bm_wf rm" "distinct (map (snd \<circ> fst) xs)"
    "fold (select_step sha l) xs (vp, rm, ups, tr) = (vp', rm', ups', tr')"
  shows "bm_wf vp' \<and> bm_wf rm' \<and> ups' = ups @ map update_of (filter (creates vp) xs) \<and>
    (\<forall>b. bm_get vp' b = (case entry_power xs b of
        Some p \<Rightarrow> if vote_power_zero < p then Some p else bm_get vp b | None \<Rightarrow> bm_get vp b) \<and>
      bm_get rm' b = (case entry_power xs b of None \<Rightarrow> bm_get rm b | Some p \<Rightarrow>
        if bm_get vp b = None then bm_get rm b
        else if bm_get vp b = Some p \<or> vote_power_zero < p then None else Some p))"
  using assms
proof (induction xs arbitrary: vp rm ups tr)
  case Nil
  then show ?case by (simp add: entry_power_def)
next
  case (Cons x xs)
  obtain p a n where x: "x = ((p, a), n)" by (metis surj_pair)
  obtain vp1 rm1 ups1 tr1 where st: "select_step sha l x (vp, rm, ups, tr) = (vp1, rm1, ups1, tr1)"
    by (metis surj_pair)
  note eff = select_step_effect [OF Cons.prems(1,2) st [unfolded x]]
  have d: "distinct (map (snd \<circ> fst) xs)" and fresh: "a \<notin> (snd \<circ> fst) ` set xs"
    using Cons.prems(3) by (simp_all add: x comp_def)
  have f: "fold (select_step sha l) xs (vp1, rm1, ups1, tr1) = (vp', rm', ups', tr')"
    using Cons.prems(4) st by simp
  note ih = Cons.IH [OF eff(1,2) d f]
  note ihb = ih [THEN conjunct2, THEN conjunct2, THEN conjunct2, rule_format]
  have "creates vp1 y = creates vp y" if "y \<in> set xs" for y
  proof -
    have "snd (fst y) \<noteq> a" using fresh that by force
    then show ?thesis by (cases y) (auto simp: creates_def eff(4))
  qed
  then have fl: "filter (creates vp1) xs = filter (creates vp) xs" by (auto intro: filter_cong)
  have ep: "entry_power (x # xs) b = (if b = a then Some p else entry_power xs b)" for b
    by (simp add: entry_power_def x)
  have none: "entry_power xs a = None"
    using fresh by (force simp: entry_power_def map_of_eq_None_iff)
  have "ups' = ups @ map update_of (filter (creates vp) (x # xs))"
    using ih eff(3) fl by (simp add: x)
  moreover have "bm_get vp' b = (case entry_power (x # xs) b of
      Some p \<Rightarrow> if vote_power_zero < p then Some p else bm_get vp b | None \<Rightarrow> bm_get vp b)" for b
    using conjunct1 [OF ihb [of b]] none by (cases "b = a") (simp_all add: ep eff(4) split: option.splits)
  moreover have "bm_get rm' b = (case entry_power (x # xs) b of None \<Rightarrow> bm_get rm b | Some p \<Rightarrow>
        if bm_get vp b = None then bm_get rm b
        else if bm_get vp b = Some p \<or> vote_power_zero < p then None else Some p)" for b
    using conjunct2 [OF ihb [of b]] none by (cases "b = a") (auto simp: ep eff(4,5) split: option.splits)
  ultimately show ?case using ih by blast
qed

section \<open>Step 3\<close>

definition leaving_node :: "node_index \<Rightarrow> staked_address \<times> vote_power \<Rightarrow> council_node option" where
  "leaving_node idx r = (case r of (a, p) \<Rightarrow>
     case bm_get idx (p, a) of Some n \<Rightarrow> Some n | None \<Rightarrow> bm_get idx (vote_power_zero, a))"

lemma remove_validators_Done:
  assumes "council_nodes_by_power vs = idx" "\<forall>r \<in> set rs. leaving_node idx r \<noteq> None"
  shows "\<exists>vs'. remove_validators sha rs (vs, vp, ups) = Done (vs', fold bm_remove (map fst rs) vp,
      ups @ map (\<lambda>r. \<lparr>vu_power = 0, vu_pub_key = get_validator_key (the (leaving_node idx r))\<rparr>) rs) \<and>
    council_nodes_by_power vs' = idx"
  using assms
proof (induction rs arbitrary: vs vp ups)
  case (Cons r rs)
  obtain a p where r: "r = (a, p)" by fastforce
  obtain n where n: "leaving_node idx r = Some n" using Cons.prems(2) by auto
  let ?vs = "remove_validator_from_tracking (tm_address_of_pubkey sha (consensus_pubkey n)) vs"
  have "remove_step sha r (vs, vp, ups) =
      Done (?vs, bm_remove a vp, ups @ [\<lparr>vu_power = 0, vu_pub_key = get_validator_key n\<rparr>])"
    using n Cons.prems(1) by (auto simp: remove_step_def r leaving_node_def split: option.splits)
  moreover have "council_nodes_by_power ?vs = idx"
    using Cons.prems(1) by (simp add: remove_validator_from_tracking_def Let_def)
  moreover obtain vs' where "remove_validators sha rs (?vs, bm_remove a vp,
        ups @ [\<lparr>vu_power = 0, vu_pub_key = get_validator_key n\<rparr>]) =
      Done (vs', fold bm_remove (map fst rs) (bm_remove a vp),
        (ups @ [\<lparr>vu_power = 0, vu_pub_key = get_validator_key n\<rparr>]) @
        map (\<lambda>r. \<lparr>vu_power = 0, vu_pub_key = get_validator_key (the (leaving_node idx r))\<rparr>) rs)"
      "council_nodes_by_power vs' = idx"
    using Cons.IH [OF calculation(2)] Cons.prems(2) by (metis list.set_intros(2))
  ultimately show ?case using n r by simp
qed simp

lemma remove_validators_Panic:
  assumes "council_nodes_by_power vs = idx" "r \<in> set rs" "leaving_node idx r = None"
  shows "\<exists>m. remove_validators sha rs (vs, vp, ups) = Panic m"
  using assms
proof (induction rs arbitrary: vs vp ups)
  case (Cons e rs)
  show ?case
  proof (cases "remove_step sha e (vs, vp, ups)")
    case (Done s)
    obtain vs' vp' ups' where s: "s = (vs', vp', ups')" by (cases s)
    obtain a p where e: "e = (a, p)" by fastforce
    from Done have kept: "council_nodes_by_power vs' = idx" and "leaving_node idx e \<noteq> None"
      using Cons.prems(1)
      by (auto simp: s e remove_step_def run_elims leaving_node_def remove_validator_from_tracking_def Let_def
          split: option.splits)
    with Cons.prems have "r \<in> set rs" by auto
    from Cons.IH [OF kept this Cons.prems(3)] Done show ?thesis by (simp add: s)
  qed simp
qed simp

lemma tracking_keeps_index:
  "council_nodes_by_power (fold (\<lambda>(v, a). add_validator_for_tracking B v a w) xs vs) = council_nodes_by_power vs"
  by (induction xs arbitrary: vs) (auto simp: add_validator_for_tracking_def Let_def)

section \<open>The new validator set\<close>

lemma in_take_keys:
  assumes "distinct (map fst xs)"
  shows "e \<in> set (take k xs) \<longleftrightarrow> e \<in> set xs \<and> fst e \<in> set (take k (map fst xs))"
proof
  assume e: "e \<in> set xs \<and> fst e \<in> set (take k (map fst xs))"
  then obtain e' where e': "e' \<in> set (take k xs)" "fst e' = fst e" by (auto simp: take_map)
  then have "e' \<in> set xs" by (meson in_set_takeD)
  with e e' assms have "e' = e" by (metis distinct_map inj_onD)
  with e' show "e \<in> set (take k xs)" by simp
qed (auto simp: take_map dest: in_set_takeD)

lemma strongest_entries:
  assumes "bm_wf idx"
  shows "((p, a), n) \<in> set (take k (rev idx)) \<longleftrightarrow>
    bm_get idx (p, a) = Some n \<and> card {y. bm_contains idx y \<and> (p, a) < y} < k"
proof -
  have sorted: "sorted_wrt (<) (map fst idx)" using assms by (simp add: bm_wf_def)
  then have "distinct (map fst (rev idx))" by (simp add: strict_sorted_iff flip: rev_map)
  then have "((p, a), n) \<in> set (take k (rev idx)) \<longleftrightarrow>
      ((p, a), n) \<in> set idx \<and> (p, a) \<in> set (take k (rev (map fst idx)))"
    by (simp add: in_take_keys rev_map)
  also have "\<dots> \<longleftrightarrow> bm_get idx (p, a) = Some n \<and> card {y. bm_contains idx y \<and> (p, a) < y} < k"
    unfolding take_rev_sorted [OF sorted] bm_entries_get [OF assms] set_map bm_contains_keys [symmetric]
    by (auto simp: bm_contains_def)
  finally show ?thesis .
qed

lemma strongest_powers:
  assumes "index_ok idx"
  shows "distinct (map (snd \<circ> fst) (take k (rev idx)))"
    and "entry_power (take k (rev idx)) a = Some p \<longleftrightarrow>
      bm_contains idx (p, a) \<and> card {y. bm_contains idx y \<and> (p, a) < y} < k"
proof -
  let ?top = "take k (rev idx)"
  have wf: "bm_wf idx" and uniq: "\<And>p q a. bm_contains idx (p, a) \<Longrightarrow> bm_contains idx (q, a) \<Longrightarrow> p = q"
    using assms by (auto simp: index_ok_def)
  have "distinct (map fst idx)" using wf by (auto simp: bm_wf_def strict_sorted_iff)
  then have dt: "distinct (map fst ?top)" by (simp flip: take_map rev_map)
  have inj: "inj_on (snd \<circ> fst) (set ?top)"
  proof (rule inj_onI)
    fix x y
    assume xy: "x \<in> set ?top" "y \<in> set ?top" "(snd \<circ> fst) x = (snd \<circ> fst) y"
    then have "bm_contains idx (fst x)" "bm_contains idx (fst y)"
      by (auto simp: bm_contains_keys dest: in_set_takeD)
    with xy(3) uniq have "fst x = fst y" by (metis comp_apply prod.collapse)
    with xy dt show "x = y" by (metis distinct_map inj_onD)
  qed
  moreover have "distinct ?top" using dt by (simp add: distinct_map)
  ultimately show d: "distinct (map (snd \<circ> fst) ?top)" by (simp add: distinct_map)
  have "map fst (map (\<lambda>((p, a), n). (a, p)) ?top) = map (snd \<circ> fst) ?top" by auto
  then have "entry_power ?top a = Some p \<longleftrightarrow> (a, p) \<in> set (map (\<lambda>((p, a), n). (a, p)) ?top)"
    unfolding entry_power_def using d by (metis map_of_eq_Some_iff)
  also have "\<dots> \<longleftrightarrow> (\<exists>n. ((p, a), n) \<in> set ?top)" by force
  finally show "entry_power ?top a = Some p \<longleftrightarrow>
      bm_contains idx (p, a) \<and> card {y. bm_contains idx y \<and> (p, a) < y} < k"
    by (auto simp: strongest_entries [OF wf] bm_contains_def)
qed

text \<open>The part of an index that enters the set, by address.\<close>

definition top_powers :: "nat \<Rightarrow> node_index \<Rightarrow> (vote_power \<times> staked_address) set" where
  "top_powers k idx = {x. bm_contains idx x \<and> card {y. bm_contains idx y \<and> x < y} < k}"

lemma entry_power_top: "index_ok idx \<Longrightarrow> entry_power (take k (rev idx)) a = Some p \<longleftrightarrow> (p, a) \<in> top_powers k idx"
  by (simp add: strongest_powers(2) top_powers_def)

lemma top_powers_unique: "index_ok idx \<Longrightarrow> (p, a) \<in> top_powers k idx \<Longrightarrow> (q, a) \<in> top_powers k idx \<Longrightarrow> p = q"
  by (auto simp: top_powers_def index_ok_def)

text \<open>The selection and the removals together give the new set.\<close>

lemma new_set:
  assumes "index_ok idx" "bm_wf vp" "\<forall>a p. bm_get vp a = Some p \<longrightarrow> vote_power_zero < p"
    and sel: "fold (select_step sha l) (take k (rev idx)) (vp, vp, [], []) = (vp2, rm, ups, tr)"
  defines "vp' \<equiv> fold bm_remove (map fst rm) vp2"
  shows "bm_wf vp'" "bm_wf rm"
    and "bm_get vp' a = Some p \<longleftrightarrow> (p, a) \<in> top_powers k idx \<and> vote_power_zero < p"
    and "bm_get rm a \<noteq> None \<longleftrightarrow> bm_get vp a \<noteq> None \<and> bm_get vp' a = None"
    and "bm_get rm a = Some r \<Longrightarrow> (r, a) \<in> top_powers k idx \<or>
      bm_get vp a = Some r \<and> (\<forall>p. (p, a) \<notin> top_powers k idx)"
    and "ups = map update_of (filter (creates vp) (take k (rev idx)))"
proof -
  let ?e = "entry_power (take k (rev idx))"
  note fx = select_fold_effect [OF assms(2,2) strongest_powers(1) [OF assms(1)] sel]
  note e = entry_power_top [OF assms(1), of k]
  have wf: "bm_wf vp2" "bm_wf rm" and "ups = map update_of (filter (creates vp) (take k (rev idx)))"
    using fx by simp_all
  then show "bm_wf rm" "ups = map update_of (filter (creates vp) (take k (rev idx)))" by simp_all
  show "bm_wf vp'" unfolding vp'_def by (rule btm.inv_fold_del [OF wf(1)])
  note vp2 = fx [THEN conjunct2, THEN conjunct2, THEN conjunct2, rule_format, THEN conjunct1]
  note rm = fx [THEN conjunct2, THEN conjunct2, THEN conjunct2, rule_format, THEN conjunct2]
  have get': "bm_get vp' b = (if bm_get rm b = None then bm_get vp2 b else None)" for b
    unfolding vp'_def by (simp add: btm.get_fold_del [OF wf(1)] bm_contains_keys [symmetric] bm_contains_def)
  show "bm_get vp' a = Some p \<longleftrightarrow> (p, a) \<in> top_powers k idx \<and> vote_power_zero < p"
    using rm [of a] vp2 [of a] get' [of a] assms(3) e [of a p] by (auto split: option.splits if_splits)
  show "bm_get rm a \<noteq> None \<longleftrightarrow> bm_get vp a \<noteq> None \<and> bm_get vp' a = None"
    using rm [of a] vp2 [of a] get' [of a] assms(3) by (auto split: option.splits if_splits)
  show "(r, a) \<in> top_powers k idx \<or> bm_get vp a = Some r \<and> (\<forall>p. (p, a) \<notin> top_powers k idx)"
    if "bm_get rm a = Some r"
    using that rm [of a] e [of a] by (auto split: option.splits if_splits)
qed

text \<open>Every validator that leaves is found in the index after the changes.\<close>

lemma leaving_known:
  assumes "set_ok vp idx" "bm_wf changes" "\<forall>p b. bm_contains idx' (p, b) \<longleftrightarrow> (p, b) \<in> spec_powers vp changes idx"
    and "list_all (\<lambda>c. \<not> displaced k vp changes idx c) changes"
    and "(r, a) \<in> top_powers k idx' \<or> bm_get vp a = Some r \<and> (\<forall>p. (p, a) \<notin> top_powers k idx')"
  shows "\<exists>n. leaving_node idx' (a, r) = Some n"
proof (cases "bm_contains idx' (r, a)")
  case True
  then show ?thesis by (auto simp: leaving_node_def bm_contains_def)
next
  case False
  then have q: "bm_get vp a = Some r" and out: "\<forall>p. (p, a) \<notin> top_powers k idx'"
    using assms(5) by (auto simp: top_powers_def)
  have "bm_contains idx (r, a)" using assms(1) q by (simp add: set_ok_def)
  with False assms(3) q obtain q' where q': "bm_get changes a = Some q'" "q' \<noteq> r" "bm_contains idx' (q', a)"
    by (auto simp: spec_powers_def power_or_zero_def split: option.splits if_splits)
  have "{y. bm_contains idx' y \<and> x < y} = {y \<in> spec_powers vp changes idx. x < y}" for x
    using assms(3) by auto
  then have "k \<le> card {y \<in> spec_powers vp changes idx. (q', a) < y}"
    using out q'(3) by (auto simp: top_powers_def not_less)
  moreover have "(a, q') \<in> set changes" using bm_entries_get [OF assms(2)] q'(1) by simp
  ultimately have "q' = vote_power_zero" using assms(4) q q'(2) by (auto simp: list_all_iff displaced_def)
  with q'(3) show ?thesis by (auto simp: leaving_node_def bm_contains_def split: option.splits)
qed

text \<open>A displaced member leaves, and is found under no key.\<close>

lemma displaced_unknown:
  assumes "bm_wf changes" "index_ok idx'" "\<forall>p b. bm_contains idx' (p, b) \<longleftrightarrow> (p, b) \<in> spec_powers vp changes idx"
    and "(a, q) \<in> set changes" "displaced k vp changes idx (a, q)"
  shows "bm_get vp a \<noteq> None" "(p, a) \<notin> top_powers k idx'" "bm_get vp a = Some r \<Longrightarrow> leaving_node idx' (a, r) = None"
proof -
  have "bm_get changes a = Some q" using bm_entries_get [OF assms(1)] assms(4) by simp
  moreover from assms(5) have d: "bm_get vp a \<noteq> None" "q \<noteq> power_or_zero vp a" "q \<noteq> vote_power_zero"
      "bm_get vp a \<noteq> Some q" "k \<le> card {y \<in> spec_powers vp changes idx. (q, a) < y}"
    by (auto simp: displaced_def power_or_zero_def split: option.splits)
  ultimately have only: "bm_contains idx' (p, a) \<longleftrightarrow> p = q" for p
    using assms(3) by (simp add: spec_powers_def)
  have "{y. bm_contains idx' y \<and> (q, a) < y} = {y \<in> spec_powers vp changes idx. (q, a) < y}"
    using assms(3) by auto
  with d(5) only show "(p, a) \<notin> top_powers k idx'" by (auto simp: top_powers_def)
  show "bm_get vp a \<noteq> None" by (rule d(1))
  show "leaving_node idx' (a, r) = None" if "bm_get vp a = Some r"
  proof -
    have "\<not> bm_contains idx' (r, a)" "\<not> bm_contains idx' (vote_power_zero, a)"
      using that d(3,4) only by auto
    then show ?thesis by (simp add: leaving_node_def bm_contains_def)
  qed
qed

text \<open>The two kinds of updates.\<close>

lemma changed_updates:
  assumes "bm_wf idx" "\<And>a p. bm_get vp' a = Some p \<longleftrightarrow> (p, a) \<in> top_powers k idx \<and> vote_power_zero < p"
  shows "set (map update_of (filter (creates vp) (take k (rev idx)))) =
    {\<lparr>vu_power = vp_int p, vu_pub_key = get_validator_key n\<rparr> | p a n.
      bm_get vp' a = Some p \<and> bm_get vp a \<noteq> Some p \<and> bm_get idx (p, a) = Some n}"
proof -
  have "((p, a), n) \<in> set (take k (rev idx)) \<and> creates vp ((p, a), n) \<longleftrightarrow>
      bm_get vp' a = Some p \<and> bm_get vp a \<noteq> Some p \<and> bm_get idx (p, a) = Some n" for p a n
    unfolding assms(2) strongest_entries [OF assms(1)] creates_def top_powers_def
    by (auto simp: bm_contains_def)
  then have "{e \<in> set (take k (rev idx)). creates vp e} = {((p, a), n) | p a n.
      bm_get vp' a = Some p \<and> bm_get vp a \<noteq> Some p \<and> bm_get idx (p, a) = Some n}"
    by fast
  then have "set (map update_of (filter (creates vp) (take k (rev idx)))) = update_of ` {((p, a), n) | p a n.
      bm_get vp' a = Some p \<and> bm_get vp a \<noteq> Some p \<and> bm_get idx (p, a) = Some n}"
    by (simp only: set_map set_filter)
  also have "\<dots> = {update_of ((p, a), n) | p a n.
      bm_get vp' a = Some p \<and> bm_get vp a \<noteq> Some p \<and> bm_get idx (p, a) = Some n}"
    by blast
  finally show ?thesis by (simp only: update_of_def prod.case)
qed

lemma leaving_updates:
  assumes "index_ok idx" "bm_wf rm" "\<And>a r. bm_get rm a = Some r \<Longrightarrow> \<exists>n. leaving_node idx (a, r) = Some n"
  shows "(\<lambda>r. \<lparr>vu_power = 0, vu_pub_key = get_validator_key (the (leaving_node idx r))\<rparr>) ` set rm =
    {\<lparr>vu_power = 0, vu_pub_key = get_validator_key n\<rparr> | p a n. bm_get rm a \<noteq> None \<and> bm_get idx (p, a) = Some n}"
    (is "?L = ?R")
proof -
  have uniq: "\<And>p q a. bm_contains idx (p, a) \<Longrightarrow> bm_contains idx (q, a) \<Longrightarrow> p = q"
    using assms(1) by (auto simp: index_ok_def)
  have node: "leaving_node idx (a, r) = Some n \<longleftrightarrow> (\<exists>p. bm_get idx (p, a) = Some n)"
    if "bm_get rm a = Some r" for a r n
    using assms(3) [OF that] uniq
    by (auto simp: leaving_node_def bm_contains_def split: option.splits) (metis option.inject)+
  show ?thesis
  proof (intro equalityI subsetI)
    fix u
    assume "u \<in> ?L"
    then obtain a r where ar: "bm_get rm a = Some r"
        "u = \<lparr>vu_power = 0, vu_pub_key = get_validator_key (the (leaving_node idx (a, r)))\<rparr>"
      using bm_entries_get [OF assms(2)] by auto
    with assms(3) node obtain n p where "leaving_node idx (a, r) = Some n" "bm_get idx (p, a) = Some n" by blast
    with ar show "u \<in> ?R" by auto
  next
    fix u
    assume "u \<in> ?R"
    then obtain p a n r where u: "u = \<lparr>vu_power = 0, vu_pub_key = get_validator_key n\<rparr>"
        "bm_get rm a = Some r" "bm_get idx (p, a) = Some n" by blast
    then have "leaving_node idx (a, r) = Some n" using node by blast
    moreover have "(a, r) \<in> set rm" using bm_entries_get [OF assms(2)] u(2) by blast
    ultimately show "u \<in> ?L" using u(1) by force
  qed
qed

section \<open>The whole routine\<close>

lemma get_validator_updates_run:
  assumes "set_ok vp (index_of ls)" "bm_wf changes" "joined_fresh vp new_nodes (index_of ls)"
    and "list_all (\<lambda>c. \<not> record_missing vp new_nodes (index_of ls) c) changes"
    and "list_all (\<lambda>c. \<not> displaced (set_size ls) vp changes (index_of ls) c) changes"
  shows "\<exists>ls' vp' updates idx'. get_validator_updates B sha ls vp changes new_nodes = Done (ls', vp', updates) \<and>
    idx' = council_nodes_by_power (validators ls') \<and>
    {x. bm_contains idx' x} = spec_powers vp changes (index_of ls) \<and>
    {(p, a). bm_get vp' a = Some p} = spec_set (set_size ls) (spec_powers vp changes (index_of ls)) \<and>
    set_ok vp' idx' \<and>
    set updates =
      {\<lparr>vu_power = vp_int p, vu_pub_key = get_validator_key n\<rparr> | p a n.
         bm_get vp' a = Some p \<and> bm_get vp a \<noteq> Some p \<and> bm_get idx' (p, a) = Some n} \<union>
      {\<lparr>vu_power = 0, vu_pub_key = get_validator_key n\<rparr> | p a n.
         bm_get vp a \<noteq> None \<and> bm_get vp' a = None \<and> bm_get idx' (p, a) = Some n}"
proof -
  define idx where "idx = index_of ls"
  define k where "k = set_size ls"
  note h = assms [folded idx_def k_def]
  have change: "\<forall>c \<in> set changes. change_ok vp new_nodes idx c"
    using h(3,4) change_okI by (auto simp: list_all_iff)
  have vpwf: "bm_wf vp" and iok: "index_ok idx" and pos: "\<forall>a p. bm_get vp a = Some p \<longrightarrow> vote_power_zero < p"
    using h(1) by (auto simp: set_ok_def)
  have dc: "distinct (map fst changes)" using h(2) by (auto simp: bm_wf_def strict_sorted_iff)
  obtain idx' where idx': "update_index vp new_nodes changes idx = Done idx'" "index_ok idx'"
      "\<forall>p b. bm_contains idx' (p, b) \<longleftrightarrow> (p, b) \<in> spec_powers vp changes idx"
    using update_index_Done [OF iok change dc] by blast
  have keys: "{x. bm_contains idx' x} = spec_powers vp changes idx" using idx'(3) by auto
  have spec: "(p, a) \<in> spec_set k (spec_powers vp changes idx) \<longleftrightarrow>
      (p, a) \<in> top_powers k idx' \<and> vote_power_zero < p" for p a
    unfolding keys [symmetric] spec_set_def top_powers_def by auto
  let ?l = "validator_liveness (vs_punishment (validators ls))"
  obtain vp2 rm ups tr where sel: "fold (select_step sha ?l) (take k (rev idx')) (vp, vp, [], []) = (vp2, rm, ups, tr)"
    by (metis surj_pair)
  note new = new_set [OF idx'(2) vpwf pos sel]
  have leave: "\<exists>n. leaving_node idx' (a, r) = Some n" if "bm_get rm a = Some r" for a r
    using leaving_known [OF h(1,2) idx'(3) h(5) new(5) [OF that]] .
  then have leave': "\<forall>r \<in> set rm. leaving_node idx' r \<noteq> None"
    using bm_entries_get [OF new(2)] by (metis option.discI surj_pair)
  let ?vs2 = "fold (\<lambda>(v, a). add_validator_for_tracking B v a
      (get_block_signing_window (network_params (top_level ls)))) (rev tr)
      (validators ls\<lparr>council_nodes_by_power := idx'\<rparr>)"
  let ?vp' = "fold bm_remove (map fst rm) vp2"
  let ?ups' = "ups @ map (\<lambda>r. \<lparr>vu_power = 0, vu_pub_key = get_validator_key (the (leaving_node idx' r))\<rparr>) rm"
  have "council_nodes_by_power ?vs2 = idx'" by (simp add: tracking_keeps_index)
  then obtain vs3 where fin: "remove_validators sha rm (?vs2, vp2, ups) = Done (vs3, ?vp', ?ups')"
      "council_nodes_by_power vs3 = idx'"
    using remove_validators_Done [OF _ leave', of ?vs2 sha vp2 ups] by blast
  have run: "get_validator_updates B sha ls vp changes new_nodes = Done (ls\<lparr>validators := vs3\<rparr>, ?vp', ?ups')"
    using idx'(1) sel fin(1) by (simp add: get_validator_updates_def Let_def k_def idx_def)
  have ok: "set_ok ?vp' idx'"
    unfolding set_ok_def new(3) using idx'(2) new(1) by (auto simp: top_powers_def)
  have members: "{(p, a). bm_get ?vp' a = Some p} = spec_set k (spec_powers vp changes idx)"
    using spec new(3) by auto
  have wf': "bm_wf idx'" using idx'(2) by (simp add: index_ok_def)
  have updates: "set ?ups' =
      {\<lparr>vu_power = vp_int p, vu_pub_key = get_validator_key n\<rparr> | p a n.
         bm_get ?vp' a = Some p \<and> bm_get vp a \<noteq> Some p \<and> bm_get idx' (p, a) = Some n} \<union>
      {\<lparr>vu_power = 0, vu_pub_key = get_validator_key n\<rparr> | p a n.
         bm_get vp a \<noteq> None \<and> bm_get ?vp' a = None \<and> bm_get idx' (p, a) = Some n}"
    using changed_updates [OF wf' new(3), of vp] leaving_updates [OF idx'(2) new(2) leave]
    unfolding set_append set_map new(6) new(4) by (simp add: conj_assoc)
  show ?thesis
    unfolding idx_def [symmetric] k_def [symmetric]
    using run ok members updates keys fin(2)
    by (intro exI [of _ "ls\<lparr>validators := vs3\<rparr>"] exI [of _ ?vp'] exI [of _ ?ups'] exI [of _ idx']) simp
qed

lemma displaced_Panic:
  assumes "set_ok vp (index_of ls)" "bm_wf changes" "joined_fresh vp new_nodes (index_of ls)"
    and "list_all (\<lambda>c. \<not> record_missing vp new_nodes (index_of ls) c) changes"
    and "list_ex (displaced (set_size ls) vp changes (index_of ls)) changes"
  shows "\<exists>m. get_validator_updates B sha ls vp changes new_nodes = Panic m"
proof -
  define idx where "idx = index_of ls"
  define k where "k = set_size ls"
  note h = assms [folded idx_def k_def]
  have vpwf: "bm_wf vp" and iok: "index_ok idx" and pos: "\<forall>a p. bm_get vp a = Some p \<longrightarrow> vote_power_zero < p"
    using h(1) by (auto simp: set_ok_def)
  have dc: "distinct (map fst changes)" using h(2) by (auto simp: bm_wf_def strict_sorted_iff)
  have change: "\<forall>c \<in> set changes. change_ok vp new_nodes idx c"
    using h(3,4) change_okI by (auto simp: list_all_iff)
  obtain idx' where idx': "update_index vp new_nodes changes idx = Done idx'" "index_ok idx'"
      "\<forall>p b. bm_contains idx' (p, b) \<longleftrightarrow> (p, b) \<in> spec_powers vp changes idx"
    using update_index_Done [OF iok change dc] by blast
  let ?l = "validator_liveness (vs_punishment (validators ls))"
  obtain vp2 rm ups tr where sel: "fold (select_step sha ?l) (take k (rev idx')) (vp, vp, [], []) = (vp2, rm, ups, tr)"
    by (metis surj_pair)
  note new = new_set [OF idx'(2) vpwf pos sel]
  obtain a q where c: "(a, q) \<in> set changes" "displaced k vp changes idx (a, q)"
    using h(5) by (auto simp: list_ex_iff)
  note lost = displaced_unknown [OF h(2) idx'(2,3) c]
  have "bm_get (fold bm_remove (map fst rm) vp2) a = None" using new(3) [of a] lost(2) by (cases "bm_get (fold bm_remove (map fst rm) vp2) a") auto
  then obtain r where r: "bm_get rm a = Some r" using new(4) [of a] lost(1) by auto
  with new(5) lost(2) have "bm_get vp a = Some r" by blast
  then have "leaving_node idx' (a, r) = None" by (rule lost(3))
  moreover have "(a, r) \<in> set rm" using bm_entries_get [OF new(2)] r by simp
  moreover let ?vs2 = "fold (\<lambda>(v, a). add_validator_for_tracking B v a
      (get_block_signing_window (network_params (top_level ls)))) (rev tr)
      (validators ls\<lparr>council_nodes_by_power := idx'\<rparr>)"
  have "council_nodes_by_power ?vs2 = idx'" by (simp add: tracking_keeps_index)
  ultimately obtain m where "remove_validators sha rm (?vs2, vp2, ups) = Panic m"
    using remove_validators_Panic by blast
  then show ?thesis
    using idx'(1) sel by (auto simp: get_validator_updates_def Let_def k_def idx_def)
qed

section \<open>Properties\<close>

text \<open>
  C18: The validator set after a block.  Let the set be consistent with the index, let
  no node that joined in this block be listed already under another power, let every
  changed node be listed under its power in the set or have joined in this block
  (\<open>record_missing\<close>; a node listed with a positive power outside the set is excluded
  by this), and let no member that keeps a power be pushed out of the set in the
  block that changes its power (\<open>displaced\<close>).  Then the computation does not panic,
  the new index holds the changed powers, the new set is the one of the specification
  (the nodes with positive power that have fewer than \<open>max_validators\<close> stronger
  nodes), it is consistent with the new index, and the updates sent to the consensus
  engine are exactly the new powers of the members that changed and a zero for every
  member that left.
\<close>

theorem get_validator_updates_correct:
  assumes "set_ok vp (index_of ls)" "bm_wf changes" "joined_fresh vp new_nodes (index_of ls)"
    and "list_all (\<lambda>c. \<not> record_missing vp new_nodes (index_of ls) c) changes"
    and "list_all (\<lambda>c. \<not> displaced (set_size ls) vp changes (index_of ls) c) changes"
  shows "\<exists>ls' vp' updates idx'. get_validator_updates B sha ls vp changes new_nodes = Done (ls', vp', updates) \<and>
    idx' = council_nodes_by_power (validators ls') \<and>
    {x. bm_contains idx' x} = spec_powers vp changes (index_of ls) \<and>
    {(p, a). bm_get vp' a = Some p} = spec_set (set_size ls) (spec_powers vp changes (index_of ls)) \<and>
    set_ok vp' idx' \<and>
    set updates =
      {\<lparr>vu_power = vp_int p, vu_pub_key = get_validator_key n\<rparr> | p a n.
         bm_get vp' a = Some p \<and> bm_get vp a \<noteq> Some p \<and> bm_get idx' (p, a) = Some n} \<union>
      {\<lparr>vu_power = 0, vu_pub_key = get_validator_key n\<rparr> | p a n.
         bm_get vp a \<noteq> None \<and> bm_get vp' a = None \<and> bm_get idx' (p, a) = Some n}"
  using assms by (rule get_validator_updates_run)

text \<open>
  C39: When the computation panics.  For a set that is consistent with the index, and
  when no node that joined in this block is listed already under another power, the
  computation panics exactly when the record of a changed node is missing, which is
  the case for a node that is listed with a positive power but has no place in the
  set, or when a member of the set whose power changes to another power than zero is
  pushed out of the set in the same block.
\<close>

theorem get_validator_updates_panics_iff:
  assumes "set_ok vp (index_of ls)" "bm_wf changes" "joined_fresh vp new_nodes (index_of ls)"
  shows "(\<exists>m. get_validator_updates B sha ls vp changes new_nodes = Panic m) \<longleftrightarrow>
    list_ex (\<lambda>c. record_missing vp new_nodes (index_of ls) c \<or>
      displaced (set_size ls) vp changes (index_of ls) c) changes"
    (is "?P \<longleftrightarrow> ?R")
proof (cases "list_ex (record_missing vp new_nodes (index_of ls)) changes")
  case True
  have "bm_wf (index_of ls)" "distinct (map fst changes)"
    using assms(1,2) by (auto simp: set_ok_def index_ok_def bm_wf_def strict_sorted_iff)
  with True obtain m where "update_index vp new_nodes changes (index_of ls) = Panic m"
    using update_index_Panic by (metis list_ex_iff)
  then have ?P by (simp add: get_validator_updates_def Let_def)
  with True show ?thesis by (auto simp: list_ex_iff)
next
  case False
  then have found: "list_all (\<lambda>c. \<not> record_missing vp new_nodes (index_of ls) c) changes"
    by (auto simp: list_ex_iff list_all_iff)
  show ?thesis
  proof (cases "list_ex (displaced (set_size ls) vp changes (index_of ls)) changes")
    case True
    then have ?P by (rule displaced_Panic [OF assms found])
    with True show ?thesis by (auto simp: list_ex_iff)
  next
    case none: False
    then have "list_all (\<lambda>c. \<not> displaced (set_size ls) vp changes (index_of ls) c) changes"
      by (auto simp: list_ex_iff list_all_iff)
    from get_validator_updates_run [OF assms found this, of B sha] have "\<not> ?P" by auto
    with False none show ?thesis by (auto simp: list_ex_iff)
  qed
qed

section \<open>Concrete validator sets\<close>

definition sample_council_node :: "u8 \<Rightarrow> council_node" where
  "sample_council_node i = council_node_new (Ed25519 [i])"

definition sample_set_state :: "bool list chain_node_state" where
  "sample_set_state = \<lparr>last_block_height = 1, last_apphash = [], block_time = 50, proposer_stats = [],
     validators = \<lparr>council_nodes_by_power =
         [((VotePower 5, BasicRedeem [1]), sample_council_node 1),
          ((VotePower 8, BasicRedeem [3]), sample_council_node 3)],
       tendermint_validator_addresses = [], vs_punishment = \<lparr>validator_liveness = [], slashing_schedules = []\<rparr>\<rparr>,
     genesis_time = 0,
     top_level = \<lparr>account_root = [], rewards_pool = rewards_pool_new 0 1, network_params = sample_network_params\<rparr>\<rparr>"

definition sample_set :: power_map where
  "sample_set = [(BasicRedeem [1], VotePower 5), (BasicRedeem [3], VotePower 8)]"

lemmas sample_set_simps = sample_set_state_def sample_set_def sample_network_params_def
  get_max_validators_def bm_get_def bm_contains_def bm_wf_def less_vote_power_def less_staked_address_def
  less_eq_vote_power_def less_eq_staked_address_def vote_power_zero_def power_or_zero_def

lemma sample_set_ok: "set_ok sample_set (council_nodes_by_power (validators sample_set_state))"
  by (auto simp: set_ok_def index_ok_def sample_set_simps)

text \<open>A third node joins a full set and displaces the weakest member.\<close>

theorem get_validator_updates_correct_witness:
  "\<exists>ls' vp' updates. get_validator_updates list_bitvec (\<lambda>b. b) sample_set_state sample_set
      [(BasicRedeem [2], VotePower 7)] [(BasicRedeem [2], sample_council_node 2)] = Done (ls', vp', updates) \<and>
     set_ok vp' (council_nodes_by_power (validators ls'))"
proof -
  let ?c = "[(BasicRedeem [2], VotePower 7)]" and ?n = "[(BasicRedeem [2], sample_council_node 2)]"
  have h1: "bm_wf ?c" by (simp add: bm_wf_def)
  have h2: "joined_fresh sample_set ?n (index_of sample_set_state)"
    by (auto simp: joined_fresh_def sample_set_simps split: if_splits)
  have h3: "list_all (\<lambda>c. \<not> record_missing sample_set ?n (index_of sample_set_state) c) ?c"
    by (simp add: record_missing_def bm_contains_def bm_get_def)
  have h4: "list_all (\<lambda>c. \<not> displaced (set_size sample_set_state) sample_set ?c (index_of sample_set_state) c) ?c"
    by (simp add: displaced_def sample_set_def bm_get_def)
  show ?thesis
    using get_validator_updates_correct [OF sample_set_ok h1 h2 h3 h4, of list_bitvec "\<lambda>b. b"]
    by (elim exE conjE) (intro exI conjI, assumption, simp only:)
qed

text \<open>
  The power of the weakest member of a full set rises and a stronger node joins: the
  member is displaced.
\<close>

lemma sample_displaced:
  "get_validator_updates list_bitvec (\<lambda>b. b) sample_set_state sample_set
     [(BasicRedeem [1], VotePower 6), (BasicRedeem [2], VotePower 10)]
     [(BasicRedeem [2], sample_council_node 2)] = Panic ''no entry found for key''"
  by (simp add: get_validator_updates_def Let_def index_step_def select_step_def remove_step_def
      bm_remove_def sample_set_simps sample_council_node_def council_node_new_def
      add_validator_for_tracking_def)

text \<open>A node that is listed with a positive power outside the set, as after a displacement, changes its power.\<close>

definition sample_crowded_state :: "bool list chain_node_state" where
  "sample_crowded_state = sample_set_state\<lparr>validators := (validators sample_set_state)\<lparr>council_nodes_by_power :=
     ((VotePower 3, BasicRedeem [2]), sample_council_node 2) # index_of sample_set_state\<rparr>\<rparr>"

theorem get_validator_updates_panics_iff_witness:
  "set_ok sample_set (index_of sample_crowded_state) \<and>
   (\<exists>m. get_validator_updates list_bitvec (\<lambda>b. b) sample_crowded_state sample_set
      [(BasicRedeem [2], VotePower 4)] [] = Panic m)"
proof -
  have ok: "set_ok sample_set (index_of sample_crowded_state)"
    by (auto simp: sample_crowded_state_def set_ok_def index_ok_def sample_set_simps split: if_splits)
  have wf: "bm_wf [(BasicRedeem [2], VotePower 4)]" by (simp add: bm_wf_def)
  have fresh: "joined_fresh sample_set [] (index_of sample_crowded_state)"
    by (simp add: joined_fresh_def bm_contains_def bm_get_def)
  have "record_missing sample_set [] (index_of sample_crowded_state) (BasicRedeem [2], VotePower 4)"
    by (simp add: record_missing_def sample_crowded_state_def sample_set_simps)
  with ok get_validator_updates_panics_iff [OF ok wf fresh, of list_bitvec "\<lambda>b. b"] show ?thesis by simp
qed

end
