(* ===== verification/Enclave_Protocol.thy ===== *)
theory Enclave_Protocol
  imports Tx_Validation Bloom_Filter
begin

text \<open>
  The messages between the node and the transaction validation service
  (enclave-protocol/src/lib.rs) and the stand-in for the service that the node has
  for tests (chain-abci/src/enclave_bridge/mock.rs).  The proxy of the node
  (chain-abci/src/enclave_bridge/mod.rs) is any function that takes a request in a
  state and yields a response and the next state.
\<close>

section \<open>Messages\<close>

type_synonym sealed_log = bytes

record verify_tx_request =
  vr_tx :: tx_enclave_aux
  vr_account :: "staked_state option"
  vr_info :: chain_info

record query_encrypt_request =
  qe_txid :: txid
  qe_sealed_enc_request :: sealed_log
  qe_tx_inputs :: "txo_pointer list option"

datatype enclave_request =
    CheckChain u8 "h256 option"
  | VerifyTx verify_tx_request
  | EndBlock
  | CommitBlock h256 chain_info
  | GetSealedTxData "txid list"
  | EncryptTx query_encrypt_request

datatype enclave_response =
    RespCheckChain "h256 option + unit"
  | RespVerifyTx "error + fee \<times> staked_state option"
  | RespEndBlock "unit + bytes option"
  | RespCommitBlock "unit + unit"
  | RespGetSealedTxData "sealed_log list option"
  | RespEncryptTx "error + tx_obfuscated"
  | UnknownRequest

definition new_tx_request :: "tx_enclave_aux \<Rightarrow> staked_state option \<Rightarrow> chain_info \<Rightarrow> enclave_request" where
  "new_tx_request t account info = VerifyTx \<lparr>vr_tx = t, vr_account = account, vr_info = info\<rparr>"

definition is_basic_valid_tx_request ::
    "verify_tx_request \<Rightarrow> sealed_log list option \<Rightarrow> u8 \<Rightarrow> unit + unit" where
  "is_basic_valid_tx_request request sealed hex_id =
     (if info_chain_hex_id (vr_info request) \<noteq> hex_id then Err ()
      else (case vr_tx request of
        EncDepositStakeTx t p \<Rightarrow> (case sealed of Some i \<Rightarrow> if i \<noteq> [] then Ok () else Err () | None \<Rightarrow> Err ())
      | EncTransferTx ins n p \<Rightarrow> (case sealed of Some i \<Rightarrow> if i \<noteq> [] then Ok () else Err () | None \<Rightarrow> Err ())
      | EncWithdrawUnbondedStakeTx n w p \<Rightarrow> (if vr_account request \<noteq> None then Ok () else Err ())))"

section \<open>The stand-in service\<close>

text \<open>
  What both services need from third-party code: the hash functions and signature
  scheme, bit vectors, the decoder of plain payloads and the serialisation of
  view keys.
\<close>

record 'bv service_env =
  se_ext :: ext
  se_bv :: "'bv bitvec"
  dec_plain_tx_aux :: "bytes \<Rightarrow> string + plain_tx_aux"
  pk_serialize :: "public_key \<Rightarrow> bytes"

record 'bv mock_client =
  mc_chain_hex_id :: u8
  local_tx_store :: "txid \<Rightarrow> tx_with_outputs option"
  mc_filter :: "'bv block_filter"

definition mock_new :: "'bv service_env \<Rightarrow> u8 \<Rightarrow> 'bv mock_client" where
  "mock_new S i = \<lparr>mc_chain_hex_id = i, local_tx_store = Map.empty, mc_filter = filter_default (se_bv S)\<rparr>"

definition mock_lookup :: "'bv mock_client \<Rightarrow> txid \<Rightarrow> tx_with_outputs run" where
  "mock_lookup c i = expect_opt (local_tx_store c i) ''mock is expected to be fed valid/existing TX''"

fun mock_lookups :: "'bv mock_client \<Rightarrow> txo_pointer list \<Rightarrow> tx_with_outputs list run" where
  "mock_lookups c [] = Done []"
| "mock_lookups c (x # xs) = run_bind (mock_lookup c (txo_id x)) (\<lambda>t.
     run_bind (mock_lookups c xs) (\<lambda>ts. Done (t # ts)))"

fun with_outputs_attributes :: "tx_with_outputs \<Rightarrow> tx_attributes" where
  "with_outputs_attributes (StakeWithdraw t) = wd_attributes t"
| "with_outputs_attributes (Transfer t) = tx_attrs t"

definition filter_add_tx ::
    "'bv service_env \<Rightarrow> tx_with_outputs \<Rightarrow> 'bv block_filter \<Rightarrow> 'bv block_filter run" where
  "filter_add_tx S t f = add_view_keys (se_bv S) (keccak256 (se_ext S)) (pk_serialize S)
     (map view_key (allowed_view (with_outputs_attributes t))) f"

definition mock_store ::
    "'bv service_env \<Rightarrow> txid \<Rightarrow> tx_with_outputs \<Rightarrow> 'bv mock_client \<Rightarrow> 'bv mock_client run" where
  "mock_store S i t c = run_bind (filter_add_tx S t (mc_filter c)) (\<lambda>f.
     Done (c\<lparr>mc_filter := f, local_tx_store := (local_tx_store c)(i \<mapsto> t)\<rparr>))"

definition mock_verify_tx ::
    "'bv service_env \<Rightarrow> verify_tx_request \<Rightarrow> 'bv mock_client \<Rightarrow> (enclave_response \<times> 'bv mock_client) run" where
  "mock_verify_tx S r c = (let E = se_ext S in
     run_bind (case vr_tx r of
         EncTransferTx ins n p \<Rightarrow> run_bind (mock_lookups c ins) (\<lambda>ts. Done (obf_payload p, ts))
       | EncDepositStakeTx d p \<Rightarrow> run_bind (mock_lookups c (dep_inputs d)) (\<lambda>ts. Done (obf_payload p, ts))
       | EncWithdrawUnbondedStakeTx n w p \<Rightarrow> Done (obf_payload p, [])) (\<lambda>(txpayload, inputs).
     case (vr_tx r, dec_plain_tx_aux S txpayload) of
       (_, Inr (PlainTransferTx maintx witness)) \<Rightarrow>
         run_bind (verify_transfer E maintx witness (vr_info r) inputs) (\<lambda>result.
         case result of
           Inl e \<Rightarrow> Done (RespVerifyTx (Err e), c)
         | Inr f \<Rightarrow> run_bind (mock_store S (tx_id E maintx) (Transfer maintx) c) (\<lambda>c'.
             Done (RespVerifyTx (Ok (f, None)), c')))
     | (EncDepositStakeTx d p, Inr (PlainDepositStakeTx witness)) \<Rightarrow>
         run_bind (verify_bonded_deposit E d witness (vr_info r) inputs (vr_account r)) (\<lambda>result.
         Done (RespVerifyTx result, c))
     | (_, Inr (PlainWithdrawUnbondedStakeTx t)) \<Rightarrow>
         run_bind (expect_opt (vr_account r) ''account exists in withdraw'') (\<lambda>account.
         run_bind (verify_unbonded_withdraw t (vr_info r) account) (\<lambda>result.
         case result of
           Inl e \<Rightarrow> Done (RespVerifyTx (Err e), c)
         | Inr fa \<Rightarrow> run_bind (mock_store S (withdraw_id E t) (StakeWithdraw t) c) (\<lambda>c'.
             Done (RespVerifyTx (Ok fa), c'))))
     | _ \<Rightarrow> Done (UnknownRequest, c)))"

definition mock_process ::
    "'bv service_env \<Rightarrow> enclave_request \<Rightarrow> 'bv mock_client \<Rightarrow> (enclave_response \<times> 'bv mock_client) run" where
  "mock_process S request c = (case request of
     CheckChain i h \<Rightarrow>
       Done (RespCheckChain (if i = mc_chain_hex_id c then Ok () else Err None), c)
   | EndBlock \<Rightarrow>
       run_bind (if modified (mc_filter c)
         then run_bind (filter_get_raw (se_bv S) (mc_filter c)) (\<lambda>raw. Done (Some raw)) else Done None) (\<lambda>maybe_filter.
       Done (RespEndBlock (Ok maybe_filter), c\<lparr>mc_filter := filter_reset (se_bv S) (mc_filter c)\<rparr>))
   | CommitBlock h info \<Rightarrow> Done (RespCommitBlock (Ok ()), c)
   | VerifyTx r \<Rightarrow> mock_verify_tx S r c
   | _ \<Rightarrow> Done (UnknownRequest, c))"

end
