(* ===== verification/Event_Keys.thy ===== *)
theory Event_Keys
  imports Chain_Prelude
begin

text \<open>
  The names of block events and of their attributes (chain-core/src/common/mod.rs).
  Clients find attributes by the base64 form of the key, which the source keeps as
  a table; the table is compared with the encoding of RFC 4648.
\<close>

datatype event_type = ValidTransactions | BlockFilterEvent | JailValidators | SlashValidators | RewardsDistributionEvent

datatype event_key = KeyAccount | KeyFee | KeyTxId | KeyEthBloom | KeyRewardsDistribution | KeyCoinMinted

fun event_type_display :: "event_type \<Rightarrow> string" where
  "event_type_display ValidTransactions = ''valid_txs''"
| "event_type_display BlockFilterEvent = ''block_filter''"
| "event_type_display JailValidators = ''jail_validators''"
| "event_type_display SlashValidators = ''slash_validators''"
| "event_type_display RewardsDistributionEvent = ''rewards_distribution''"

fun event_key_display :: "event_key \<Rightarrow> string" where
  "event_key_display KeyAccount = ''account''"
| "event_key_display KeyFee = ''fee''"
| "event_key_display KeyTxId = ''txid''"
| "event_key_display KeyEthBloom = ''ethbloom''"
| "event_key_display KeyRewardsDistribution = ''dist''"
| "event_key_display KeyCoinMinted = ''minted''"

definition as_bytes :: "string \<Rightarrow> bytes" where
  "as_bytes s = map of_char s"

definition event_key_to_vec :: "event_key \<Rightarrow> bytes" where
  "event_key_to_vec k = as_bytes (event_key_display k)"

fun event_key_base64 :: "event_key \<Rightarrow> string" where
  "event_key_base64 KeyAccount = ''YWNjb3VudA==''"
| "event_key_base64 KeyFee = ''ZmVl''"
| "event_key_base64 KeyTxId = ''dHhpZA==''"
| "event_key_base64 KeyEthBloom = ''ZXRoYmxvb20=''"
| "event_key_base64 KeyRewardsDistribution = ''ZGlzdA==''"
| "event_key_base64 KeyCoinMinted = ''bWludGVk''"

section \<open>Base64\<close>

definition base64_alphabet :: string where
  "base64_alphabet = ''ABCDEFGHIJKLMNOPQRSTUVWXYZabcdefghijklmnopqrstuvwxyz0123456789+/''"

definition base64_char :: "nat \<Rightarrow> char" where
  "base64_char n = base64_alphabet ! (n mod 64)"

fun base64 :: "nat list \<Rightarrow> string" where
  "base64 [] = []"
| "base64 [a] = [base64_char (a div 4), base64_char (a mod 4 * 16), CHR ''='', CHR ''='']"
| "base64 [a, b] = [base64_char (a div 4), base64_char (a mod 4 * 16 + b div 16), base64_char (b mod 16 * 4), CHR ''='']"
| "base64 (a # b # c # rest) =
     [base64_char (a div 4), base64_char (a mod 4 * 16 + b div 16),
      base64_char (b mod 16 * 4 + c div 64), base64_char (c mod 64)] @ base64 rest"

section \<open>Properties\<close>

text \<open>
  The table of attribute keys is right: every entry is the base64 encoding of
  the bytes the node writes for this key.
\<close>

theorem event_key_base64_correct:
  "event_key_base64 k = base64 (map unat (event_key_to_vec k))"
  by (cases k) (simp_all add: event_key_to_vec_def as_bytes_def of_char_def base64_char_def base64_alphabet_def
      unat_of_nat)

end
