(* ===== verification/Node_State.thy ===== *)
theory Node_State
  imports Validator_Updates Utxo_Store Enclave_Protocol Event_Keys
begin

text \<open>
  The state of the node application (\<open>ChainNodeApp\<close> of chain-abci/src/app/app_init.rs)
  and the verification of transactions against it: \<open>verify_enclave_tx\<close> and
  \<open>verify_public_tx\<close> (chain-abci/src/storage/tx.rs), \<open>handle_tx\<close> and
  \<open>validate_tx_req\<close> (chain-abci/src/app/validate_tx.rs).
\<close>

section \<open>Environment and state\<close>

text \<open>
  The environment collects the parameters: cryptography, bit vectors, the key-value
  store, the account trie, the proxy to the validation service, and the codecs.
\<close>

record ('bv, 'db, 'tr, 'en) node_env =
  ne_ext :: ext
  ne_bv :: "'bv bitvec"
  ne_db :: "'db kvdb"
  ne_trie :: "'tr trie"
  ne_process :: "enclave_request \<Rightarrow> 'en \<Rightarrow> (enclave_response \<times> 'en) run"
  ne_dec_tx_aux :: "bytes \<Rightarrow> string + tx_aux"
  ne_dec_plain :: "bytes \<Rightarrow> string + plain_tx_aux"
  ne_enc_with_outputs :: "tx_with_outputs \<Rightarrow> bytes"
  ne_enc_witness :: "tx_witness \<Rightarrow> bytes"
  ne_enc_op_witness :: "op_witness \<Rightarrow> bytes"
  ne_enc_tree :: "txid merkle_tree \<Rightarrow> bytes"
  ne_enc_state :: "'bv chain_node_state \<Rightarrow> bytes"
  ne_dec_state :: "bytes \<Rightarrow> string + 'bv chain_node_state"
  ne_enc_chain_state :: "chain_state \<Rightarrow> bytes"
  ne_enc_height :: "block_height \<Rightarrow> bytes"
  ne_enc_rewards_pool :: "rewards_pool_state \<Rightarrow> bytes"
  ne_enc_network_params :: "network_parameters \<Rightarrow> bytes"
  ne_parse_config :: "bytes \<Rightarrow> string + init_config"
  ne_hex_encode :: "bytes \<Rightarrow> string"

record ('bv, 'db, 'tr, 'en) chain_node_app =
  storage_db :: 'db
  accounts :: 'tr
  delivered_txs :: "tx_aux list"
  uncommitted_account_root_hash :: h256
  genesis_app_hash :: h256
  app_chain_hex_id :: u8
  last_state :: "'bv chain_node_state option"
  validator_voting_power :: power_map
  power_changed_in_block :: power_map
  new_nodes_in_block :: "(staked_address, council_node) btm"
  tx_validator :: 'en
  rewards_pool_updated :: bool
  tx_query_address :: "string option"

record event =
  ev_type :: event_type
  ev_attributes :: "(event_key \<times> bytes) list"

section \<open>Verification of transactions\<close>

definition verify_tx_response :: "enclave_response \<Rightarrow> error + fee \<times> staked_state option" where
  "verify_tx_response response = (case response of RespVerifyTx r \<Rightarrow> r | _ \<Rightarrow> Err EnclaveRejected)"

definition request_verification ::
    "('bv, 'db, 'tr, 'en) node_env \<Rightarrow> tx_enclave_aux \<Rightarrow> staked_state option \<Rightarrow> chain_info \<Rightarrow> 'en \<Rightarrow>
     ((error + fee \<times> staked_state option) \<times> 'en) run" where
  "request_verification N t account info en =
     run_bind (ne_process N (new_tx_request t account info) en) (\<lambda>(response, en').
     Done (verify_tx_response response, en'))"

definition verify_enclave_tx ::
    "('bv, 'db, 'tr, 'en) node_env \<Rightarrow> tx_enclave_aux \<Rightarrow> chain_info \<Rightarrow> h256 \<Rightarrow> 'db \<Rightarrow> 'tr \<Rightarrow> 'en \<Rightarrow>
     ((error + fee \<times> staked_state option) \<times> 'en) run" where
  "verify_enclave_tx N txaux extra_info root db accs en = (case txaux of
     EncTransferTx inputs no_of_outputs payload \<Rightarrow>
       (case check_spent_input_lookup (ne_bv N) (ne_db N) db inputs of
          Inl e \<Rightarrow> Done (Err e, en)
        | Inr u \<Rightarrow> request_verification N (EncTransferTx inputs no_of_outputs payload) None extra_info en)
   | EncDepositStakeTx t payload \<Rightarrow>
       (case (case get_account (blake2s (ne_ext N)) (ne_trie N) (to_staked_account t) root accs of
            Inr a \<Rightarrow> Ok (Some a)
          | Inl e \<Rightarrow> if e = AccountNotFound then Ok None else Err e) of
          Inl e \<Rightarrow> Done (Err e, en)
        | Inr account \<Rightarrow>
            (case and_then (case account of Some a \<Rightarrow> verify_unjailed a | None \<Rightarrow> Ok ())
                (\<lambda>_. check_spent_input_lookup (ne_bv N) (ne_db N) db (dep_inputs t)) of
               Inl e \<Rightarrow> Done (Err e, en)
             | Inr u \<Rightarrow> request_verification N (EncDepositStakeTx t payload) account extra_info en))
   | EncWithdrawUnbondedStakeTx no_of_outputs witness payload \<Rightarrow>
       (case verify_tx_recover_address (ne_ext N) witness (obf_txid payload) of
          Inl e \<Rightarrow> Done (Err EcdsaCrypto, en)
        | Inr account_address \<Rightarrow>
            (case and_then (get_account (blake2s (ne_ext N)) (ne_trie N) account_address root accs)
                (\<lambda>account. and_then (verify_unjailed account) (\<lambda>_. Ok account)) of
               Inl e \<Rightarrow> Done (Err e, en)
             | Inr account \<Rightarrow> request_verification N
                 (EncWithdrawUnbondedStakeTx no_of_outputs witness payload) (Some account) extra_info en)))"

definition recovered_account ::
    "('bv, 'db, 'tr, 'en) node_env \<Rightarrow> op_witness \<Rightarrow> txid \<Rightarrow> h256 \<Rightarrow> 'tr \<Rightarrow> error + staked_state" where
  "recovered_account N witness i root accs = (case verify_tx_recover_address (ne_ext N) witness i of
     Inl e \<Rightarrow> Err EcdsaCrypto
   | Inr account_address \<Rightarrow> get_account (blake2s (ne_ext N)) (ne_trie N) account_address root accs)"

definition verify_public_tx ::
    "('bv, 'db, 'tr, 'en) node_env \<Rightarrow> tx_aux \<Rightarrow> chain_info \<Rightarrow> node_info \<Rightarrow> h256 \<Rightarrow> 'tr \<Rightarrow>
     (error + fee \<times> staked_state option) run" where
  "verify_public_tx N txaux extra_info ni root accs = (let E = ne_ext N in case txaux of
     EnclaveTx t \<Rightarrow> Panic ''should be handled by verify_enclave_tx''
   | UnbondStakeTx maintx witness \<Rightarrow>
       try_run (Done (recovered_account N witness (unbond_id E maintx) root accs)) (\<lambda>account.
       verify_unbonding maintx extra_info account)
   | UnjailTx maintx witness \<Rightarrow>
       try_run (Done (recovered_account N witness (unjail_id E maintx) root accs)) (\<lambda>account.
       verify_unjailing maintx extra_info account)
   | NodeJoinTx maintx witness \<Rightarrow>
       try_run (Done (recovered_account N witness (node_join_id E maintx) root accs)) (\<lambda>account.
       verify_node_join E maintx extra_info ni account))"

definition handle_tx ::
    "('bv, 'db, 'tr, 'en) node_env \<Rightarrow> tx_aux \<Rightarrow> nat \<Rightarrow> ('bv, 'db, 'tr, 'en) chain_node_app \<Rightarrow>
     ((error + fee \<times> staked_state option) \<times> ('bv, 'db, 'tr, 'en) chain_node_app) run" where
  "handle_tx N txaux tx_len app =
     run_bind (expect_opt (last_state app) ''the app state is expected'') (\<lambda>state.
     let np = network_params (top_level state) in
     run_bind (expect (np_calculate_fee np (of_nat tx_len)) ''invalid fee policy'') (\<lambda>min_fee.
     let extra_info = \<lparr>min_fee_computed = min_fee, info_chain_hex_id = app_chain_hex_id app,
           previous_block_time = block_time state, info_unbonding_period = unbonding_period np\<rparr> in
     case txaux of
       EnclaveTx t \<Rightarrow>
         run_bind (verify_enclave_tx N t extra_info (uncommitted_account_root_hash app) (storage_db app)
             (accounts app) (tx_validator app)) (\<lambda>(r, en).
         Done (r, app\<lparr>tx_validator := en\<rparr>))
     | _ \<Rightarrow>
         run_bind (verify_public_tx N txaux extra_info
             \<lparr>minimal_stake = required_council_node_stake np,
              ni_tendermint_validator_addresses = tendermint_validator_addresses (validators state),
              ni_validator_voting_power = validator_voting_power app\<rparr>
             (uncommitted_account_root_hash app) (accounts app)) (\<lambda>r.
         Done (r, app))))"

text \<open>The outcome of a request: the response code with a log entry, or the parsed transaction.\<close>

datatype tx_log = LogNone | LogDecode string | LogVerify error

definition validate_tx_req ::
    "('bv, 'db, 'tr, 'en) node_env \<Rightarrow> bytes \<Rightarrow> ('bv, 'db, 'tr, 'en) chain_node_app \<Rightarrow>
     ((u32 \<times> tx_log \<times> (tx_aux \<times> fee \<times> staked_state option) option) \<times> ('bv, 'db, 'tr, 'en) chain_node_app) run" where
  "validate_tx_req N data app = (case ne_dec_tx_aux N data of
     Inl e \<Rightarrow> Done ((1, LogDecode e, None), app)
   | Inr txaux \<Rightarrow> run_bind (handle_tx N txaux (length data) app) (\<lambda>(fee_paid, app').
       Done (case fee_paid of
           Inr fee \<Rightarrow> (0, LogNone, Some (txaux, fee))
         | Inl fee_err \<Rightarrow> (1, LogVerify fee_err, None), app')))"

end
