(* ===== verification/Deliver_Tx.thy ===== *)
theory Deliver_Tx
  imports Node_State
begin

text \<open>
  Delivery of transactions (\<open>check_tx\<close> and \<open>deliver_tx\<close> of chain-abci/src/app/mod.rs):
  a transaction that passes verification marks its inputs as spent, updates the
  staking account it concerns, records changes of voting power, and adds its fee to
  the rewards pool.
\<close>

record deliver_response =
  dr_code :: u32
  dr_log :: tx_log
  dr_events :: "event list"

definition app_check_tx ::
    "('bv, 'db, 'tr, 'en) node_env \<Rightarrow> bytes \<Rightarrow> ('bv, 'db, 'tr, 'en) chain_node_app \<Rightarrow>
     (deliver_response \<times> ('bv, 'db, 'tr, 'en) chain_node_app) run" where
  "app_check_tx N data app = run_bind (validate_tx_req N data app) (\<lambda>((code, log, m), app').
     Done (\<lparr>dr_code = code, dr_log = log, dr_events = []\<rparr>, app'))"

text \<open>
  The effect of a verified transaction on the accounts and on the records of the
  block: the next account root, the account that changed, the database transaction
  and the application with the updated trie.
\<close>

definition update_app_account ::
    "('bv, 'db, 'tr, 'en) node_env \<Rightarrow> staked_state option \<Rightarrow> string \<Rightarrow> dbtx \<Rightarrow> ('bv, 'db, 'tr, 'en) chain_node_app \<Rightarrow>
     (h256 \<times> staked_state option \<times> dbtx \<times> ('bv, 'db, 'tr, 'en) chain_node_app) run" where
  "update_app_account N acc msg t app =
     run_bind (expect_opt acc msg) (\<lambda>a.
     run_bind (update_account (blake2s (ne_ext N)) (ne_trie N) a (uncommitted_account_root_hash app) (accounts app))
       (\<lambda>(root, m, accs). Done (root, m, t, app\<lparr>accounts := accs\<rparr>)))"

definition deliver_effect ::
    "('bv, 'db, 'tr, 'en) node_env \<Rightarrow> tx_aux \<Rightarrow> staked_state option \<Rightarrow> ('bv, 'db, 'tr, 'en) chain_node_app \<Rightarrow>
     (h256 \<times> staked_state option \<times> dbtx \<times> ('bv, 'db, 'tr, 'en) chain_node_app) run" where
  "deliver_effect N txaux acc app = (case txaux of
     EnclaveTx (EncTransferTx inputs n p) \<Rightarrow>
       run_bind (spend_utxos (ne_bv N) (ne_db N) inputs (storage_db app) []) (\<lambda>t.
       Done (uncommitted_account_root_hash app, None, t, app))
   | EnclaveTx (EncDepositStakeTx d p) \<Rightarrow>
       run_bind (spend_utxos (ne_bv N) (ne_db N) (dep_inputs d) (storage_db app) []) (\<lambda>t.
       update_app_account N acc ''account returned in deposit stake verification'' t app)
   | UnbondStakeTx u w \<Rightarrow>
       update_app_account N acc ''account returned in unbond stake verification'' [] app
   | EnclaveTx (EncWithdrawUnbondedStakeTx n w p) \<Rightarrow>
       update_app_account N acc ''account returned in withdraw unbonded stake verification'' [] app
   | UnjailTx u w \<Rightarrow>
       update_app_account N acc ''account returned in unjail verification'' [] app
   | NodeJoinTx j w \<Rightarrow>
       run_bind (expect_opt acc ''staked state returned in node join verification'') (\<lambda>state.
       run_bind (expect_opt (council_node state) ''state after nodejointx should have council node'') (\<lambda>node.
       run_bind (vote_power_of_coin (bonded state)) (\<lambda>power.
       update_app_account N (Some state) [] []
         (app\<lparr>new_nodes_in_block := bm_insert (ss_address state) node (new_nodes_in_block app),
              power_changed_in_block := bm_insert (ss_address state) power (power_changed_in_block app)\<rparr>)))))"

text \<open>The voting power of a validator, or of an address that changed in this block, follows its account.\<close>

definition deliver_power ::
    "staked_state option \<Rightarrow> ('bv, 'db, 'tr, 'en) chain_node_app \<Rightarrow> ('bv, 'db, 'tr, 'en) chain_node_app run" where
  "deliver_power maccount app = (case maccount of
     Some account \<Rightarrow>
       if bm_contains (validator_voting_power app) (ss_address account) \<or>
          bm_contains (power_changed_in_block app) (ss_address account)
       then if is_jailed account then Panic ''Validation should not be successful for jailed accounts''
         else run_bind (expect_opt (last_state app) ''delivertx should have app state'') (\<lambda>state.
           run_bind (vote_power_of_coin (required_council_node_stake (network_params (top_level state)))) (\<lambda>min_power.
           run_bind (vote_power_of_coin (bonded account)) (\<lambda>new_power.
           let old_power = power_or_zero (validator_voting_power app) (ss_address account) in
           if new_power > old_power \<and> new_power \<ge> min_power
           then Done (app\<lparr>power_changed_in_block := bm_insert (ss_address account) new_power (power_changed_in_block app)\<rparr>)
           else if old_power \<ge> min_power \<and> new_power < old_power
           then Done (app\<lparr>power_changed_in_block :=
                  bm_insert (ss_address account) vote_power_zero (power_changed_in_block app)\<rparr>)
           else Done app)))
       else Done app
   | None \<Rightarrow> Done app)"

definition redeem_display :: "('bv, 'db, 'tr, 'en) node_env \<Rightarrow> staked_address \<Rightarrow> string" where
  "redeem_display N a = ''0x'' @ ne_hex_encode N (redeem_bytes a)"

definition deliver_event ::
    "('bv, 'db, 'tr, 'en) node_env \<Rightarrow> tx_aux \<Rightarrow> fee \<Rightarrow> staked_state option \<Rightarrow> event" where
  "deliver_event N txaux f maccount = \<lparr>ev_type = ValidTransactions,
     ev_attributes = [(KeyFee, as_bytes (coin_display (to_coin f)))] @
       (case maccount of Some account \<Rightarrow> [(KeyAccount, as_bytes (redeem_display N (ss_address account)))] | None \<Rightarrow> []) @
       [(KeyTxId, as_bytes (ne_hex_encode N (tx_aux_id (ne_ext N) txaux)))]\<rparr>"

definition add_fee ::
    "fee \<Rightarrow> ('bv, 'db, 'tr, 'en) chain_node_app \<Rightarrow> ('bv, 'db, 'tr, 'en) chain_node_app run" where
  "add_fee f app =
     run_bind (expect_opt (last_state app) ''deliver tx, but last state not initialized'') (\<lambda>state.
     let tl = top_level state; pool = rewards_pool tl in
     run_bind (expect (coin_add (period_bonus pool) (to_coin f)) ''rewards pool + fee greater than max coin?'') (\<lambda>new_remaining.
     Done (app\<lparr>last_state := Some (state\<lparr>top_level := tl\<lparr>rewards_pool := pool\<lparr>period_bonus := new_remaining\<rparr>\<rparr>\<rparr>),
               rewards_pool_updated := True\<rparr>)))"

definition deliver_tx ::
    "('bv, 'db, 'tr, 'en) node_env \<Rightarrow> bytes \<Rightarrow> ('bv, 'db, 'tr, 'en) chain_node_app \<Rightarrow>
     (deliver_response \<times> ('bv, 'db, 'tr, 'en) chain_node_app) run" where
  "deliver_tx N data app = run_bind (validate_tx_req N data app) (\<lambda>((code, log, mtxaux), app1).
     case (code = 0, mtxaux) of
       (True, Some (txaux, f, acc)) \<Rightarrow>
         run_bind (deliver_effect N txaux acc app1) (\<lambda>(next_account_root, maccount, inittx, app2).
         run_bind (deliver_power maccount app2) (\<lambda>app3.
         run_bind (add_fee f (app3\<lparr>uncommitted_account_root_hash := next_account_root,
             delivered_txs := delivered_txs app3 @ [txaux]\<rparr>)) (\<lambda>app4.
         Done (\<lparr>dr_code = code, dr_log = log, dr_events = [deliver_event N txaux f maccount]\<rparr>,
           app4\<lparr>storage_db := db_write_buffered (ne_db N) (storage_db app4) inittx\<rparr>))))
     | _ \<Rightarrow> Done (\<lparr>dr_code = code, dr_log = log, dr_events = []\<rparr>, app1))"

section \<open>Blocks of transactions\<close>

fun deliver_all ::
    "('bv, 'db, 'tr, 'en) node_env \<Rightarrow> bytes list \<Rightarrow> ('bv, 'db, 'tr, 'en) chain_node_app \<Rightarrow>
     (deliver_response list \<times> ('bv, 'db, 'tr, 'en) chain_node_app) run" where
  "deliver_all N [] app = Done ([], app)"
| "deliver_all N (d # ds) app = run_bind (deliver_tx N d app) (\<lambda>(r, app').
     run_bind (deliver_all N ds app') (\<lambda>(rs, app''). Done (r # rs, app'')))"

fun public_inputs :: "tx_aux \<Rightarrow> txo_pointer list" where
  "public_inputs (EnclaveTx (EncTransferTx ins n p)) = ins"
| "public_inputs (EnclaveTx (EncDepositStakeTx d p)) = dep_inputs d"
| "public_inputs t = []"

section \<open>Inversion\<close>

lemma tx_validator_same [simp]: "\<exists>en. app = app\<lparr>tx_validator := en\<rparr>"
  by (rule exI [of _ "tx_validator app"]) simp

lemma handle_tx_frame:
  "handle_tx N t n app = Done (r, app1) \<Longrightarrow> \<exists>en. app1 = app\<lparr>tx_validator := en\<rparr>"
  by (cases t) (auto simp: handle_tx_def Let_def run_elims split: prod.splits)

lemma validate_tx_req_Done:
  assumes "validate_tx_req N d app = Done ((c, l, m), app1)"
  shows "\<exists>en. app1 = app\<lparr>tx_validator := en\<rparr>"
    and "m = None \<and> c = 1 \<or>
      (\<exists>t f acc. m = Some (t, f, acc) \<and> c = 0 \<and> ne_dec_tx_aux N d = Ok t \<and>
        handle_tx N t (length d) app = Done (Ok (f, acc), app1))"
proof -
  show "\<exists>en. app1 = app\<lparr>tx_validator := en\<rparr>"
  proof (cases "ne_dec_tx_aux N d")
    case (Inl e)
    with assms show ?thesis by (auto simp: validate_tx_req_def)
  next
    case (Inr t)
    with assms obtain r where "handle_tx N t (length d) app = Done (r, app1)"
      by (auto simp: validate_tx_req_def run_elims)
    then show ?thesis by (rule handle_tx_frame)
  qed
  show "m = None \<and> c = 1 \<or>
      (\<exists>t f acc. m = Some (t, f, acc) \<and> c = 0 \<and> ne_dec_tx_aux N d = Ok t \<and>
        handle_tx N t (length d) app = Done (Ok (f, acc), app1))"
  proof (cases "ne_dec_tx_aux N d")
    case (Inl e)
    with assms show ?thesis by (auto simp: validate_tx_req_def)
  next
    case (Inr t)
    with assms obtain r where r: "handle_tx N t (length d) app = Done (r, app1)"
        "(c, l, m) = (case r of Inr fee \<Rightarrow> (0, LogNone, Some (t, fee)) | Inl fee_err \<Rightarrow> (1, LogVerify fee_err, None))"
      by (auto simp: validate_tx_req_def run_elims)
    with Inr show ?thesis by (cases r) auto
  qed
qed

lemma verify_enclave_tx_inputs:
  assumes "verify_enclave_tx N t info root db accs en = Done (Ok r, en')"
  shows "public_inputs (EnclaveTx t) = [] \<or>
    check_spent_input_lookup (ne_bv N) (ne_db N) db (public_inputs (EnclaveTx t)) = Ok ()"
  using assms by (cases t) (auto simp: verify_enclave_tx_def and_then_eq_Ok split: sum.splits if_splits)

lemma handle_tx_inputs:
  assumes "handle_tx N t n app = Done (Ok r, app1)"
  shows "public_inputs t = [] \<or>
    check_spent_input_lookup (ne_bv N) (ne_db N) (storage_db app) (public_inputs t) = Ok ()"
proof (cases t)
  case (EnclaveTx x)
  with assms obtain info root en en' where
      "verify_enclave_tx N x info root (storage_db app) (accounts app) en = Done (Ok r, en')"
    by (auto simp: handle_tx_def Let_def run_elims)
  from verify_enclave_tx_inputs [OF this] EnclaveTx show ?thesis by simp
qed simp_all

lemma update_app_account_Done:
  "update_app_account N acc msg t app = Done (root, m, t', app') \<longleftrightarrow>
     (\<exists>a accs. acc = Some a \<and> m = Some a \<and> t' = t \<and> app' = app\<lparr>accounts := accs\<rparr> \<and>
        trie_insert_one (ne_trie N) (accounts app) (Some (uncommitted_account_root_hash app))
          (to_stake_key (blake2s (ne_ext N)) (ss_address a)) a = Ok (root, accs))"
  by (auto simp: update_app_account_def update_account_def run_elims)

text \<open>What the effect of a transaction leaves alone, and the database writes it prepares.\<close>

definition same_chain :: "('bv, 'db, 'tr, 'en) chain_node_app \<Rightarrow> ('bv, 'db, 'tr, 'en) chain_node_app \<Rightarrow> bool" where
  "same_chain app app' \<longleftrightarrow> storage_db app' = storage_db app \<and> last_state app' = last_state app \<and>
     delivered_txs app' = delivered_txs app \<and> validator_voting_power app' = validator_voting_power app \<and>
     app_chain_hex_id app' = app_chain_hex_id app \<and> tx_validator app' = tx_validator app"

lemma spend_utxos_Nil: "spend_utxos B K [] db [] = Done []"
  by (simp add: spend_utxos_def bm_new_def)

lemma deliver_effect_frame:
  assumes "deliver_effect N t acc app = Done (root, m, w, app')"
  shows "same_chain app app'"
    and "spend_utxos (ne_bv N) (ne_db N) (public_inputs t) (storage_db app) [] = Done w"
  using assms
  by (auto simp: deliver_effect_def run_elims update_app_account_Done same_chain_def spend_utxos_Nil
      split: tx_aux.splits tx_enclave_aux.splits)

lemma deliver_power_frame:
  assumes "deliver_power m app = Done app'"
  shows "same_chain app app'" "accounts app' = accounts app"
  using assms
  by (auto simp: deliver_power_def same_chain_def Let_def run_elims split: option.splits if_splits)

lemma add_fee_Done:
  "add_fee f app = Done app' \<longleftrightarrow> (\<exists>state c. last_state app = Some state \<and>
     coin_add (period_bonus (rewards_pool (top_level state))) (to_coin f) = Ok c \<and>
     app' = app\<lparr>last_state := Some (state\<lparr>top_level := top_level state\<lparr>rewards_pool :=
        (rewards_pool (top_level state))\<lparr>period_bonus := c\<rparr>\<rparr>\<rparr>), rewards_pool_updated := True\<rparr>)"
  by (auto simp: add_fee_def Let_def run_elims)

lemma deliver_tx_cases:
  assumes "deliver_tx N d app = Done (r, app')"
  obtains (rejected) en where "dr_code r = 1" "dr_events r = []" "app' = app\<lparr>tx_validator := en\<rparr>"
  | (accepted) t f acc app1 root m w app2 app3 app4 where
      "dr_code r = 0" "ne_dec_tx_aux N d = Ok t" "handle_tx N t (length d) app = Done (Ok (f, acc), app1)"
      "deliver_effect N t acc app1 = Done (root, m, w, app2)" "deliver_power m app2 = Done app3"
      "add_fee f (app3\<lparr>uncommitted_account_root_hash := root, delivered_txs := delivered_txs app3 @ [t]\<rparr>) = Done app4"
      "app' = app4\<lparr>storage_db := db_write_buffered (ne_db N) (storage_db app4) w\<rparr>"
proof -
  obtain c l mt app1 where v: "validate_tx_req N d app = Done ((c, l, mt), app1)"
      and k: "(case (c = 0, mt) of
       (True, Some (txaux, f, acc)) \<Rightarrow>
         run_bind (deliver_effect N txaux acc app1) (\<lambda>(next_account_root, maccount, inittx, app2).
         run_bind (deliver_power maccount app2) (\<lambda>app3.
         run_bind (add_fee f (app3\<lparr>uncommitted_account_root_hash := next_account_root,
             delivered_txs := delivered_txs app3 @ [txaux]\<rparr>)) (\<lambda>app4.
         Done (\<lparr>dr_code = c, dr_log = l, dr_events = [deliver_event N txaux f maccount]\<rparr>,
           app4\<lparr>storage_db := db_write_buffered (ne_db N) (storage_db app4) inittx\<rparr>))))
     | _ \<Rightarrow> Done (\<lparr>dr_code = c, dr_log = l, dr_events = []\<rparr>, app1)) = Done (r, app')"
    using assms by (auto simp: deliver_tx_def run_bind_eq_Done)
  from validate_tx_req_Done(2) [OF v] consider "mt = None" "c = 1"
    | t f acc where "mt = Some (t, f, acc)" "c = 0" "ne_dec_tx_aux N d = Ok t"
        "handle_tx N t (length d) app = Done (Ok (f, acc), app1)" by blast
  then show thesis
  proof cases
    case 1
    with k validate_tx_req_Done(1) [OF v] show thesis by (auto intro: rejected)
  next
    case 2
    with k show thesis by (auto simp: run_bind_eq_Done intro: accepted)
  qed
qed

section \<open>Properties\<close>

definition tx_inputs_of :: "tx_aux list \<Rightarrow> txo_pointer set" where
  "tx_inputs_of ts = \<Union> (set ` public_inputs ` set ts)"

lemma tx_inputs_of_simps [simp]:
  "tx_inputs_of [] = {}" "tx_inputs_of (t # ts) = set (public_inputs t) \<union> tx_inputs_of ts"
  by (auto simp: tx_inputs_of_def)

lemma deliver_tx_spends:
  assumes laws: "bitvec_laws (ne_bv N)" "kvdb_laws (ne_db N)" and run: "deliver_tx N d app = Done (r, app')"
  obtains ts where "if dr_code r = 0 then length ts = 1 else ts = []"
    "delivered_txs app' = delivered_txs app @ ts"
    "\<And>p. spent (ne_db N) (storage_db app') p \<longleftrightarrow> spent (ne_db N) (storage_db app) p \<or> p \<in> tx_inputs_of ts"
    "\<And>p. recorded (ne_db N) (storage_db app') p \<longleftrightarrow> recorded (ne_db N) (storage_db app) p"
    "\<And>p. p \<in> tx_inputs_of ts \<Longrightarrow> recorded (ne_db N) (storage_db app) p \<and> \<not> spent (ne_db N) (storage_db app) p"
  using run
proof (cases rule: deliver_tx_cases)
  case (rejected en)
  then show thesis by (intro that [of "[]"]) auto
next
  case (accepted t f acc app1 root m w app2 app3 app4)
  obtain en where app1: "app1 = app\<lparr>tx_validator := en\<rparr>" using handle_tx_frame [OF accepted(3)] by blast
  note eff = deliver_effect_frame [OF accepted(4)]
  have same: "same_chain app1 app3"
    using eff(1) deliver_power_frame(1) [OF accepted(5)] by (simp add: same_chain_def)
  have fresh: "\<forall>p \<in> set (public_inputs t). recorded (ne_db N) (storage_db app) p \<and> \<not> spent (ne_db N) (storage_db app) p"
    using handle_tx_inputs [OF accepted(3)] by (auto simp: check_spent_Ok_iff [OF laws(1)])
  then have rec: "\<forall>p \<in> set (public_inputs t). recorded (ne_db N) (storage_db app) p" by blast
  have w: "spend_utxos (ne_bv N) (ne_db N) (public_inputs t) (storage_db app) [] = Done w"
    using eff(2) app1 by simp
  have db: "storage_db app' = db_write_buffered (ne_db N) (storage_db app) w"
      "delivered_txs app' = delivered_txs app @ [t]"
    using accepted(6,7) same app1 by (auto simp: add_fee_Done same_chain_def)
  from spend_utxos_effect [OF laws rec] w
  have "spent (ne_db N) (storage_db app') p \<longleftrightarrow> spent (ne_db N) (storage_db app) p \<or> p \<in> set (public_inputs t)"
    "recorded (ne_db N) (storage_db app') p \<longleftrightarrow> recorded (ne_db N) (storage_db app) p" for p
    by (simp_all add: db)
  with accepted(1) db(2) fresh show thesis by (intro that [of "[t]"]) auto
qed

text \<open>
  C3: No double spending in a block.  However many transactions a block delivers,
  the outputs spent in the store afterwards are those spent before and the inputs of
  the accepted transactions; every such input was recorded and unspent before the
  block, and no two accepted transactions of the block share an input.  The accepted
  transactions are the ones with response code zero, in the order of delivery.
\<close>

theorem block_no_double_spend:
  assumes "bitvec_laws (ne_bv N)" "kvdb_laws (ne_db N)" "deliver_all N ds app = Done (rs, app')"
  shows "\<exists>ts. delivered_txs app' = delivered_txs app @ ts \<and>
    length ts = length (filter (\<lambda>r. dr_code r = 0) rs) \<and>
    (\<forall>p. spent (ne_db N) (storage_db app') p \<longleftrightarrow>
       spent (ne_db N) (storage_db app) p \<or> p \<in> tx_inputs_of ts) \<and>
    (\<forall>p \<in> tx_inputs_of ts. recorded (ne_db N) (storage_db app) p \<and> \<not> spent (ne_db N) (storage_db app) p) \<and>
    sorted_wrt (\<lambda>t u. set (public_inputs t) \<inter> set (public_inputs u) = {}) ts"
proof -
  have "\<exists>ts. delivered_txs app' = delivered_txs app @ ts \<and>
    length ts = length (filter (\<lambda>r. dr_code r = 0) rs) \<and>
    (\<forall>p. spent (ne_db N) (storage_db app') p \<longleftrightarrow>
       spent (ne_db N) (storage_db app) p \<or> p \<in> tx_inputs_of ts) \<and>
    (\<forall>p. recorded (ne_db N) (storage_db app') p \<longleftrightarrow> recorded (ne_db N) (storage_db app) p) \<and>
    (\<forall>p \<in> tx_inputs_of ts. recorded (ne_db N) (storage_db app) p \<and> \<not> spent (ne_db N) (storage_db app) p) \<and>
    sorted_wrt (\<lambda>t u. set (public_inputs t) \<inter> set (public_inputs u) = {}) ts"
    using assms(3)
  proof (induction ds arbitrary: app rs)
    case Nil
    then show ?case by auto
  next
    case (Cons d ds)
    then obtain r app1 rs1 where run: "deliver_tx N d app = Done (r, app1)"
        "deliver_all N ds app1 = Done (rs1, app')" "rs = r # rs1"
      by (auto simp: run_bind_eq_Done)
    obtain us where us: "if dr_code r = 0 then length us = 1 else us = []"
        "delivered_txs app1 = delivered_txs app @ us"
        "\<And>p. spent (ne_db N) (storage_db app1) p \<longleftrightarrow> spent (ne_db N) (storage_db app) p \<or> p \<in> tx_inputs_of us"
        "\<And>p. recorded (ne_db N) (storage_db app1) p \<longleftrightarrow> recorded (ne_db N) (storage_db app) p"
        "\<And>p. p \<in> tx_inputs_of us \<Longrightarrow> recorded (ne_db N) (storage_db app) p \<and> \<not> spent (ne_db N) (storage_db app) p"
      using deliver_tx_spends [OF assms(1,2) run(1)] by blast
    from Cons.IH [OF run(2)] obtain ts where ts: "delivered_txs app' = delivered_txs app1 @ ts"
        "length ts = length (filter (\<lambda>r. dr_code r = 0) rs1)"
        "\<And>p. spent (ne_db N) (storage_db app') p \<longleftrightarrow> spent (ne_db N) (storage_db app1) p \<or> p \<in> tx_inputs_of ts"
        "\<And>p. recorded (ne_db N) (storage_db app') p \<longleftrightarrow> recorded (ne_db N) (storage_db app1) p"
        "\<And>p. p \<in> tx_inputs_of ts \<Longrightarrow> recorded (ne_db N) (storage_db app1) p \<and> \<not> spent (ne_db N) (storage_db app1) p"
        "sorted_wrt (\<lambda>t u. set (public_inputs t) \<inter> set (public_inputs u) = {}) ts" by blast
    have "tx_inputs_of (us @ ts) = tx_inputs_of us \<union> tx_inputs_of ts" by (auto simp: tx_inputs_of_def)
    moreover have "sorted_wrt (\<lambda>t u. set (public_inputs t) \<inter> set (public_inputs u) = {}) (us @ ts)"
    proof (cases "dr_code r = 0")
      case True
      with us(1) obtain t where t: "us = [t]" by (auto simp: length_Suc_conv)
      have "set (public_inputs t) \<inter> set (public_inputs u) = {}" if "u \<in> set ts" for u
        using that us(3) ts(5) t by (auto simp: tx_inputs_of_def)
      with ts(6) t show ?thesis by simp
    qed (use us(1) ts(6) in auto)
    moreover have "length (us @ ts) = length (filter (\<lambda>r. dr_code r = 0) rs)"
      using us(1) ts(2) run(3) by (auto split: if_splits)
    moreover have "delivered_txs app' = delivered_txs app @ us @ ts" using us(2) ts(1) by simp
    ultimately show ?case using us(3-5) ts(3-5) by (intro exI [of _ "us @ ts"]) auto
  qed
  then show ?thesis by blast
qed

text \<open>
  C4: What delivering one transaction does.  A rejected transaction leaves the
  application as it was, except for the state of the validation service, and emits
  no event.  An accepted transaction is appended to the block, and its fee is added
  to the rewards pool exactly (the sum does not exceed the maximum supply), while
  the rest of the last committed state and the validator set stay.
\<close>

theorem deliver_tx_effect:
  assumes "deliver_tx N d app = Done (r, app')"
  shows "dr_code r = 1 \<and> dr_events r = [] \<and> app' = app\<lparr>tx_validator := tx_validator app'\<rparr> \<or>
    (\<exists>t f acc app1 state pool. dr_code r = 0 \<and> ne_dec_tx_aux N d = Ok t \<and>
       handle_tx N t (length d) app = Done (Ok (f, acc), app1) \<and>
       delivered_txs app' = delivered_txs app @ [t] \<and> validator_voting_power app' = validator_voting_power app \<and>
       last_state app = Some state \<and>
       last_state app' = Some (state\<lparr>top_level := top_level state\<lparr>rewards_pool :=
         (rewards_pool (top_level state))\<lparr>period_bonus := pool\<rparr>\<rparr>\<rparr>) \<and>
       coin_val pool = coin_val (period_bonus (rewards_pool (top_level state))) + coin_val (to_coin f) \<and>
       coin_val pool \<le> max_supply)"
  using assms
proof (cases rule: deliver_tx_cases)
  case (rejected en)
  then show ?thesis by simp
next
  case (accepted t f acc app1 root m w app2 app3 app4)
  obtain en where app1: "app1 = app\<lparr>tx_validator := en\<rparr>" using handle_tx_frame [OF accepted(3)] by blast
  have same: "same_chain app1 app3"
    using deliver_effect_frame(1) [OF accepted(4)] deliver_power_frame(1) [OF accepted(5)]
    by (simp add: same_chain_def)
  obtain state c where "last_state app3 = Some state"
      "coin_add (period_bonus (rewards_pool (top_level state))) (to_coin f) = Ok c"
      "last_state app4 = Some (state\<lparr>top_level := top_level state\<lparr>rewards_pool :=
        (rewards_pool (top_level state))\<lparr>period_bonus := c\<rparr>\<rparr>\<rparr>)"
      "delivered_txs app4 = delivered_txs app3 @ [t]" "validator_voting_power app4 = validator_voting_power app3"
    using accepted(6) by (auto simp: add_fee_Done)
  with accepted(1-3,7) same app1 show ?thesis
    by (intro disjI2 exI [of _ t] exI [of _ f] exI [of _ acc] exI [of _ app1] exI [of _ state] exI [of _ c])
      (simp add: same_chain_def coin_add_eq_Ok)
qed

section \<open>A concrete node\<close>

text \<open>
  A node with the stand-in validation service, on which the transfer of
  \<open>Tx_Validation\<close> is delivered; the parameters are instantiated by lists and maps.
\<close>

definition sample_service :: "bool list service_env" where
  "sample_service = \<lparr>se_ext = sample_ext, se_bv = list_bitvec,
     dec_plain_tx_aux = (\<lambda>b. Ok (PlainTransferTx sample_tx [sample_in_witness])), pk_serialize = (\<lambda>k. k)\<rparr>"

definition sample_client :: "bool list mock_client" where
  "sample_client = (mock_new sample_service 1)
     \<lparr>local_tx_store := [tx_id sample_ext sample_prev_tx \<mapsto> Transfer sample_prev_tx]\<rparr>"

definition sample_tx_aux :: tx_aux where
  "sample_tx_aux = EnclaveTx (EncTransferTx (tx_inputs sample_tx) 1
     \<lparr>key_from = 0, init_vector = [], obf_payload = [], obf_txid = []\<rparr>)"

type_synonym sample_db_type = "column \<times> bytes \<Rightarrow> bytes option"
type_synonym sample_trie_type = "(h256 \<Rightarrow> h256 \<Rightarrow> staked_state option) \<times> nat"

definition sample_env :: "(bool list, sample_db_type, sample_trie_type, bool list mock_client) node_env" where
  "sample_env = \<lparr>ne_ext = sample_ext, ne_bv = list_bitvec, ne_db = map_kvdb, ne_trie = map_trie,
     ne_process = mock_process sample_service,
     ne_dec_tx_aux = (\<lambda>d. if d = [] then Ok sample_tx_aux else Err ''decode''),
     ne_dec_plain = (\<lambda>d. Err ''decode''), ne_enc_with_outputs = (\<lambda>t. []), ne_enc_witness = (\<lambda>w. []),
     ne_enc_op_witness = (\<lambda>w. []), ne_enc_tree = (\<lambda>t. []), ne_enc_state = (\<lambda>s. []),
     ne_dec_state = (\<lambda>d. Err ''decode''), ne_enc_chain_state = (\<lambda>s. []), ne_enc_height = (\<lambda>h. []),
     ne_enc_rewards_pool = (\<lambda>p. []), ne_enc_network_params = (\<lambda>p. []),
     ne_parse_config = (\<lambda>d. Err ''decode''), ne_hex_encode = (\<lambda>d. [])\<rparr>"

definition sample_app :: "(bool list, sample_db_type, sample_trie_type, bool list mock_client) chain_node_app" where
  "sample_app = \<lparr>storage_db = [(COL_TX_META, tx_id sample_ext sample_prev_tx) \<mapsto> [0]],
     accounts = (\<lambda>r k. None, 0), delivered_txs = [], uncommitted_account_root_hash = [],
     genesis_app_hash = [], app_chain_hex_id = 1, last_state = Some (sample_set_state\<lparr>block_time := 100\<rparr>),
     validator_voting_power = [], power_changed_in_block = [], new_nodes_in_block = [],
     tx_validator = sample_client, rewards_pool_updated = False, tx_query_address = None\<rparr>"

lemma sample_env_simps [simp]:
  "ne_ext sample_env = sample_ext" "ne_bv sample_env = list_bitvec" "ne_db sample_env = map_kvdb"
  "ne_trie sample_env = map_trie" "ne_process sample_env = mock_process sample_service"
  "ne_dec_tx_aux sample_env [] = Ok sample_tx_aux"
  by (simp_all add: sample_env_def)

lemma sample_lookup:
  "check_spent_input_lookup list_bitvec map_kvdb (storage_db sample_app) (tx_inputs sample_tx) = Ok ()"
  by (simp add: sample_app_def map_kvdb_def sample_tx_def list_bitvec_def bits_of_bytes_def byte_bits_def)

lemma sample_min_fee: "np_calculate_fee sample_network_params 0 = Ok (Fee (Coin 2))"
  by (simp add: np_calculate_fee_def sample_network_params_def) code_simp

lemma sample_mock_verify:
  "mock_process sample_service (VerifyTx \<lparr>vr_tx = EncTransferTx (tx_inputs sample_tx) 1 p, vr_account = None,
     vr_info = sample_info\<rparr>) sample_client =
   Done (RespVerifyTx (Ok (Fee (Coin 3), None)),
     sample_client\<lparr>local_tx_store := (local_tx_store sample_client)(tx_id sample_ext sample_tx \<mapsto> Transfer sample_tx)\<rparr>)"
proof -
  have "mock_lookups sample_client (tx_inputs sample_tx) = Done [Transfer sample_prev_tx]"
    by (simp add: sample_tx_def mock_lookup_def sample_client_def)
  then show ?thesis
    using sample_transfer_ok
    by (simp add: mock_process_def mock_verify_tx_def sample_service_def mock_store_def filter_add_tx_def
        add_view_keys_def Let_def) (simp add: sample_tx_def)
qed

lemma sample_handle:
  "handle_tx sample_env sample_tx_aux 0 sample_app = Done (Ok (Fee (Coin 3), None),
     sample_app\<lparr>tx_validator := sample_client\<lparr>local_tx_store :=
       (local_tx_store sample_client)(tx_id sample_ext sample_tx \<mapsto> Transfer sample_tx)\<rparr>\<rparr>)"
proof -
  have "\<lparr>min_fee_computed = Fee (Coin 2), info_chain_hex_id = app_chain_hex_id sample_app,
      previous_block_time = 100, info_unbonding_period = unbonding_period sample_network_params\<rparr> = sample_info"
    by (simp add: sample_info_def sample_app_def sample_network_params_def)
  moreover have "last_state sample_app = Some (sample_set_state\<lparr>block_time := 100\<rparr>)"
      "network_params (top_level sample_set_state) = sample_network_params"
      "tx_validator sample_app = sample_client"
    by (simp_all add: sample_app_def sample_set_state_def)
  ultimately show ?thesis
    using sample_lookup sample_min_fee sample_mock_verify
    by (simp add: handle_tx_def sample_tx_aux_def verify_enclave_tx_def request_verification_def
        new_tx_request_def verify_tx_response_def Let_def)
qed

lemma sample_deliver:
  "\<exists>r app' st. deliver_tx sample_env [] sample_app = Done (r, app') \<and> dr_code r = 0 \<and>
     delivered_txs app' = [sample_tx_aux] \<and> last_state app' = Some st \<and>
     network_params (top_level st) = sample_network_params"
proof -
  have rec: "\<forall>p \<in> set (tx_inputs sample_tx). recorded map_kvdb (storage_db sample_app) p"
    using sample_lookup by (simp add: check_spent_Ok_iff [OF list_bitvec_laws])
  obtain w where "spend_utxos list_bitvec map_kvdb (tx_inputs sample_tx) (storage_db sample_app) [] = Done w"
    using spend_utxos_effect [OF list_bitvec_laws map_kvdb_laws rec] by blast
  moreover have "last_state sample_app = Some (sample_set_state\<lparr>block_time := 100\<rparr>)"
      "period_bonus (rewards_pool (top_level sample_set_state)) = coin_zero"
      "network_params (top_level sample_set_state) = sample_network_params" "delivered_txs sample_app = []"
    by (simp_all add: sample_app_def sample_set_state_def rewards_pool_new_def)
  moreover have "coin_add coin_zero (Coin 3) = Ok (Coin 3)" by (simp add: coin_add_eq_Ok)
  ultimately show ?thesis
    using sample_handle
    by (simp add: deliver_tx_def validate_tx_req_def deliver_power_def add_fee_def Let_def)
      (simp add: deliver_effect_def sample_tx_aux_def)
qed

theorem block_no_double_spend_witness:
  "\<exists>rs app' ts. deliver_all sample_env [[]] sample_app = Done (rs, app') \<and> length ts = 1 \<and>
     delivered_txs app' = delivered_txs sample_app @ ts"
proof -
  obtain r app' where r: "deliver_tx sample_env [] sample_app = Done (r, app')" "dr_code r = 0"
    using sample_deliver by blast
  then have run: "deliver_all sample_env [[]] sample_app = Done ([r], app')" by simp
  have laws: "bitvec_laws (ne_bv sample_env)" "kvdb_laws (ne_db sample_env)"
    by (simp_all add: list_bitvec_laws map_kvdb_laws)
  from block_no_double_spend [OF laws run] run r(2) show ?thesis by auto
qed

theorem deliver_tx_effect_witness:
  "\<exists>r app' state'. deliver_tx sample_env [] sample_app = Done (r, app') \<and> last_state app' = Some state'"
proof -
  obtain r app' where r: "deliver_tx sample_env [] sample_app = Done (r, app')" "dr_code r = 0"
    using sample_deliver by blast
  from deliver_tx_effect [OF r(1)] r show ?thesis by auto
qed

end
