(* ===== verification/Rewards.thy ===== *)
theory Rewards
  imports Deliver_Tx
begin

text \<open>
  Rewards for block proposers (chain-abci/src/app/rewards.rs) with the exponential
  function they use (chain-core/src/common/fixed.rs) and the parameters of the
  rewards (chain-core/src/init/params.rs).  The fixed-point numbers (crate fixed)
  are a parameter; the results hold for any arithmetic of these numbers, since the
  amount is capped afterwards.
\<close>

section \<open>The exponential function\<close>

text \<open>
  The operations of the fixed-point type that the sources use.  Division panics on
  zero; the other operations wrap in the release profile.
\<close>

record 'fx fixed_ops =
  fx_from_u64 :: "u64 \<Rightarrow> 'fx"
  fx_from_int :: "int \<Rightarrow> 'fx"
  fx_add :: "'fx \<Rightarrow> 'fx \<Rightarrow> 'fx"
  fx_mul :: "'fx \<Rightarrow> 'fx \<Rightarrow> 'fx"
  fx_mul_int :: "'fx \<Rightarrow> int \<Rightarrow> 'fx"
  fx_neg :: "'fx \<Rightarrow> 'fx"
  fx_div :: "'fx \<Rightarrow> 'fx \<Rightarrow> 'fx run"
  fx_div_int :: "'fx \<Rightarrow> int \<Rightarrow> 'fx run"
  fx_max :: "'fx \<Rightarrow> 'fx \<Rightarrow> 'fx"
  fx_to_u64 :: "'fx \<Rightarrow> u64"

definition EXP_LOWER_BOUND :: int where "EXP_LOWER_BOUND = - 20"

text \<open>
  The two series are infinite iterators; they are functions from positions here.
  The first element of \<open>a\<close> is taken off before the rest is paired with \<open>b\<close>.
\<close>

definition continued_fraction :: "'fx fixed_ops \<Rightarrow> (nat \<Rightarrow> 'fx) \<times> (nat \<Rightarrow> 'fx) \<Rightarrow> nat \<Rightarrow> 'fx run" where
  "continued_fraction F series n = (case series of (a, b) \<Rightarrow>
     run_bind (foldr (\<lambda>i m. run_bind m (\<lambda>acc. fx_div F (b i) (fx_add F (a (Suc i)) acc))) [0..<n]
       (Done (fx_from_int F 0))) (\<lambda>r. Done (fx_add F (a 0) r)))"

definition exp_series :: "'fx fixed_ops \<Rightarrow> 'fx \<Rightarrow> (nat \<Rightarrow> 'fx) \<times> (nat \<Rightarrow> 'fx)" where
  "exp_series F x =
     (\<lambda>i. if i < 2 then fx_from_int F 1 else fx_add F x (fx_from_int F (int i)),
      \<lambda>i. fx_mul_int F x (if i = 0 then 1 else - int i))"

definition fixed_exp :: "'fx fixed_ops \<Rightarrow> 'fx \<Rightarrow> 'fx run" where
  "fixed_exp F x = continued_fraction F (exp_series F x) 100"

section \<open>Minting\<close>

definition get_rewards_distribution_period :: "network_parameters \<Rightarrow> u32" where
  "get_rewards_distribution_period p = distribution_period (rewards_config p)"

definition get_rewards_monetary_expansion_r0 :: "network_parameters \<Rightarrow> milli" where
  "get_rewards_monetary_expansion_r0 p = monetary_expansion_r0 (rewards_config p)"

definition get_rewards_monetary_expansion_decay :: "network_parameters \<Rightarrow> u32" where
  "get_rewards_monetary_expansion_decay p = monetary_expansion_decay (rewards_config p)"

definition get_rewards_monetary_expansion_cap :: "network_parameters \<Rightarrow> coin" where
  "get_rewards_monetary_expansion_cap p = monetary_expansion_cap (rewards_config p)"

definition monetary_expansion ::
    "'fx fixed_ops \<Rightarrow> u64 \<Rightarrow> coin \<Rightarrow> coin \<Rightarrow> network_parameters \<Rightarrow> coin run" where
  "monetary_expansion F t total_staking already params =
     (let cap = get_rewards_monetary_expansion_cap params in
      run_bind (fx_div_int F (fx_from_u64 F (millis (get_rewards_monetary_expansion_r0 params))) 1000) (\<lambda>r0.
      let ft = fx_from_u64 F t; staking = fx_from_u64 F (coin_u64 total_staking) in
      run_bind (fx_div F (fx_neg F staking) ft) (\<lambda>q.
      run_bind (fixed_exp F (fx_max F (fx_from_int F EXP_LOWER_BOUND) q)) (\<lambda>e.
      let amount = fx_mul F (fx_mul F staking r0) e in
      run_bind (expect (coin_new (fx_to_u64 F amount)) ''unwrap'') (\<lambda>c.
      Done (min (case coin_sub cap already of Inl err \<Rightarrow> coin_zero | Inr d \<Rightarrow> d) c))))))"

definition mul_micro :: "u64 \<Rightarrow> u64 \<Rightarrow> u64 run" where
  "mul_micro n rate = run_bind (assert_run (rate \<le> 1000000) ''assertion failed: rate <= 1_000_000'') (\<lambda>_.
     let d = n div 1000000; rem = n mod 1000000 in
     Done (d * rate + rem * rate div 1000000))"

section \<open>Distribution\<close>

fun total_bonded ::
    "('bv, 'db, 'tr, 'en) node_env \<Rightarrow> h256 \<Rightarrow> 'tr \<Rightarrow> staked_address list \<Rightarrow> coin \<Rightarrow> coin run" where
  "total_bonded N root accs [] acc = Done acc"
| "total_bonded N root accs (addr # rest) acc =
     run_bind (expect (get_account (blake2s (ne_ext N)) (ne_trie N) addr root accs)
       ''io error or validator account not exists'') (\<lambda>account.
     run_bind (expect (coin_add acc (bonded account)) ''coin overflow'') (\<lambda>acc'.
     total_bonded N root accs rest acc'))"

fun distribute ::
    "('bv, 'db, 'tr, 'en) node_env \<Rightarrow> coin \<Rightarrow> (staked_address \<times> u64) list \<Rightarrow>
     h256 \<times> 'tr \<times> (staked_address \<times> coin) list \<times> power_map \<Rightarrow>
     (h256 \<times> 'tr \<times> (staked_address \<times> coin) list \<times> power_map) run" where
  "distribute N share [] s = Done s"
| "distribute N share ((addr, k) # rest) (root, accs, distributed, powers) =
     run_bind (expect (get_account (blake2s (ne_ext N)) (ne_trie N) addr root accs)
       ''io error or validator account not exists'') (\<lambda>state.
     run_bind (expect (coin_mul share k) ''unwrap'') (\<lambda>amount.
     case add_reward amount state of (r, state') \<Rightarrow>
       run_bind (expect r ''unwrap'') (\<lambda>balance.
       run_bind (update_account (blake2s (ne_ext N)) (ne_trie N) state' root accs) (\<lambda>(root', m, accs').
       run_bind (vote_power_of_coin balance) (\<lambda>power.
       distribute N share rest (root', accs', distributed @ [(addr, amount)], bm_insert addr power powers))))))"

definition rewards_try_distribute ::
    "('bv, 'db, 'tr, 'en) node_env \<Rightarrow> 'fx fixed_ops \<Rightarrow> ('bv, 'db, 'tr, 'en) chain_node_app \<Rightarrow>
     (((staked_address \<times> coin) list \<times> coin) option \<times> ('bv, 'db, 'tr, 'en) chain_node_app) run" where
  "rewards_try_distribute N F app =
     run_bind (expect_opt (last_state app) ''unwrap'') (\<lambda>state.
     let tl = top_level state; pool = rewards_pool tl; np = network_params tl in
     if block_time state < genesis_time state \<or> block_time state < last_distribution_time pool
     then Panic ''invalid block time''
     else if block_time state - last_distribution_time pool < ucast (get_rewards_distribution_period np)
     then Done (None, app)
     else
       run_bind (total_bonded N (account_root tl) (accounts app) (map fst (validator_voting_power app)) coin_zero)
         (\<lambda>total_staking.
       run_bind (monetary_expansion F (tau pool) total_staking (minted pool) np) (\<lambda>new_minted.
       run_bind (mul_micro (tau pool) (ucast (get_rewards_monetary_expansion_decay np))) (\<lambda>tau'.
       run_bind (expect (coin_add (period_bonus pool) new_minted) ''unwrap'') (\<lambda>total_rewards.
       run_bind (expect (coin_add (minted pool) new_minted) ''unwrap'') (\<lambda>minted'.
       let total_blocks = sum_list (map snd (proposer_stats state)) in
       run_bind (expect (coin_div total_rewards total_blocks) ''unwrap'') (\<lambda>share.
       run_bind (expect (coin_rem total_rewards total_blocks) ''unwrap'') (\<lambda>bonus.
       run_bind (if share > coin_zero
           then distribute N share (proposer_stats state)
             (uncommitted_account_root_hash app, accounts app, [], power_changed_in_block app)
           else Done (uncommitted_account_root_hash app, accounts app, [], power_changed_in_block app))
         (\<lambda>(root, accs, distributed, powers).
       Done (Some (distributed, new_minted),
         app\<lparr>rewards_pool_updated := True, uncommitted_account_root_hash := root, accounts := accs,
           power_changed_in_block := powers,
           last_state := Some (state\<lparr>proposer_stats := [],
             top_level := tl\<lparr>rewards_pool := pool\<lparr>tau := tau', minted := minted', period_bonus := bonus\<rparr>\<rparr>\<rparr>)\<rparr>))))))))))"

definition rewards_record_proposer ::
    "tm_address \<Rightarrow> ('bv, 'db, 'tr, 'en) chain_node_app \<Rightarrow> ('bv, 'db, 'tr, 'en) chain_node_app run" where
  "rewards_record_proposer addr app =
     run_bind (expect_opt (last_state app) ''unwrap'') (\<lambda>state.
     run_bind (expect_opt (bm_get (tendermint_validator_addresses (validators state)) addr)
       ''block proposer is not found'') (\<lambda>staking_address.
     let n = (case bm_get (proposer_stats state) staking_address of Some k \<Rightarrow> k + 1 | None \<Rightarrow> 1) in
     Done (app\<lparr>last_state := Some (state\<lparr>proposer_stats :=
       bm_insert staking_address n (proposer_stats state)\<rparr>)\<rparr>)))"

section \<open>Accounts in the trie\<close>

abbreviation acct ::
    "('bv, 'db, 'tr, 'en) node_env \<Rightarrow> h256 \<Rightarrow> 'tr \<Rightarrow> staked_address \<Rightarrow> error + staked_state" where
  "acct N root accs a \<equiv> get_account (blake2s (ne_ext N)) (ne_trie N) a root accs"

abbreviation stake_key :: "('bv, 'db, 'tr, 'en) node_env \<Rightarrow> staked_address \<Rightarrow> h256" where
  "stake_key N a \<equiv> to_stake_key (blake2s (ne_ext N)) a"

lemma update_account_Done:
  assumes "trie_laws (ne_trie N)"
    and "update_account (blake2s (ne_ext N)) (ne_trie N) s root accs = Done (root', m, accs')"
  shows "acct N root' accs' b = (if stake_key N b = stake_key N (ss_address s) then Ok s else acct N root accs b)"
proof -
  have "trie_insert_one (ne_trie N) accs (Some root) (stake_key N (ss_address s)) s = Ok (root', accs')"
    using assms(2) by (auto simp: update_account_def run_elims)
  with assms(1) have "trie_get_one (ne_trie N) accs' root' (stake_key N (ss_address s)) = Ok (Some s)"
      "\<forall>k. k \<noteq> stake_key N (ss_address s) \<longrightarrow>
        trie_get_one (ne_trie N) accs' root' k = trie_get_one (ne_trie N) accs root k"
    unfolding trie_laws_def by blast+
  then show ?thesis by (simp add: get_account_def)
qed

section \<open>Arithmetic\<close>

lemma mul_div_split:
  fixes n r k :: nat
  assumes "0 < k"
  shows "n * r div k = n div k * r + n mod k * r div k"
proof -
  have "n * r = (n div k * k + n mod k) * r" by simp
  also have "\<dots> = n mod k * r + n div k * r * k" by (simp only: distrib_left distrib_right ac_simps)
  finally show ?thesis using assms by simp
qed

lemma mul_div_le:
  fixes n r k :: nat
  assumes "r \<le> k"
  shows "n * r div k \<le> n"
proof (cases "k = 0")
  case False
  then have "n * r div k \<le> n * k div k" using assms by (intro div_le_mono mult_le_mono2)
  with False show ?thesis by simp
qed simp

lemma mul_micro_exact:
  assumes "unat rate \<le> 1000000"
  obtains r where "mul_micro n rate = Done r" "unat r = unat n * unat rate div 1000000"
proof -
  define k :: nat where "k = 1000000"
  define d where "d = unat n div k"
  define m where "m = unat n mod k"
  define r where "r = unat rate"
  have L: "LENGTH(64) = (64 :: nat)" by simp
  have k: "0 < k" by (simp add: k_def)
  have rk: "r \<le> k" using assms by (simp add: r_def k_def)
  have val: "unat n * r div k = d * r + m * r div k"
    unfolding d_def m_def by (rule mul_div_split [OF k])
  have "unat n < 2 ^ 64" using unat_bound [of n] by (simp only: L)
  then have b1: "d * r + m * r div k < 2 ^ 64"
    using mul_div_le [OF rk, of "unat n"] unfolding val by (rule le_less_trans [rotated])
  have "m \<le> k" using k by (simp add: m_def less_imp_le)
  with rk have "m * r \<le> k * k" by (simp add: mult_le_mono)
  also have "k * k < 2 ^ 64" by (simp add: k_def)
  finally have b2: "m * r < 2 ^ 64" .
  have u: "unat (n div 1000000) = d" "unat (n mod 1000000) = m"
    unfolding d_def m_def k_def by (simp only: unat_div, simp) (simp only: unat_mod, simp)
  have "d * r < 2 ^ 64" using b1 by (rule le_less_trans [OF le_add1])
  then have p: "unat (n div 1000000 * rate) = d * r"
    by (subst unat_mul_no_wrap) (simp_all only: u r_def L)
  have q: "unat (n mod 1000000 * rate) = m * r"
    using b2 by (subst unat_mul_no_wrap) (simp_all only: u r_def L)
  have q': "unat (n mod 1000000 * rate div 1000000) = m * r div k"
    unfolding unat_div q by (simp add: k_def)
  have "unat (n div 1000000 * rate + n mod 1000000 * rate div 1000000) = d * r + m * r div k"
    using b1 by (subst unat_add_no_wrap) (simp_all only: p q' L)
  with val have res: "unat (n div 1000000 * rate + n mod 1000000 * rate div 1000000) = unat n * unat rate div 1000000"
    by (simp only: r_def k_def)
  have "rate \<le> 1000000" using assms by (simp add: word_le_nat_alt)
  then have "mul_micro n rate = Done (n div 1000000 * rate + n mod 1000000 * rate div 1000000)"
    by (simp only: mul_micro_def Let_def assert_run_simps run_bind_simps)
  from that [OF this res] show ?thesis .
qed

lemma unat_sum_list:
  fixes ws :: "u64 list"
  shows "sum_list (map unat ws) < 2 ^ 64 \<Longrightarrow> unat (sum_list ws) = sum_list (map unat ws)"
  by (induction ws) (auto simp: unat_add_no_wrap)

lemma monetary_expansion_bound:
  assumes "monetary_expansion F t staking m params = Done c"
  shows "coin_val m + coin_val c \<le> max (coin_val m) (coin_val (get_rewards_monetary_expansion_cap params))"
proof -
  let ?cap = "get_rewards_monetary_expansion_cap params"
  obtain c0 where c: "c = min (case coin_sub ?cap m of Inl err \<Rightarrow> coin_zero | Inr d \<Rightarrow> d) c0"
    using assms by (auto simp: monetary_expansion_def Let_def run_elims)
  show ?thesis
  proof (cases "coin_sub ?cap m")
    case (Inl e)
    then have "c \<le> coin_zero" using c by simp
    then show ?thesis by (simp add: coin_le_iff)
  next
    case (Inr d)
    then have "c \<le> d" using c by simp
    with Inr show ?thesis by (simp add: coin_val_simps)
  qed
qed

section \<open>Conservation\<close>

text \<open>The accounts of these addresses can be told apart and are stored under their own address.\<close>

definition accounts_ok :: "('bv, 'db, 'tr, 'en) node_env \<Rightarrow> h256 \<Rightarrow> 'tr \<Rightarrow> staked_address list \<Rightarrow> bool" where
  "accounts_ok N root accs as \<longleftrightarrow> distinct (map (stake_key N) as) \<and>
     (\<forall>a \<in> set as. \<forall>s. acct N root accs a = Ok s \<longrightarrow> ss_address s = a)"

lemma add_reward_bind:
  "(case add_reward amount s of (r, s') \<Rightarrow> run_bind (expect r msg) (f s')) = Done w \<longleftrightarrow>
     (\<exists>b. coin_add (bonded s) amount = Ok b \<and> f (s\<lparr>bonded := b\<rparr>) b = Done w)"
  by (cases "coin_add (bonded s) amount") (simp_all add: add_reward_def)

lemma distribute_Done:
  assumes "trie_laws (ne_trie N)" "accounts_ok N root accs (map fst stats)"
    and "distribute N share stats (root, accs, ds, pw) = Done (root', accs', ds', pw')"
  shows "\<exists>new. ds' = ds @ new \<and> map fst new = map fst stats \<and>
    sum_list (map (\<lambda>(a, c). coin_val c) new) = coin_val share * sum_list (map (\<lambda>(a, k). unat k) stats) \<and>
    (\<forall>(a, c) \<in> set new. \<exists>s b. acct N root accs a = Ok s \<and> acct N root' accs' a = Ok (s\<lparr>bonded := b\<rparr>) \<and>
       coin_val b = coin_val (bonded s) + coin_val c) \<and>
    (\<forall>b. stake_key N b \<notin> stake_key N ` fst ` set stats \<longrightarrow> acct N root' accs' b = acct N root accs b)"
  using assms(2,3)
proof (induction stats arbitrary: root accs ds pw)
  case Nil
  then show ?case by simp
next
  case (Cons e stats)
  obtain addr k where e: "e = (addr, k)" by (cases e)
  with Cons.prems(2) obtain s amount b root1 m accs1 p where
    s: "acct N root accs addr = Ok s" and amount: "coin_mul share k = Ok amount"
      and b: "coin_add (bonded s) amount = Ok b"
      and up: "update_account (blake2s (ne_ext N)) (ne_trie N) (s\<lparr>bonded := b\<rparr>) root accs = Done (root1, m, accs1)"
      and rest: "distribute N share stats (root1, accs1, ds @ [(addr, amount)], bm_insert addr p pw) =
        Done (root', accs', ds', pw')"
    by (auto simp: run_elims add_reward_bind)
  from Cons.prems(1) e s have ad: "ss_address s = addr" by (auto simp: accounts_ok_def)
  have upd: "acct N root1 accs1 a = (if stake_key N a = stake_key N addr then Ok (s\<lparr>bonded := b\<rparr>) else acct N root accs a)" for a
    using update_account_Done [OF assms(1) up] ad by simp
  have fresh: "stake_key N addr \<notin> stake_key N ` fst ` set stats"
    using Cons.prems(1) e by (auto simp: accounts_ok_def)
  then have keep: "a \<in> fst ` set stats \<Longrightarrow> acct N root1 accs1 a = acct N root accs a" for a
    using upd by (metis image_eqI)
  have "accounts_ok N root1 accs1 (map fst stats)"
    using Cons.prems(1) e keep by (auto simp: accounts_ok_def)
  from Cons.IH [OF this rest] obtain new where new: "ds' = (ds @ [(addr, amount)]) @ new" "map fst new = map fst stats"
      "sum_list (map (\<lambda>(a, c). coin_val c) new) = coin_val share * sum_list (map (\<lambda>(a, k). unat k) stats)"
      "\<forall>(a, c) \<in> set new. \<exists>s b. acct N root1 accs1 a = Ok s \<and> acct N root' accs' a = Ok (s\<lparr>bonded := b\<rparr>) \<and>
         coin_val b = coin_val (bonded s) + coin_val c"
      "\<forall>b. stake_key N b \<notin> stake_key N ` fst ` set stats \<longrightarrow> acct N root' accs' b = acct N root1 accs1 b"
    by blast
  have first: "acct N root' accs' addr = Ok (s\<lparr>bonded := b\<rparr>)" using new(5) fresh upd by simp
  have others: "\<forall>(a, c) \<in> set new. \<exists>s b. acct N root accs a = Ok s \<and> acct N root' accs' a = Ok (s\<lparr>bonded := b\<rparr>) \<and>
      coin_val b = coin_val (bonded s) + coin_val c"
  proof (clarify)
    fix a c
    assume ac: "(a, c) \<in> set new"
    then have "a \<in> set (map fst stats)" unfolding new(2) [symmetric] by force
    then have "acct N root1 accs1 a = acct N root accs a" using keep by simp
    with bspec [OF new(4) ac] show "\<exists>s b. acct N root accs a = Ok s \<and> acct N root' accs' a = Ok (s\<lparr>bonded := b\<rparr>) \<and>
      coin_val b = coin_val (bonded s) + coin_val c" by simp
  qed
  have untouched: "\<forall>b. stake_key N b \<notin> stake_key N ` fst ` set (e # stats) \<longrightarrow> acct N root' accs' b = acct N root accs b"
    using new(5) upd e by auto
  have total: "sum_list (map (\<lambda>(a, c). coin_val c) ((addr, amount) # new)) =
      coin_val share * sum_list (map (\<lambda>(a, k). unat k) (e # stats))"
    using new(3) amount e by (simp add: coin_mul_eq_Ok distrib_left)
  show ?case
    using new(1,2) total others untouched s first b e
    by (intro exI [of _ "(addr, amount) # new"]) (auto simp: coin_add_eq_Ok)
qed

lemma share_split:
  assumes "coin_div t n = Ok share" "coin_rem t n = Ok bonus"
  shows "coin_val t = coin_val bonus + coin_val share * unat n"
  using assms by (simp add: coin_div_eq_Ok coin_rem_eq_Ok)

lemma run_bind_DoneE:
  assumes "run_bind m f = Done w"
  obtains v where "m = Done v" "f v = Done w"
  using assms by (auto simp: run_bind_eq_Done)

lemma rewards_try_distribute_Done:
  assumes "rewards_try_distribute N F app = Done (Some (distributed, m), app')" "last_state app = Some state"
  obtains staking tau' total minted' share bonus root accs powers where
    "monetary_expansion F (tau (rewards_pool (top_level state))) staking (minted (rewards_pool (top_level state)))
       (network_params (top_level state)) = Done m"
    "mul_micro (tau (rewards_pool (top_level state)))
       (ucast (get_rewards_monetary_expansion_decay (network_params (top_level state)))) = Done tau'"
    "coin_add (period_bonus (rewards_pool (top_level state))) m = Ok total"
    "coin_add (minted (rewards_pool (top_level state))) m = Ok minted'"
    "coin_div total (sum_list (map snd (proposer_stats state))) = Ok share"
    "coin_rem total (sum_list (map snd (proposer_stats state))) = Ok bonus"
    "(if share > coin_zero then distribute N share (proposer_stats state)
        (uncommitted_account_root_hash app, accounts app, [], power_changed_in_block app)
      else Done (uncommitted_account_root_hash app, accounts app, [], power_changed_in_block app)) =
       Done (root, accs, distributed, powers)"
    "app' = app\<lparr>rewards_pool_updated := True, uncommitted_account_root_hash := root, accounts := accs,
       power_changed_in_block := powers,
       last_state := Some (state\<lparr>proposer_stats := [], top_level := (top_level state)\<lparr>rewards_pool :=
         (rewards_pool (top_level state))\<lparr>tau := tau', minted := minted', period_bonus := bonus\<rparr>\<rparr>\<rparr>)\<rparr>"
proof -
  define pool where "pool = rewards_pool (top_level state)"
  have "\<not> (block_time state < genesis_time state \<or> block_time state < last_distribution_time pool)"
      "\<not> block_time state - last_distribution_time pool <
         ucast (get_rewards_distribution_period (network_params (top_level state)))"
    using assms by (auto simp: rewards_try_distribute_def Let_def pool_def split: if_splits)
  then have g: "(block_time state < genesis_time state \<or> block_time state < last_distribution_time pool) = False"
      "(block_time state - last_distribution_time pool <
         ucast (get_rewards_distribution_period (network_params (top_level state)))) = False" by blast+
  from assms show thesis
    unfolding rewards_try_distribute_def Let_def pool_def [symmetric] assms(2) expect_opt_simps run_bind_simps g if_False
    by (elim run_bind_DoneE) (auto simp: expect_eq_Done pool_def intro: that)
qed

text \<open>
  C12: Distributing the rewards creates and loses nothing.  The bonus of the period
  and the minted amount equal what the proposers receive and what stays for the
  next period; each proposer's bonded stake grows by exactly its entry in the
  reported distribution and every other account is untouched; the minted total
  grows by the minted amount and stays within the cap.
\<close>

theorem rewards_distribution_conserves:
  assumes "rewards_try_distribute N F app = Done (Some (distributed, m), app')" "last_state app = Some state"
    and "trie_laws (ne_trie N)"
    and "accounts_ok N (uncommitted_account_root_hash app) (accounts app) (map fst (proposer_stats state))"
    and "sum_list (map (\<lambda>(a, k). unat k) (proposer_stats state)) < 2 ^ 64"
  shows "\<exists>state' old new. last_state app' = Some state' \<and> old = rewards_pool (top_level state) \<and>
    new = rewards_pool (top_level state') \<and>
    coin_val (period_bonus old) + coin_val m =
      coin_val (period_bonus new) + sum_list (map (\<lambda>(a, c). coin_val c) distributed) \<and>
    coin_val (minted new) = coin_val (minted old) + coin_val m \<and>
    coin_val (minted new) \<le> max (coin_val (minted old))
      (coin_val (get_rewards_monetary_expansion_cap (network_params (top_level state)))) \<and>
    proposer_stats state' = [] \<and>
    list_all (\<lambda>(a, c). \<exists>s b. acct N (uncommitted_account_root_hash app) (accounts app) a = Ok s \<and>
       acct N (uncommitted_account_root_hash app') (accounts app') a = Ok (s\<lparr>bonded := b\<rparr>) \<and>
       coin_val b = coin_val (bonded s) + coin_val c) distributed \<and>
    (\<forall>a. stake_key N a \<notin> stake_key N ` fst ` set (proposer_stats state) \<longrightarrow>
       acct N (uncommitted_account_root_hash app') (accounts app') a =
       acct N (uncommitted_account_root_hash app) (accounts app) a)"
proof -
  from assms(1,2) show ?thesis
  proof (cases rule: rewards_try_distribute_Done)
    case (1 staking tau' total minted' share bonus root accs powers)
    let ?stats = "proposer_stats state"
    have n: "unat (sum_list (map snd ?stats)) = sum_list (map (\<lambda>(a, k). unat k) ?stats)"
      using assms(5) unat_sum_list [of "map snd ?stats"] by (simp add: comp_def case_prod_unfold)
    have split: "coin_val total = coin_val bonus + coin_val share * sum_list (map (\<lambda>(a, k). unat k) ?stats)"
      using share_split [OF 1(5,6)] n by simp
    have dist: "sum_list (map (\<lambda>(a, c). coin_val c) distributed) = coin_val share * sum_list (map (\<lambda>(a, k). unat k) ?stats) \<and>
        list_all (\<lambda>(a, c). \<exists>s b. acct N (uncommitted_account_root_hash app) (accounts app) a = Ok s \<and>
          acct N root accs a = Ok (s\<lparr>bonded := b\<rparr>) \<and> coin_val b = coin_val (bonded s) + coin_val c) distributed \<and>
        (\<forall>a. stake_key N a \<notin> stake_key N ` fst ` set ?stats \<longrightarrow>
          acct N root accs a = acct N (uncommitted_account_root_hash app) (accounts app) a)"
    proof (cases "share > coin_zero")
      case True
      with 1(7) have "distribute N share ?stats (uncommitted_account_root_hash app, accounts app, [],
          power_changed_in_block app) = Done (root, accs, distributed, powers)" by simp
      from distribute_Done [OF assms(3,4) this] show ?thesis by (auto simp: list_all_iff)
    next
      case False
      with 1(7) show ?thesis by (auto simp: coin_less_iff)
    qed
    have "coin_val total = coin_val (period_bonus (rewards_pool (top_level state))) + coin_val m"
        "coin_val minted' = coin_val (minted (rewards_pool (top_level state))) + coin_val m"
      using 1(3,4) by (simp_all add: coin_add_eq_Ok)
    with split dist monetary_expansion_bound [OF 1(1)] 1(8) show ?thesis by simp
  qed
qed

section \<open>A concrete distribution\<close>

text \<open>Fixed-point numbers with three decimal digits, as integers.\<close>

definition int_fixed :: "int fixed_ops" where
  "int_fixed = \<lparr>fx_from_u64 = (\<lambda>v. uint v * 1000), fx_from_int = (\<lambda>i. i * 1000), fx_add = (+),
     fx_mul = (\<lambda>a b. a * b div 1000), fx_mul_int = (*), fx_neg = uminus,
     fx_div = (\<lambda>a b. if b = 0 then Panic ''divide by zero'' else Done (a * 1000 div b)),
     fx_div_int = (\<lambda>a b. if b = 0 then Panic ''divide by zero'' else Done (a div b)),
     fx_max = max, fx_to_u64 = (\<lambda>a. word_of_int (a div 1000))\<rparr>"

definition sample_proposer :: staked_state where
  "sample_proposer = staked_new 1 (Coin 5000) (Coin 0) 0 (BasicRedeem [1]) None"

definition sample_rewards_pool :: rewards_pool_state where
  "sample_rewards_pool = (rewards_pool_new 0 5000)\<lparr>period_bonus := Coin 100\<rparr>"

definition sample_rewards_state :: "bool list chain_node_state" where
  "sample_rewards_state = sample_set_state\<lparr>proposer_stats := [(BasicRedeem [1], 3)],
     top_level := (top_level sample_set_state)\<lparr>rewards_pool := sample_rewards_pool\<rparr>\<rparr>"

definition sample_rewards_app ::
    "(bool list, sample_db_type, sample_trie_type, bool list mock_client) chain_node_app" where
  "sample_rewards_app = sample_app\<lparr>
     accounts := (\<lambda>r k. if k = sample_hash [1] then Some sample_proposer else None, 0),
     validator_voting_power := [(BasicRedeem [1], VotePower 5)], last_state := Some sample_rewards_state\<rparr>"

lemma sample_minted:
  "monetary_expansion int_fixed 5000 (Coin 5000) coin_zero sample_network_params = Done (Coin 917)"
proof -
  have "fixed_exp int_fixed (- 1000) = Done 367"
    unfolding fixed_exp_def continued_fraction_def exp_series_def int_fixed_def fixed_ops.select_convs prod.case
    by code_simp
  moreover have "coin_new 917 = Ok (Coin 917)" "coin_sub (Coin 1000000000000000000) coin_zero = Ok (Coin 1000000000000000000)"
    by (simp_all add: coin_new_eq_Ok coin_sub_eq_Ok)
  ultimately show ?thesis
    by (simp add: monetary_expansion_def Let_def int_fixed_def sample_network_params_def EXP_LOWER_BOUND_def
        get_rewards_monetary_expansion_cap_def get_rewards_monetary_expansion_r0_def min_def coin_le_iff)
qed

lemma sample_rewards_simps:
  "last_state sample_rewards_app = Some sample_rewards_state" "block_time sample_rewards_state = 50"
  "genesis_time sample_rewards_state = 0" "network_params (top_level sample_rewards_state) = sample_network_params"
  "rewards_pool (top_level sample_rewards_state) = sample_rewards_pool" "tau sample_rewards_pool = 5000"
  "last_distribution_time sample_rewards_pool = 0" "minted sample_rewards_pool = coin_zero"
  "period_bonus sample_rewards_pool = Coin 100" "account_root (top_level sample_rewards_state) = []"
  "validator_voting_power sample_rewards_app = [(BasicRedeem [1], VotePower 5)]"
  "proposer_stats sample_rewards_state = [(BasicRedeem [1], 3)]"
  "get_rewards_distribution_period sample_network_params = 10"
  "get_rewards_monetary_expansion_decay sample_network_params = 999860"
  by (simp_all add: sample_rewards_app_def sample_rewards_state_def sample_set_state_def sample_rewards_pool_def
      rewards_pool_new_def sample_network_params_def get_rewards_distribution_period_def
      get_rewards_monetary_expansion_decay_def)

lemma sample_proposer_account:
  "get_account (blake2s sample_ext) map_trie (BasicRedeem [1]) root (accounts sample_rewards_app) = Ok sample_proposer"
  "bonded sample_proposer = Coin 5000" "ss_address sample_proposer = BasicRedeem [1]"
  by (simp_all add: sample_rewards_app_def get_account_def map_trie_def to_stake_key_def sample_ext_def
      sample_proposer_def staked_new_def)

lemma sample_distribution:
  "\<exists>app'. rewards_try_distribute sample_env int_fixed sample_rewards_app =
     Done (Some ([(BasicRedeem [1], Coin 1017)], Coin 917), app')"
proof -
  have up: "\<exists>root accs. update_account (blake2s sample_ext) map_trie s [] (accounts sample_rewards_app) =
      Done (root, Some s, accs)" for s
    by (simp add: update_account_def map_trie_def Let_def split: prod.splits)
  have "mul_micro 5000 999860 = Done 4999" by code_simp
  moreover have "coin_add (Coin 100) (Coin 917) = Ok (Coin 1017)" "coin_add coin_zero (Coin 917) = Ok (Coin 917)"
      "coin_div (Coin 1017) 3 = Ok (Coin 339)" "coin_rem (Coin 1017) 3 = Ok (Coin 0)" "coin_zero < Coin 339"
      "coin_mul (Coin 339) 3 = Ok (Coin 1017)" "coin_add (Coin 5000) (Coin 1017) = Ok (Coin 6017)"
      "coin_add coin_zero (Coin 5000) = Ok (Coin 5000)"
    by (simp_all add: coin_val_simps)
  moreover obtain root accs where "update_account (blake2s sample_ext) map_trie
      (sample_proposer\<lparr>bonded := Coin 6017\<rparr>) [] (accounts sample_rewards_app) =
      Done (root, Some (sample_proposer\<lparr>bonded := Coin 6017\<rparr>), accs)" using up by blast
  moreover have "uncommitted_account_root_hash sample_rewards_app = []"
    by (simp add: sample_rewards_app_def sample_app_def)
  ultimately show ?thesis
    using sample_minted
    by (simp add: rewards_try_distribute_def Let_def sample_rewards_simps sample_proposer_account add_reward_def)
qed

theorem rewards_distribution_conserves_witness:
  "\<exists>app' state'. rewards_try_distribute sample_env int_fixed sample_rewards_app =
     Done (Some ([(BasicRedeem [1], Coin 1017)], Coin 917), app') \<and> last_state app' = Some state' \<and>
     period_bonus (rewards_pool (top_level state')) = coin_zero"
proof -
  obtain app' where run: "rewards_try_distribute sample_env int_fixed sample_rewards_app =
      Done (Some ([(BasicRedeem [1], Coin 1017)], Coin 917), app')"
    using sample_distribution by blast
  have ok: "accounts_ok sample_env (uncommitted_account_root_hash sample_rewards_app) (accounts sample_rewards_app)
      (map fst (proposer_stats sample_rewards_state))"
    by (simp add: accounts_ok_def sample_rewards_simps sample_proposer_account)
  have laws: "trie_laws (ne_trie sample_env)" by (simp add: map_trie_laws)
  have "sum_list (map (\<lambda>(a, k). unat k) (proposer_stats sample_rewards_state)) < 2 ^ 64"
    by (simp add: sample_rewards_simps)
  from rewards_distribution_conserves [OF run sample_rewards_simps(1) laws ok this] run
  show ?thesis by (auto simp: sample_rewards_simps coin_eq_iff)
qed

end
