(* ===== verification/Begin_Block.thy ===== *)
theory Begin_Block
  imports Rewards
begin

text \<open>
  The start of a block: jailing (chain-abci/src/app/jail_account.rs), slashing
  (chain-abci/src/app/slash_accounts.rs), the update of the liveness trackers and
  \<open>begin_block\<close> itself (chain-abci/src/app/mod.rs).  The square root used for the
  proportion of a slash is a loop, so a computation that contains it yields an
  optional result.
\<close>

section \<open>Jailing\<close>

definition jail_account ::
    "('bv, 'db, 'tr, 'en) node_env \<Rightarrow> staked_address \<Rightarrow> punishment_kind \<Rightarrow>
     ('bv, 'db, 'tr, 'en) chain_node_app \<Rightarrow> ((error + unit) \<times> ('bv, 'db, 'tr, 'en) chain_node_app) run" where
  "jail_account N staking_address punishment_kind app =
     (case acct N (uncommitted_account_root_hash app) (accounts app) staking_address of
        Inl e \<Rightarrow> Done (Err e, app)
      | Inr account \<Rightarrow>
          if is_jailed account then Done (Ok (), app)
          else run_bind (expect_opt (last_state app) ''Last state not found. Init chain was not called.'') (\<lambda>state.
            let jail_duration = get_jail_duration (network_params (top_level state));
                account' = jail_until (block_time state + jail_duration) punishment_kind account in
            run_bind (update_account (blake2s (ne_ext N)) (ne_trie N) account'
                (uncommitted_account_root_hash app) (accounts app)) (\<lambda>(new_root, m, accs).
            Done (Ok (), app\<lparr>accounts := accs, uncommitted_account_root_hash := new_root,
              power_changed_in_block := bm_insert staking_address vote_power_zero (power_changed_in_block app)\<rparr>))))"

section \<open>Slashing\<close>

definition due_schedules :: "timespec \<Rightarrow> (staked_address, slashing_schedule) btm \<Rightarrow> staked_address list" where
  "due_schedules current_time m = map fst (filter (\<lambda>(address, schedule). can_slash schedule current_time) m)"

definition drop_schedule :: "staked_address \<Rightarrow> 'bv chain_node_state \<Rightarrow> 'bv chain_node_state" where
  "drop_schedule a st = (let vs = validators st; p = vs_punishment vs in
     st\<lparr>validators := vs\<lparr>vs_punishment := p\<lparr>slashing_schedules := bm_remove a (slashing_schedules p)\<rparr>\<rparr>\<rparr>)"

definition set_bonus :: "coin \<Rightarrow> 'bv chain_node_state \<Rightarrow> 'bv chain_node_state" where
  "set_bonus c st = (let tl = top_level st in
     st\<lparr>top_level := tl\<lparr>rewards_pool := (rewards_pool tl)\<lparr>period_bonus := c\<rparr>\<rparr>\<rparr>)"

text \<open>One account of the slashing queue; the last state is held across the loop.\<close>

definition slash_one ::
    "('bv, 'db, 'tr, 'en) node_env \<Rightarrow> staked_address \<Rightarrow> 'bv chain_node_state \<times> ('bv, 'db, 'tr, 'en) chain_node_app \<Rightarrow>
     ((error + unit) \<times> 'bv chain_node_state \<times> ('bv, 'db, 'tr, 'en) chain_node_app) run" where
  "slash_one N a s = (case s of (st, app) \<Rightarrow>
     case acct N (uncommitted_account_root_hash app) (accounts app) a of
       Inl e \<Rightarrow> Done (Err e, st, app)
     | Inr account \<Rightarrow>
         if \<not> is_jailed account then Panic ''Account scheduled for slashing should already be jailed''
         else run_bind (expect_opt (bm_get (slashing_schedules (vs_punishment (validators st))) a) ''unwrap'') (\<lambda>schedule.
           let st1 = drop_schedule a st in
           run_bind (slash (slash_ratio schedule) (schedule_kind schedule) account) (\<lambda>(r, account').
           case r of
             Inl e \<Rightarrow> Done (Err InvalidSum, st1, app)
           | Inr slashed \<Rightarrow>
               (case coin_add (period_bonus (rewards_pool (top_level st1))) slashed of
                  Inl e \<Rightarrow> Done (Err InvalidSum, st1, app)
                | Inr bonus \<Rightarrow>
                    run_bind (update_account (blake2s (ne_ext N)) (ne_trie N) account'
                        (uncommitted_account_root_hash app) (accounts app)) (\<lambda>(new_root, m, accs).
                    Done (Ok (), set_bonus bonus st1,
                      app\<lparr>rewards_pool_updated := True, accounts := accs,
                        uncommitted_account_root_hash := new_root\<rparr>))))))"

fun slash_loop ::
    "('bv, 'db, 'tr, 'en) node_env \<Rightarrow> staked_address list \<Rightarrow> 'bv chain_node_state \<times> ('bv, 'db, 'tr, 'en) chain_node_app \<Rightarrow>
     ((error + unit) \<times> 'bv chain_node_state \<times> ('bv, 'db, 'tr, 'en) chain_node_app) run" where
  "slash_loop N [] s = Done (Ok (), s)"
| "slash_loop N (a # as) s = run_bind (slash_one N a s) (\<lambda>(r, s').
     case r of Inl e \<Rightarrow> Done (Err e, s') | Inr u \<Rightarrow> slash_loop N as s')"

definition account_attribute :: "('bv, 'db, 'tr, 'en) node_env \<Rightarrow> staked_address \<Rightarrow> event_key \<times> bytes" where
  "account_attribute N a = (KeyAccount, as_bytes (redeem_display N a))"

definition slash_eligible_accounts ::
    "('bv, 'db, 'tr, 'en) node_env \<Rightarrow> ('bv, 'db, 'tr, 'en) chain_node_app \<Rightarrow>
     ((error + event) \<times> ('bv, 'db, 'tr, 'en) chain_node_app) run" where
  "slash_eligible_accounts N app =
     run_bind (expect_opt (last_state app) ''Last state is not present, init_chain was not called'') (\<lambda>st.
     let accounts_to_slash = due_schedules (block_time st) (slashing_schedules (vs_punishment (validators st))) in
     run_bind (slash_loop N accounts_to_slash (st, app)) (\<lambda>(r, st', app').
     Done (and_then r (\<lambda>_. Ok \<lparr>ev_type = SlashValidators,
         ev_attributes = map (account_attribute N) accounts_to_slash\<rparr>), app'\<lparr>last_state := Some st'\<rparr>)))"

definition get_total_vote_power :: "power_map \<Rightarrow> milli" where
  "get_total_vote_power vp = milli_new (word_of_int (sum_list (map (\<lambda>(a, p). vp_int p) vp))) 0"

text \<open>Sequencing of computations that may also run forever.\<close>

definition loop_bind :: "'a run option \<Rightarrow> ('a \<Rightarrow> 'b run option) \<Rightarrow> 'b run option" where
  "loop_bind m f = (case m of None \<Rightarrow> None | Some (Panic s) \<Rightarrow> Some (Panic s) | Some (Done v) \<Rightarrow> f v)"

lemma loop_bind_simps [simp, run_simps]:
  "loop_bind None f = None" "loop_bind (Some (Panic s)) f = Some (Panic s)" "loop_bind (Some (Done v)) f = f v"
  by (simp_all add: loop_bind_def)

lemma loop_bind_eq_Done: "loop_bind m f = Some (Done w) \<longleftrightarrow> (\<exists>v. m = Some (Done v) \<and> f v = Some (Done w))"
  by (auto simp: loop_bind_def split: option.splits run.splits)

fun sum_power_roots ::
    "('bv, 'db, 'tr, 'en) node_env \<Rightarrow> h256 \<Rightarrow> 'tr \<Rightarrow> milli \<Rightarrow> staked_address list \<Rightarrow> u64 \<Rightarrow> u64 run option" where
  "sum_power_roots N root accs total_vote_power [] acc = Some (Done acc)"
| "sum_power_roots N root accs total_vote_power (address # rest) acc =
     loop_bind (Some (expect (acct N root accs address) ''Voting power for a validator not found'')) (\<lambda>account.
     loop_bind (Some (vote_power_of_coin (bonded account))) (\<lambda>power.
     loop_bind (Some (milli_div (milli_new (vote_power_u64 power) 0) total_vote_power)) (\<lambda>percent.
     loop_bind (milli_sqrt percent) (\<lambda>root_percent.
     sum_power_roots N root accs total_vote_power rest (acc + millis root_percent)))))"

definition get_slashing_proportion ::
    "('bv, 'db, 'tr, 'en) node_env \<Rightarrow> staked_address list \<Rightarrow> ('bv, 'db, 'tr, 'en) chain_node_app \<Rightarrow>
     slash_ratio run option" where
  "get_slashing_proportion N accounts_to_slash app =
     (let total_vote_power = get_total_vote_power (validator_voting_power app) in
      loop_bind (Some (expect_opt (last_state app) ''Last state is not present, init_chain was not called'')) (\<lambda>st.
      loop_bind (sum_power_roots N (account_root (top_level st)) (accounts app) total_vote_power accounts_to_slash 0)
        (\<lambda>s. let p = Milli s in
         Some (expect (slash_ratio_try_from (min (milli_new 1 0) (milli_mul p p))) ''unwrap''))))"

section \<open>Liveness\<close>

record vote_info =
  vi_validator :: "bytes option"
  signed_last_block :: bool

fun update_validator_liveness ::
    "'bv bitvec \<Rightarrow> block_height \<Rightarrow> vote_info list \<Rightarrow> 'bv chain_node_state \<Rightarrow> 'bv chain_node_state run" where
  "update_validator_liveness B height [] st = Done st"
| "update_validator_liveness B height (v # votes) st =
     run_bind (expect_opt (vi_validator v) ''No validator address in vote_info'') (\<lambda>bytes.
     run_bind (expect (tm_address_try_from bytes) ''Invalid address in vote_info'') (\<lambda>address.
     let vs = validators st; p = vs_punishment vs in
     (case bm_get (validator_liveness p) address of
        Some tracker \<Rightarrow> run_bind (tracker_update B height (signed_last_block v) tracker) (\<lambda>tracker'.
          update_validator_liveness B height votes (st\<lparr>validators := vs\<lparr>vs_punishment :=
            p\<lparr>validator_liveness := bm_insert address tracker' (validator_liveness p)\<rparr>\<rparr>\<rparr>))
      | None \<Rightarrow> update_validator_liveness B height votes st)))"

section \<open>The handler\<close>

record block_header =
  hd_height :: block_height
  hd_time :: "int option"
  hd_proposer :: bytes

record begin_block_request =
  bb_header :: "block_header option"
  bb_last_commit_info :: "vote_info list option"
  bb_byzantine_validators :: "bytes option list"

type_synonym offence = "staked_address \<times> slash_ratio \<times> punishment_kind"

fun byzantine_offences :: "'bv chain_node_state \<Rightarrow> bytes option list \<Rightarrow> offence list run" where
  "byzantine_offences st [] = Done []"
| "byzantine_offences st (None # es) = byzantine_offences st es"
| "byzantine_offences st (Some b # es) =
     run_bind (expect (tm_address_try_from b) ''Invalid validator address in begin block request'') (\<lambda>v.
     run_bind (expect_opt (bm_get (tendermint_validator_addresses (validators st)) v)
       ''Staking account address not found for tendermint validator address'') (\<lambda>a.
     run_bind (byzantine_offences st es) (\<lambda>os.
     Done ((a, get_byzantine_slash_percent (network_params (top_level st)), ByzantineFault) # os))))"

fun liveness_offences ::
    "'bv bitvec \<Rightarrow> 'bv chain_node_state \<Rightarrow> (tm_address \<times> 'bv liveness_tracker) list \<Rightarrow> offence list run" where
  "liveness_offences B st [] = Done []"
| "liveness_offences B st ((v, tracker) # ts) =
     (if is_live B (get_missed_block_threshold (network_params (top_level st))) tracker
      then liveness_offences B st ts
      else run_bind (expect_opt (bm_get (tendermint_validator_addresses (validators st)) v)
          ''Staking account address for tendermint validator address not found'') (\<lambda>a.
        run_bind (liveness_offences B st ts) (\<lambda>os.
        Done ((a, get_liveness_slash_percent (network_params (top_level st)), NonLive) # os))))"

fun schedule_slashes ::
    "slash_ratio \<Rightarrow> timespec \<Rightarrow> offence list \<Rightarrow> (staked_address, slashing_schedule) btm \<Rightarrow>
     (staked_address, slashing_schedule) btm run" where
  "schedule_slashes proportion time [] m = Done m"
| "schedule_slashes proportion time ((a, ratio, kind) # os) m =
     run_bind (slash_ratio_mul ratio proportion) (\<lambda>r.
     schedule_slashes proportion time os
       (bm_insert a (case bm_get m a of
          Some schedule \<Rightarrow> update_slash_ratio r kind schedule
        | None \<Rightarrow> schedule_new r time kind) m))"

fun jail_all ::
    "('bv, 'db, 'tr, 'en) node_env \<Rightarrow> offence list \<Rightarrow> ('bv, 'db, 'tr, 'en) chain_node_app \<Rightarrow>
     ('bv, 'db, 'tr, 'en) chain_node_app run" where
  "jail_all N [] app = Done app"
| "jail_all N ((a, ratio, kind) # os) app =
     run_bind (jail_account N a kind app) (\<lambda>(r, app').
     run_bind (expect r ''Unable to jail account in begin block'') (\<lambda>_.
     jail_all N os app'))"

definition set_schedules ::
    "(staked_address, slashing_schedule) btm \<Rightarrow> 'bv chain_node_state \<Rightarrow> 'bv chain_node_state" where
  "set_schedules m st = (let vs = validators st in
     st\<lparr>validators := vs\<lparr>vs_punishment := (vs_punishment vs)\<lparr>slashing_schedules := m\<rparr>\<rparr>\<rparr>)"

text \<open>
  The handler up to the rewards: the time and the trackers are updated, the
  offenders are scheduled and jailed, and the due slashes are carried out.
\<close>

definition punish ::
    "('bv, 'db, 'tr, 'en) node_env \<Rightarrow> offence list \<Rightarrow> slash_ratio \<Rightarrow> 'bv chain_node_state \<Rightarrow>
     ('bv, 'db, 'tr, 'en) chain_node_app \<Rightarrow> (event \<times> event \<times> ('bv, 'db, 'tr, 'en) chain_node_app) run" where
  "punish N offences proportion st app =
     (let slashing_time = block_time st + get_slash_wait_period (network_params (top_level st)) in
      run_bind (schedule_slashes proportion slashing_time offences
          (slashing_schedules (vs_punishment (validators st)))) (\<lambda>m.
      run_bind (jail_all N offences (app\<lparr>last_state := Some (set_schedules m st)\<rparr>)) (\<lambda>app1.
      run_bind (slash_eligible_accounts N app1) (\<lambda>(r, app2).
      run_bind (expect r ''Unable to slash accounts in slashing queue'') (\<lambda>slashing_event.
      Done (\<lparr>ev_type = JailValidators, ev_attributes = map (\<lambda>(a, ratio, kind). account_attribute N a) offences\<rparr>,
        slashing_event, app2))))))"

definition rewards_event :: "((staked_address \<times> coin) list \<Rightarrow> string) \<Rightarrow> (staked_address \<times> coin) list \<times> coin \<Rightarrow> event" where
  "rewards_event json d = (case d of (distributed, new_minted) \<Rightarrow>
     \<lparr>ev_type = RewardsDistributionEvent, ev_attributes =
       [(KeyRewardsDistribution, as_bytes (json distributed)), (KeyCoinMinted, as_bytes (coin_display new_minted))]\<rparr>)"

definition begin_block_state ::
    "('bv, 'db, 'tr, 'en) node_env \<Rightarrow> begin_block_request \<Rightarrow> ('bv, 'db, 'tr, 'en) chain_node_app \<Rightarrow>
     (tm_address \<times> 'bv chain_node_state) run" where
  "begin_block_state N req app =
     run_bind (expect_opt (bb_header req) ''No block header in begin block request from tendermint'') (\<lambda>header.
     run_bind (expect_opt (hd_time header) ''No timestamp in begin block request from tendermint'') (\<lambda>time.
     run_bind (expect (tm_address_try_from (hd_proposer header)) ''invalid proposer_address'') (\<lambda>proposer.
     run_bind (expect_opt (last_state app)
       ''executing begin block, but no app state stored (i.e. no initchain or recovery was executed)'') (\<lambda>st.
     run_bind (if time \<ge> 0 then Done (word_of_int time) else Panic ''invalid block time'') (\<lambda>t.
     let st1 = st\<lparr>block_time := t\<rparr> in
     run_bind (if hd_height header > 1
       then (case bb_last_commit_info req of
           Some votes \<Rightarrow> update_validator_liveness (ne_bv N) (hd_height header - 1) votes st1
         | None \<Rightarrow> Panic ''No last commit info in begin block request for height'')
       else Done st1) (\<lambda>st2.
     Done (proposer, st2)))))))"

definition begin_block ::
    "('bv, 'db, 'tr, 'en) node_env \<Rightarrow> 'fx fixed_ops \<Rightarrow> ((staked_address \<times> coin) list \<Rightarrow> string) \<Rightarrow>
     begin_block_request \<Rightarrow> ('bv, 'db, 'tr, 'en) chain_node_app \<Rightarrow>
     (event list \<times> ('bv, 'db, 'tr, 'en) chain_node_app) run option" where
  "begin_block N F json req app =
     loop_bind (Some (begin_block_state N req app)) (\<lambda>(proposer, st).
     loop_bind (Some (byzantine_offences st (bb_byzantine_validators req))) (\<lambda>byzantine.
     loop_bind (Some (liveness_offences (ne_bv N) st (validator_liveness (vs_punishment (validators st))))) (\<lambda>missing.
     let offences = byzantine @ missing in
     loop_bind (get_slashing_proportion N (map fst offences) (app\<lparr>last_state := Some st\<rparr>)) (\<lambda>proportion.
     Some (
       run_bind (punish N offences proportion st app) (\<lambda>(jailing_event, slashing_event, app2).
       run_bind (rewards_record_proposer proposer app2) (\<lambda>app3.
       run_bind (rewards_try_distribute N F app3) (\<lambda>(d, app4).
       Done ((if ev_attributes jailing_event = [] then [] else [jailing_event]) @
             (if ev_attributes slashing_event = [] then [] else [slashing_event]) @
             (case d of None \<Rightarrow> [] | Some r \<Rightarrow> [rewards_event json r]), app4)))))))))"

section \<open>Slashing conserves coins\<close>

abbreviation app_acct ::
    "('bv, 'db, 'tr, 'en) node_env \<Rightarrow> ('bv, 'db, 'tr, 'en) chain_node_app \<Rightarrow> staked_address \<Rightarrow> error + staked_state" where
  "app_acct N app a \<equiv> acct N (uncommitted_account_root_hash app) (accounts app) a"

abbreviation schedules_of :: "'bv chain_node_state \<Rightarrow> (staked_address, slashing_schedule) btm" where
  "schedules_of st \<equiv> slashing_schedules (vs_punishment (validators st))"

abbreviation bonus_of :: "'bv chain_node_state \<Rightarrow> coin" where
  "bonus_of st \<equiv> period_bonus (rewards_pool (top_level st))"

definition slash_of :: "slashing_schedule \<Rightarrow> staked_state \<Rightarrow> nat" where
  "slash_of sch s = coin_val (bonded s) * milli_val (ratio_milli (slash_ratio sch)) div 1000 +
     coin_val (unbonded s) * milli_val (ratio_milli (slash_ratio sch)) div 1000"

text \<open>What the loop needs of an address in the queue.\<close>

definition slashable :: "('bv, 'db, 'tr, 'en) node_env \<Rightarrow> 'bv chain_node_state \<Rightarrow> ('bv, 'db, 'tr, 'en) chain_node_app \<Rightarrow>
    staked_address \<Rightarrow> bool" where
  "slashable N st app a \<longleftrightarrow> (\<exists>s sch. app_acct N app a = Ok s \<and> ss_address s = a \<and> valid_account s \<and>
     bm_get (schedules_of st) a = Some sch \<and> valid_ratio (slash_ratio sch))"

definition acct_total :: "('bv, 'db, 'tr, 'en) node_env \<Rightarrow> ('bv, 'db, 'tr, 'en) chain_node_app \<Rightarrow> staked_address \<Rightarrow> nat" where
  "acct_total N app a = (case app_acct N app a of Inl e \<Rightarrow> 0 | Inr s \<Rightarrow> account_total s)"

lemma state_update_simps [simp]:
  "schedules_of (drop_schedule a st) = bm_remove a (schedules_of st)" "bonus_of (drop_schedule a st) = bonus_of st"
  "schedules_of (set_bonus c st) = schedules_of st" "bonus_of (set_bonus c st) = c"
  by (simp_all add: drop_schedule_def set_bonus_def Let_def)

lemma slash_one_Done:
  assumes "trie_laws (ne_trie N)" "slashable N st app a" "slash_one N a (st, app) = Done (r, st', app')"
    and "coin_val (bonus_of st) + acct_total N app a \<le> max_supply"
  obtains s s' sch where "r = Ok ()" "app_acct N app a = Ok s" "is_jailed s" "is_jailed s'"
    "bm_get (schedules_of st) a = Some sch" "account_total s = account_total s' + slash_of sch s"
    "\<And>b. app_acct N app' b = (if stake_key N b = stake_key N a then Ok s' else app_acct N app b)"
    "coin_val (bonus_of st') = coin_val (bonus_of st) + slash_of sch s"
    "schedules_of st' = bm_remove a (schedules_of st)"
proof -
  from assms(2) obtain s sch where s: "app_acct N app a = Ok s" "ss_address s = a" "valid_account s"
      "bm_get (schedules_of st) a = Some sch" "valid_ratio (slash_ratio sch)" by (auto simp: slashable_def)
  have j: "is_jailed s" using assms(3) s(1) by (auto simp: slash_one_def split: if_splits)
  obtain slashed s' where sl: "slash (slash_ratio sch) (schedule_kind sch) s = Done (Ok slashed, s')"
      "account_total s = account_total s' + coin_val slashed" "coin_val slashed = slash_of sch s"
      "ss_address s' = ss_address s" "is_jailed s' = is_jailed s"
    using slash_Done [OF s(3,5), of "schedule_kind sch"] by (metis slash_of_def)
  have "coin_val (bonus_of st) + coin_val slashed \<le> max_supply"
    using assms(4) sl(2) s(1) by (simp add: acct_total_def)
  then obtain bonus where bonus: "coin_add (bonus_of st) slashed = Ok bonus" using coin_add_total by blast
  then have bv: "coin_val bonus = coin_val (bonus_of st) + coin_val slashed" by (simp add: coin_add_eq_Ok)
  from assms(3) s(1,4) j sl(1) bonus obtain root m accs where
    up: "update_account (blake2s (ne_ext N)) (ne_trie N) s' (uncommitted_account_root_hash app) (accounts app) = Done (root, m, accs)"
      and res: "r = Ok ()" "st' = set_bonus bonus (drop_schedule a st)"
        "app' = app\<lparr>rewards_pool_updated := True, accounts := accs, uncommitted_account_root_hash := root\<rparr>"
    by (auto simp: slash_one_def Let_def run_bind_eq_Done)
  have "app_acct N app' b = (if stake_key N b = stake_key N a then Ok s' else app_acct N app b)" for b
    using update_account_Done [OF assms(1) up, of b] res(3) s(2) sl(4) by simp
  with that [OF res(1) s(1) j _ s(4)] sl(2,3,5) j res(2) bv show thesis by simp
qed

lemma slash_loop_Done:
  assumes "trie_laws (ne_trie N)" "distinct (map (stake_key N) as)" "\<forall>a \<in> set as. slashable N st app a"
    and "coin_val (bonus_of st) + sum_list (map (acct_total N app) as) \<le> max_supply"
    and "slash_loop N as (st, app) = Done (r, st', app')"
  shows "r = Ok () \<and> coin_val (bonus_of st') + sum_list (map (acct_total N app') as) =
      coin_val (bonus_of st) + sum_list (map (acct_total N app) as) \<and>
    (\<forall>a \<in> set as. \<exists>s s' sch. app_acct N app a = Ok s \<and> is_jailed s \<and> bm_get (schedules_of st) a = Some sch \<and>
       app_acct N app' a = Ok s' \<and> is_jailed s' \<and> account_total s = account_total s' + slash_of sch s) \<and>
    (\<forall>b. stake_key N b \<notin> stake_key N ` set as \<longrightarrow> app_acct N app' b = app_acct N app b) \<and>
    schedules_of st' = fold bm_remove as (schedules_of st)"
  using assms(2-5)
proof (induction as arbitrary: st app)
  case Nil
  then show ?case by simp
next
  case (Cons a as)
  have sa: "slashable N st app a" using Cons.prems(2) by simp
  from Cons.prems(4) obtain r1 st1 app1 where one: "slash_one N a (st, app) = Done (r1, st1, app1)"
      "(case r1 of Inl e \<Rightarrow> Done (Err e, st1, app1) | Inr u \<Rightarrow> slash_loop N as (st1, app1)) = Done (r, st', app')"
    by (auto simp: run_bind_eq_Done)
  have "coin_val (bonus_of st) + acct_total N app a \<le> max_supply" using Cons.prems(3) by simp
  from slash_one_Done [OF assms(1) sa one(1) this] obtain s s' sch where
    st1: "r1 = Ok ()" "app_acct N app a = Ok s" "is_jailed s" "is_jailed s'"
      "bm_get (schedules_of st) a = Some sch" "account_total s = account_total s' + slash_of sch s"
      "\<And>b. app_acct N app1 b = (if stake_key N b = stake_key N a then Ok s' else app_acct N app b)"
      "coin_val (bonus_of st1) = coin_val (bonus_of st) + slash_of sch s"
      "schedules_of st1 = bm_remove a (schedules_of st)" by blast
  have fresh: "stake_key N a \<notin> stake_key N ` set as" using Cons.prems(1) by simp
  then have keep: "b \<in> set as \<Longrightarrow> app_acct N app1 b = app_acct N app b" "b \<in> set as \<Longrightarrow> b \<noteq> a" for b
    using st1(7) by (metis image_eqI)+
  have sch: "b \<in> set as \<Longrightarrow> bm_get (schedules_of st1) b = bm_get (schedules_of st) b" for b
    using keep(2) st1(9) by (simp add: bm_get_remove)
  have "map (acct_total N app1) as = map (acct_total N app) as"
    using keep(1) by (simp add: acct_total_def)
  then have tot: "sum_list (map (acct_total N app1) as) = sum_list (map (acct_total N app) as)" by (simp only:)
  have ta: "acct_total N app a = account_total s" using st1(2) by (simp add: acct_total_def)
  have run: "slash_loop N as (st1, app1) = Done (r, st', app')" using one(2) st1(1) by simp
  have "\<forall>b \<in> set as. slashable N st1 app1 b"
    using Cons.prems(2) keep(1) sch by (simp add: slashable_def)
  moreover have "coin_val (bonus_of st1) + sum_list (map (acct_total N app1) as) \<le> max_supply"
    using Cons.prems(3) st1(6,8) tot ta by simp
  ultimately have ih: "r = Ok ()" "coin_val (bonus_of st') + sum_list (map (acct_total N app') as) =
      coin_val (bonus_of st1) + sum_list (map (acct_total N app1) as)"
      "\<forall>a \<in> set as. \<exists>s s' sch. app_acct N app1 a = Ok s \<and> is_jailed s \<and> bm_get (schedules_of st1) a = Some sch \<and>
        app_acct N app' a = Ok s' \<and> is_jailed s' \<and> account_total s = account_total s' + slash_of sch s"
      "\<forall>b. stake_key N b \<notin> stake_key N ` set as \<longrightarrow> app_acct N app' b = app_acct N app1 b"
      "schedules_of st' = fold bm_remove as (schedules_of st1)"
    using Cons.IH [OF _ _ _ run] Cons.prems(1) by simp_all
  have a': "app_acct N app' a = Ok s'" using ih(4) fresh st1(7) by simp
  then have ta': "acct_total N app' a = account_total s'" by (simp add: acct_total_def)
  have sum: "coin_val (bonus_of st') + sum_list (map (acct_total N app') (a # as)) =
      coin_val (bonus_of st) + sum_list (map (acct_total N app) (a # as))"
    using ih(2) tot st1(6,8) ta ta' by simp
  have each: "\<forall>b \<in> set (a # as). \<exists>s s' sch. app_acct N app b = Ok s \<and> is_jailed s \<and>
      bm_get (schedules_of st) b = Some sch \<and>
      app_acct N app' b = Ok s' \<and> is_jailed s' \<and> account_total s = account_total s' + slash_of sch s"
    using ih(3) keep(1) sch st1(2-6) a' by simp
  show ?case using ih(1,4,5) sum each st1(7,9) by simp
qed

lemma due_schedules_keys:
  assumes "bm_wf m"
  shows "a \<in> set (due_schedules t m) \<longleftrightarrow> (\<exists>sch. bm_get m a = Some sch \<and> can_slash sch t)"
  using bm_entries_get [OF assms] by (force simp: due_schedules_def)

lemma fold_bm_remove: "fold bm_remove ks m = filter (\<lambda>p. fst p \<notin> set ks) m"
  by (induction ks arbitrary: m) (auto simp: bm_remove_def intro: filter_cong)

lemma remove_due:
  assumes "bm_wf m"
  shows "fold bm_remove (due_schedules t m) m = filter (\<lambda>(a, sch). \<not> can_slash sch t) m"
  unfolding fold_bm_remove
proof (rule filter_cong [OF refl])
  fix p
  assume "p \<in> set m"
  then have "bm_get m (fst p) = Some (snd p)" using bm_entries_get [OF assms] by (metis prod.collapse)
  then show "(fst p \<notin> set (due_schedules t m)) = (case p of (a, sch) \<Rightarrow> \<not> can_slash sch t)"
    by (simp add: due_schedules_keys [OF assms] case_prod_unfold)
qed

section \<open>Jailing is kept\<close>

text \<open>
  Accounts are stored under the key of their own address, and from one application
  state to the next every account stays and none leaves jail.
\<close>

definition stored_ok :: "('bv, 'db, 'tr, 'en) node_env \<Rightarrow> ('bv, 'db, 'tr, 'en) chain_node_app \<Rightarrow> bool" where
  "stored_ok N app \<longleftrightarrow> (\<forall>a s. app_acct N app a = Ok s \<longrightarrow> stake_key N (ss_address s) = stake_key N a)"

definition jail_kept ::
    "('bv, 'db, 'tr, 'en) node_env \<Rightarrow> ('bv, 'db, 'tr, 'en) chain_node_app \<Rightarrow> ('bv, 'db, 'tr, 'en) chain_node_app \<Rightarrow> bool" where
  "jail_kept N app app' \<longleftrightarrow> stored_ok N app' \<and>
     (\<forall>a s. app_acct N app a = Ok s \<longrightarrow> (\<exists>s'. app_acct N app' a = Ok s' \<and> (is_jailed s \<longrightarrow> is_jailed s')))"

definition jailed_in :: "('bv, 'db, 'tr, 'en) node_env \<Rightarrow> ('bv, 'db, 'tr, 'en) chain_node_app \<Rightarrow> staked_address \<Rightarrow> bool" where
  "jailed_in N app a \<longleftrightarrow> (\<exists>s. app_acct N app a = Ok s \<and> is_jailed s)"

lemma jail_kept_refl: "stored_ok N app \<Longrightarrow> jail_kept N app app"
  by (auto simp: jail_kept_def)

lemma jail_kept_trans: "jail_kept N app app1 \<Longrightarrow> jail_kept N app1 app2 \<Longrightarrow> jail_kept N app app2"
  unfolding jail_kept_def by (metis (no_types, lifting))

lemma jail_kept_stored: "jail_kept N app app' \<Longrightarrow> stored_ok N app'"
  by (simp add: jail_kept_def)

lemma jail_kept_jailed: "jail_kept N app app' \<Longrightarrow> jailed_in N app a \<Longrightarrow> jailed_in N app' a"
  unfolding jail_kept_def jailed_in_def by metis

text \<open>Writing back an account under its own address.\<close>

lemma write_back_kept:
  assumes "trie_laws (ne_trie N)" "stored_ok N app" "app_acct N app a = Ok s"
    and "ss_address s' = ss_address s" "is_jailed s \<longrightarrow> is_jailed s'"
    and "update_account (blake2s (ne_ext N)) (ne_trie N) s' (uncommitted_account_root_hash app) (accounts app) = Done (root, m, accs)"
    and "uncommitted_account_root_hash app' = root" "accounts app' = accs"
  shows "jail_kept N app app'" "app_acct N app' a = Ok s'"
proof -
  have key: "stake_key N (ss_address s') = stake_key N a" using assms(2-4) by (simp add: stored_ok_def)
  have upd: "app_acct N app' b = (if stake_key N b = stake_key N a then Ok s' else app_acct N app b)" for b
    using update_account_Done [OF assms(1,6), of b] assms(7,8) key by simp
  then show "app_acct N app' a = Ok s'" by simp
  have same: "app_acct N app b = Ok s" if "stake_key N b = stake_key N a" for b
    using assms(3) that by (simp add: get_account_def)
  have "\<exists>t'. app_acct N app' b = Ok t' \<and> (is_jailed t \<longrightarrow> is_jailed t')" if "app_acct N app b = Ok t" for b t
    using upd [of b] same [of b] that assms(5) by auto
  moreover have "stored_ok N app'" unfolding stored_ok_def
  proof (intro allI impI)
    fix b t
    assume "app_acct N app' b = Ok t"
    with upd [of b] assms(2) key show "stake_key N (ss_address t) = stake_key N b"
      by (auto simp: stored_ok_def split: if_splits)
  qed
  ultimately show "jail_kept N app app'" by (simp add: jail_kept_def)
qed

lemma jail_account_Done:
  assumes "trie_laws (ne_trie N)" "stored_ok N app" "jail_account N a k app = Done (Ok (), app')"
  shows "jail_kept N app app'" "jailed_in N app' a" "last_state app' = last_state app"
proof -
  obtain s where s: "app_acct N app a = Ok s" using assms(3) by (auto simp: jail_account_def split: sum.splits)
  show "jail_kept N app app'" "jailed_in N app' a" "last_state app' = last_state app"
  proof (atomize (full), cases "is_jailed s")
    case True
    with assms(2,3) s have "app' = app" by (simp add: jail_account_def)
    with assms(2) s True show "jail_kept N app app' \<and> jailed_in N app' a \<and> last_state app' = last_state app"
      by (auto simp: jail_kept_refl jailed_in_def)
  next
    case False
    with assms(3) s obtain st where st: "last_state app = Some st" by (auto simp: jail_account_def run_elims)
    with False assms(3) s obtain root m accs where
      up: "update_account (blake2s (ne_ext N)) (ne_trie N)
          (jail_until (block_time st + get_jail_duration (network_params (top_level st))) k s)
          (uncommitted_account_root_hash app) (accounts app) = Done (root, m, accs)"
        and app': "accounts app' = accs" "uncommitted_account_root_hash app' = root" "last_state app' = last_state app"
      by (auto simp: jail_account_def Let_def run_elims)
    let ?s = "jail_until (block_time st + get_jail_duration (network_params (top_level st))) k s"
    have "ss_address ?s = ss_address s" "is_jailed ?s" by (simp_all add: jail_until_def is_jailed_def)
    with write_back_kept [OF assms(1,2) s _ _ up, of app'] app'
    show "jail_kept N app app' \<and> jailed_in N app' a \<and> last_state app' = last_state app"
      by (auto simp: jailed_in_def)
  qed
qed

lemma jail_all_Done:
  assumes "trie_laws (ne_trie N)" "stored_ok N app" "jail_all N os app = Done app'"
  shows "jail_kept N app app'" "\<forall>(a, r, k) \<in> set os. jailed_in N app' a" "last_state app' = last_state app"
  using assms(2,3)
proof (atomize (full), induction os arbitrary: app)
  case Nil
  then show ?case by (simp add: jail_kept_refl)
next
  case (Cons c os)
  obtain a r k where c: "c = (a, r, k)" by (cases c)
  with Cons.prems(2) obtain app1 where one: "jail_account N a k app = Done (Ok (), app1)" "jail_all N os app1 = Done app'"
    by (auto simp: run_elims)
  note first = jail_account_Done [OF assms(1) Cons.prems(1) one(1)]
  with Cons.IH [OF jail_kept_stored [OF first(1)] one(2)]
  show ?case by (auto simp: c intro: jail_kept_trans jail_kept_jailed)
qed

lemma slash_keeps:
  assumes "slash r k s = Done (Ok c, s')"
  shows "ss_address s' = ss_address s \<and> is_jailed s' = is_jailed s"
proof -
  obtain x y where "coin_mul_ratio (bonded s) r = Done x" "coin_mul_ratio (unbonded s) r = Done y"
    using assms by (auto simp: slash_def Let_def run_elims)
  with assms show ?thesis
    by (cases "coin_sub (bonded s) x"; cases "coin_sub (unbonded s) y"; cases "coin_add x y")
      (auto simp: slash_def Let_def is_jailed_def)
qed

lemma slash_loop_kept:
  assumes "trie_laws (ne_trie N)" "stored_ok N app" "slash_loop N as (st, app) = Done (Ok (), st', app')"
  shows "jail_kept N app app'"
  using assms(2,3)
proof (induction as arbitrary: st app)
  case Nil
  then show ?case by (simp add: jail_kept_refl)
next
  case (Cons a as)
  from Cons.prems(2) obtain r st1 app1 where "slash_one N a (st, app) = Done (r, st1, app1)"
      "(case r of Inl e \<Rightarrow> Done (Err e, st1, app1) | Inr u \<Rightarrow> slash_loop N as (st1, app1)) = Done (Ok (), st', app')"
    by (auto simp: run_bind_eq_Done)
  then have one: "slash_one N a (st, app) = Done (Ok (), st1, app1)"
      "slash_loop N as (st1, app1) = Done (Ok (), st', app')" by (cases r; simp)+
  then obtain s where s: "app_acct N app a = Ok s" by (auto simp: slash_one_def split: sum.splits)
  with one(1) obtain sch r s' where
    sl: "bm_get (schedules_of st) a = Some sch" "slash (slash_ratio sch) (schedule_kind sch) s = Done (r, s')" "is_jailed s"
    by (auto simp: slash_one_def Let_def run_bind_eq_Done expect_opt_eq_Done split: if_splits)
  with one(1) s obtain slashed where slashed: "r = Ok slashed" by (cases r) (auto simp: slash_one_def Let_def)
  with one(1) s sl obtain bonus where "coin_add (bonus_of st) slashed = Ok bonus"
    by (cases "coin_add (bonus_of st) slashed") (auto simp: slash_one_def Let_def)
  with one(1) s sl slashed obtain root m accs where
      up: "update_account (blake2s (ne_ext N)) (ne_trie N) s' (uncommitted_account_root_hash app) (accounts app) = Done (root, m, accs)"
      and app1: "accounts app1 = accs" "uncommitted_account_root_hash app1 = root"
    by (auto simp: slash_one_def Let_def run_bind_eq_Done)
  have "jail_kept N app app1"
    using write_back_kept(1) [OF assms(1) Cons.prems(1) s _ _ up, of app1] slash_keeps [OF sl(2) [unfolded slashed]] app1 by simp
  with Cons.IH [OF jail_kept_stored one(2)] show ?case by (blast intro: jail_kept_trans)
qed

lemma jail_kept_cong:
  assumes "uncommitted_account_root_hash app2 = uncommitted_account_root_hash app1" "accounts app2 = accounts app1"
  shows "jail_kept N app app1 \<longleftrightarrow> jail_kept N app app2" "jail_kept N app1 app \<longleftrightarrow> jail_kept N app2 app"
    "stored_ok N app1 \<longleftrightarrow> stored_ok N app2"
  using assms by (simp_all add: jail_kept_def stored_ok_def)

lemma distribute_kept:
  assumes "trie_laws (ne_trie N)" "stored_ok N app"
    and "distribute N share stats (uncommitted_account_root_hash app, accounts app, ds, pw) = Done (root', accs', ds', pw')"
  shows "jail_kept N app (app\<lparr>uncommitted_account_root_hash := root', accounts := accs'\<rparr>)"
  using assms(2,3)
proof (induction stats arbitrary: app ds pw)
  case Nil
  then show ?case
    using jail_kept_cong(1) [of "app\<lparr>uncommitted_account_root_hash := root', accounts := accs'\<rparr>" app N app]
    by (simp add: jail_kept_refl)
next
  case (Cons e stats)
  obtain addr k where e: "e = (addr, k)" by (cases e)
  with Cons.prems(2) obtain s b root1 m accs1 ds1 pw1 where
    s: "app_acct N app addr = Ok s"
      and up: "update_account (blake2s (ne_ext N)) (ne_trie N) (s\<lparr>bonded := b\<rparr>) (uncommitted_account_root_hash app) (accounts app) = Done (root1, m, accs1)"
      and rest: "distribute N share stats (root1, accs1, ds1, pw1) = Done (root', accs', ds', pw')"
    by (auto simp: run_elims add_reward_bind)
  let ?app1 = "app\<lparr>uncommitted_account_root_hash := root1, accounts := accs1\<rparr>"
  have "jail_kept N app ?app1"
    using write_back_kept(1) [OF assms(1) Cons.prems(1) s _ _ up, of ?app1] by (simp add: is_jailed_def)
  with Cons.IH [of ?app1 ds1 pw1] rest show ?case
    using jail_kept_stored jail_kept_trans by fastforce
qed

lemma rewards_kept:
  assumes "trie_laws (ne_trie N)" "stored_ok N app" "rewards_try_distribute N F app = Done (d, app')"
  shows "jail_kept N app app'"
proof (cases d)
  case None
  with assms(3) have "app' = app"
    by (auto simp: rewards_try_distribute_def Let_def run_elims simp del: distribute.simps split: if_splits)
  with assms(2) show ?thesis by (simp add: jail_kept_refl)
next
  case (Some r)
  obtain distributed m where r: "r = (distributed, m)" by (cases r)
  obtain st where st: "last_state app = Some st" using assms(3) by (auto simp: rewards_try_distribute_def run_elims)
  from assms(3) Some r have run: "rewards_try_distribute N F app = Done (Some (distributed, m), app')" by simp
  from run st show ?thesis
  proof (cases rule: rewards_try_distribute_Done)
    case (1 staking tau' total minted' share bonus root accs powers)
    let ?app = "app\<lparr>uncommitted_account_root_hash := root, accounts := accs\<rparr>"
    have "jail_kept N app ?app"
    proof (cases "share > coin_zero")
      case True
      with 1(7) distribute_kept [OF assms(1,2)] show ?thesis by simp
    next
      case False
      with 1(7) assms(2) show ?thesis using jail_kept_cong(1) [of ?app app N app] by (simp add: jail_kept_refl)
    qed
    then show ?thesis using jail_kept_cong(1) [of app' ?app N app] 1(8) by simp
  qed
qed

lemma byzantine_offences_all:
  "byzantine_offences st es = Done os \<Longrightarrow> Some b \<in> set es \<Longrightarrow>
     \<exists>v a r k. tm_address_try_from b = Ok v \<and> bm_get (tendermint_validator_addresses (validators st)) v = Some a \<and>
       (a, r, k) \<in> set os"
  by (induction st es arbitrary: os rule: byzantine_offences.induct) (fastforce simp: run_elims)+

lemma liveness_offences_all:
  "liveness_offences B st ts = Done os \<Longrightarrow> (v, t) \<in> set ts \<Longrightarrow>
     \<not> is_live B (get_missed_block_threshold (network_params (top_level st))) t \<Longrightarrow>
     \<exists>a r k. bm_get (tendermint_validator_addresses (validators st)) v = Some a \<and> (a, r, k) \<in> set os"
  by (induction B st ts arbitrary: os rule: liveness_offences.induct) (fastforce simp: run_elims split: if_splits)+

lemma punish_Done:
  assumes "trie_laws (ne_trie N)" "stored_ok N app" "punish N os p st app = Done (je, se, app')"
  shows "jail_kept N app app'" "\<forall>(a, r, k) \<in> set os. jailed_in N app' a"
proof -
  from assms(3) obtain m app1 r where run: "jail_all N os (app\<lparr>last_state := Some (set_schedules m st)\<rparr>) = Done app1"
      "slash_eligible_accounts N app1 = Done (Ok r, app')"
    by (auto simp: punish_def Let_def run_elims)
  have "stored_ok N (app\<lparr>last_state := Some (set_schedules m st)\<rparr>)" using assms(2) by (simp add: stored_ok_def)
  note j = jail_all_Done [OF assms(1) this run(1)]
  have k1: "jail_kept N app app1" using j(1) jail_kept_cong(2) [of "app\<lparr>last_state := Some (set_schedules m st)\<rparr>" app N app1] by simp
  from run(2) obtain st1 as st2 app2 where sl: "slash_loop N as (st1, app1) = Done (Ok (), st2, app2)"
      "app' = app2\<lparr>last_state := Some st2\<rparr>"
    by (auto simp: slash_eligible_accounts_def Let_def run_elims)
  have "jail_kept N app1 app'"
    using slash_loop_kept [OF assms(1) jail_kept_stored [OF j(1)] sl(1)] jail_kept_cong(1) [of app' app2 N app1] sl(2) by simp
  with k1 j(2) show "jail_kept N app app'" "\<forall>(a, r, k) \<in> set os. jailed_in N app' a"
    by (auto intro: jail_kept_trans jail_kept_jailed)
qed

section \<open>Termination\<close>

text \<open>A share of the voting power is small enough for the square root.\<close>

lemma power_share_small:
  assumes "milli_div (milli_new (vote_power_u64 (VotePower (int (coin_units c)))) 0) t = Done q"
  shows "milli_val q < 2 ^ 64 - 2000"
proof -
  define u where "u = coin_units c"
  have ub: "u < 184467440738" using coin_units_bound by (simp add: u_def)
  have "vote_power_u64 (VotePower (int u)) = of_nat u" by (simp add: vote_power_u64_def)
  moreover have "unat (of_nat u :: u64) = u" using ub by (simp add: unat_of_nat take_bit_nat_eq_self)
  moreover have "unat (of_nat u * 1000 :: u64) = u * 1000"
    using ub calculation(2) by (subst unat_mul_no_wrap) simp_all
  ultimately have a: "milli_val (milli_new (vote_power_u64 (VotePower (int u))) 0) = u * 1000"
    by (simp add: milli_new_def)
  have nz: "milli_val t \<noteq> 0"
    using assms by (auto simp: milli_div_def Let_def milli_val_def unat_eq_0 split: if_splits)
  have "u * 1000 * 1000 div milli_val t \<le> u * 1000 * 1000" by (rule div_le_dividend)
  also have "\<dots> < 2 ^ 64 - 2000" using ub by simp
  finally have small: "u * 1000 * 1000 div milli_val t < 2 ^ 64 - 2000" .
  then have "milli_val (milli_new (vote_power_u64 (VotePower (int u))) 0) * 1000 div milli_val t < 2 ^ 64"
    unfolding a by simp
  from milli_div_Done [OF nz this] obtain q' where
    "milli_div (milli_new (vote_power_u64 (VotePower (int u))) 0) t = Done q'"
    "milli_val q' = u * 1000 * 1000 div milli_val t" unfolding a by blast
  with assms small show ?thesis by (simp add: u_def)
qed

lemma sum_power_roots_returns:
  "\<exists>r. sum_power_roots N root accs t as acc = Some r"
proof (induction as arbitrary: acc)
  case (Cons a as)
  show ?case
  proof (cases "acct N root accs a")
    case (Inr s)
    let ?p = "milli_new (vote_power_u64 (VotePower (int (coin_units (bonded s))))) 0"
    show ?thesis
    proof (cases "milli_div ?p t")
      case (Done q)
      from milli_sqrt_Done [OF power_share_small [OF Done]] obtain r where "milli_sqrt q = Some (Done r)" by blast
      with Inr Done Cons.IH show ?thesis by simp
    qed (use Inr in simp)
  qed simp
qed simp

lemma loop_bind_returns: "m \<noteq> None \<Longrightarrow> (\<And>v. f v \<noteq> None) \<Longrightarrow> loop_bind m f \<noteq> None"
  by (auto simp: loop_bind_def split: run.splits)

lemma get_slashing_proportion_returns: "get_slashing_proportion N as app \<noteq> None"
  unfolding get_slashing_proportion_def Let_def
  using sum_power_roots_returns by (intro loop_bind_returns) fastforce+

lemma proportion_valid:
  "\<exists>r. slash_ratio_try_from (min (milli_new 1 0) m) = Ok r \<and> valid_ratio r"
proof -
  have "milli_val (milli_new 1 0) = 1000" by (simp add: milli_new_def)
  then have "milli_val (min (milli_new 1 0) m) \<le> 1000" by (auto simp: min_def less_eq_milli_def milli_val_def word_le_nat_alt)
  then show ?thesis by (simp add: slash_ratio_try_from_Ok valid_ratio_def)
qed

section \<open>Properties\<close>

text \<open>
  C11: Slashing conserves coins.  When every account whose slashing time has come can
  be read, is stored under its own address and holds amounts within the supply, a
  run of the slashing queue that does not panic succeeds: what is taken from each of
  these accounts is its scheduled fraction of the bonded and of the unbonded amount,
  the bonus of the rewards pool grows by exactly the sum, all other accounts are
  untouched, the slashed accounts stay jailed, and precisely the due entries leave
  the queue.
\<close>

theorem slashing_conserves:
  assumes "last_state app = Some st" "trie_laws (ne_trie N)" "bm_wf (schedules_of st)"
    and "list_all (slashable N st app) (due_schedules (block_time st) (schedules_of st))"
    and "distinct (map (stake_key N) (due_schedules (block_time st) (schedules_of st)))"
    and "coin_val (bonus_of st) +
      sum_list (map (acct_total N app) (due_schedules (block_time st) (schedules_of st))) \<le> max_supply"
    and "slash_eligible_accounts N app = Done (r, app')"
  shows "\<exists>st' event due. r = Ok event \<and> last_state app' = Some st' \<and>
    due = due_schedules (block_time st) (schedules_of st) \<and>
    coin_val (bonus_of st') + sum_list (map (acct_total N app') due) =
      coin_val (bonus_of st) + sum_list (map (acct_total N app) due) \<and>
    list_all (\<lambda>a. \<exists>s s' sch. app_acct N app a = Ok s \<and> bm_get (schedules_of st) a = Some sch \<and>
       app_acct N app' a = Ok s' \<and> is_jailed s' \<and> account_total s = account_total s' + slash_of sch s) due \<and>
    (\<forall>b. stake_key N b \<notin> stake_key N ` set due \<longrightarrow> app_acct N app' b = app_acct N app b) \<and>
    schedules_of st' = filter (\<lambda>(a, sch). \<not> can_slash sch (block_time st)) (schedules_of st)"
proof -
  define due where "due = due_schedules (block_time st) (schedules_of st)"
  note h = assms(4-6) [folded due_def]
  from assms(1,7) obtain r0 st' app0 where run: "slash_loop N due (st, app) = Done (r0, st', app0)"
      "r = and_then r0 (\<lambda>_. Ok \<lparr>ev_type = SlashValidators, ev_attributes = map (account_attribute N) due\<rparr>)"
      "app' = app0\<lparr>last_state := Some st'\<rparr>"
    by (auto simp: slash_eligible_accounts_def due_def Let_def run_bind_eq_Done)
  have "\<forall>a \<in> set due. slashable N st app a" using h(1) by (simp add: list_all_iff)
  note loop = slash_loop_Done [OF assms(2) h(2) this h(3) run(1)]
  have same: "acct_total N app' = acct_total N app0" by (rule ext) (simp add: acct_total_def run(3))
  have rem: "fold bm_remove due (schedules_of st) = filter (\<lambda>(a, sch). \<not> can_slash sch (block_time st)) (schedules_of st)"
    using remove_due [OF assms(3)] by (simp add: due_def)
  show ?thesis
    unfolding due_def [symmetric] using loop run(2,3) same rem
    by (intro exI [of _ st'] exI [of _ "\<lparr>ev_type = SlashValidators, ev_attributes = map (account_attribute N) due\<rparr>"] exI [of _ due])
      (auto simp: list_all_iff)
qed

text \<open>
  C35: \<open>begin_block\<close> always returns: the Newton iterations it runs for the shares of
  the offenders end for every state and request, so the handler either panics or
  yields a response.
\<close>

theorem begin_block_returns: "\<exists>r. begin_block N F json req app = Some r"
proof -
  have "begin_block N F json req app \<noteq> None"
    unfolding begin_block_def Let_def case_prod_unfold
    by (intro loop_bind_returns get_slashing_proportion_returns option.distinct)
  then show ?thesis by blast
qed

text \<open>
  C19: Offenders end up in jail.  After a run of \<open>begin_block\<close> on accounts that are
  stored under their own address, the account of every validator with evidence of a
  byzantine fault, and of every validator whose tracker, updated with the votes of
  the block, has reached the threshold of missed blocks, is jailed, and every
  account that was jailed before still is.
\<close>

theorem begin_block_jails_offenders:
  assumes "trie_laws (ne_trie N)" "stored_ok N app" "begin_block N F json req app = Some (Done (events, app'))"
  shows "\<exists>proposer st. begin_block_state N req app = Done (proposer, st) \<and>
    (\<forall>b. Some b \<in> set (bb_byzantine_validators req) \<longrightarrow> (\<exists>v a. tm_address_try_from b = Ok v \<and>
       bm_get (tendermint_validator_addresses (validators st)) v = Some a \<and> jailed_in N app' a)) \<and>
    (\<forall>v t. (v, t) \<in> set (validator_liveness (vs_punishment (validators st))) \<and>
       \<not> is_live (ne_bv N) (get_missed_block_threshold (network_params (top_level st))) t \<longrightarrow>
       (\<exists>a. bm_get (tendermint_validator_addresses (validators st)) v = Some a \<and> jailed_in N app' a)) \<and>
    (\<forall>a. jailed_in N app a \<longrightarrow> jailed_in N app' a)"
proof -
  from assms(3) obtain proposer st byz miss p je se app2 app3 d where
    st: "begin_block_state N req app = Done (proposer, st)"
      and byz: "byzantine_offences st (bb_byzantine_validators req) = Done byz"
      and miss: "liveness_offences (ne_bv N) st (validator_liveness (vs_punishment (validators st))) = Done miss"
      and pun: "punish N (byz @ miss) p st app = Done (je, se, app2)"
      and rec: "rewards_record_proposer proposer app2 = Done app3"
      and rew: "rewards_try_distribute N F app3 = Done (d, app')"
    by (auto simp: begin_block_def Let_def loop_bind_eq_Done run_bind_eq_Done)
  note p = punish_Done [OF assms(1,2) pun]
  have "uncommitted_account_root_hash app3 = uncommitted_account_root_hash app2" "accounts app3 = accounts app2"
    using rec by (auto simp: rewards_record_proposer_def Let_def run_elims)
  then have "jail_kept N app app3" using p(1) jail_kept_cong(1) [of app3 app2 N app] by simp
  moreover from this have r: "jail_kept N app3 app'" using rewards_kept [OF assms(1) _ rew] jail_kept_stored by blast
  ultimately have all: "jail_kept N app app'" by (rule jail_kept_trans)
  have "jail_kept N app2 app'"
    using r jail_kept_cong(2) [of app3 app2 N app'] \<open>uncommitted_account_root_hash app3 = _\<close> \<open>accounts app3 = _\<close> by simp
  then have jailed: "jailed_in N app' a" if "(a, r, k) \<in> set (byz @ miss)" for a r k
    using p(2) that jail_kept_jailed by fastforce
  from st byzantine_offences_all [OF byz] liveness_offences_all [OF miss] jailed jail_kept_jailed [OF all]
  show ?thesis by (intro exI [of _ proposer] exI [of _ st]) (fastforce simp: set_append)
qed

section \<open>Concrete runs\<close>

definition sample_jailed :: staked_state where
  "sample_jailed = sample_proposer\<lparr>punishment := Some \<lparr>punish_kind = NonLive, punish_jailed_until = 90, slash_amount = None\<rparr>\<rparr>"

definition sample_schedule :: slashing_schedule where
  "sample_schedule = schedule_new (SlashRatio (Milli 100)) 40 NonLive"

definition sample_slash_state :: "bool list chain_node_state" where
  "sample_slash_state = set_schedules [(BasicRedeem [1], sample_schedule)] sample_set_state"

definition sample_slash_app ::
    "(bool list, sample_db_type, sample_trie_type, bool list mock_client) chain_node_app" where
  "sample_slash_app = sample_app\<lparr>
     accounts := (\<lambda>r k. if k = sample_hash [1] then Some sample_jailed else None, 0),
     last_state := Some sample_slash_state\<rparr>"

lemma map_trie_update: "\<exists>root accs'. update_account h map_trie s r accs = Done (root, Some s, accs')"
  by (simp add: update_account_def map_trie_def Let_def split: prod.splits)

lemma sample_slash_simps:
  "last_state sample_slash_app = Some sample_slash_state" "block_time sample_slash_state = 50"
  "schedules_of sample_slash_state = [(BasicRedeem [1], sample_schedule)]"
  "bonus_of sample_slash_state = coin_zero"
  "app_acct sample_env sample_slash_app (BasicRedeem [1]) = Ok sample_jailed"
  "due_schedules 50 [(BasicRedeem [1], sample_schedule)] = [BasicRedeem [1]]"
  "account_total sample_jailed = 5000"
  by (simp_all add: sample_slash_app_def sample_slash_state_def set_schedules_def sample_set_state_def Let_def
      rewards_pool_new_def get_account_def map_trie_def to_stake_key_def sample_ext_def due_schedules_def
      can_slash_def sample_schedule_def schedule_new_def sample_jailed_def sample_proposer_def staked_new_def account_total_def)

lemma sample_slashable: "slashable sample_env sample_slash_state sample_slash_app (BasicRedeem [1])"
  unfolding slashable_def
proof (intro exI conjI)
  show "app_acct sample_env sample_slash_app (BasicRedeem [1]) = Ok sample_jailed" by (rule sample_slash_simps(5))
  show "bm_get (schedules_of sample_slash_state) (BasicRedeem [1]) = Some sample_schedule"
    by (simp add: sample_slash_simps bm_get_def)
qed (simp_all add: sample_slash_simps valid_account_def valid_ratio_def sample_schedule_def schedule_new_def,
  simp add: sample_jailed_def sample_proposer_def staked_new_def)

lemma sample_slash_run: "\<exists>r app'. slash_eligible_accounts sample_env sample_slash_app = Done (r, app')"
proof -
  let ?sch = "sample_schedule"
  have "valid_account sample_jailed" "valid_ratio (slash_ratio ?sch)"
    by (simp_all add: valid_account_def sample_slash_simps sample_schedule_def schedule_new_def valid_ratio_def)
  then obtain slashed s' where sl: "slash (slash_ratio ?sch) (schedule_kind ?sch) sample_jailed = Done (Ok slashed, s')"
      "account_total sample_jailed = account_total s' + coin_val slashed"
    using slash_Done by metis
  have "is_jailed sample_jailed" by (simp add: sample_jailed_def is_jailed_def)
  moreover have "coin_val slashed \<le> max_supply" using sl(2) by (simp add: sample_slash_simps)
  then obtain bonus where "coin_add coin_zero slashed = Ok bonus" using coin_add_total [of coin_zero slashed] by auto
  moreover obtain root accs where "update_account (blake2s sample_ext) map_trie s'
      (uncommitted_account_root_hash sample_slash_app) (accounts sample_slash_app) = Done (root, Some s', accs)"
    using map_trie_update by blast
  ultimately show ?thesis
    using sl(1) sample_slash_simps(5)
    by (simp add: slash_eligible_accounts_def Let_def sample_slash_simps slash_one_def bm_get_def)
qed

theorem slashing_conserves_witness:
  "\<exists>st' app' event. slash_eligible_accounts sample_env sample_slash_app = Done (Ok event, app') \<and>
     last_state app' = Some st' \<and> schedules_of st' = [] \<and>
     coin_val (bonus_of st') + acct_total sample_env app' (BasicRedeem [1]) = 5000"
proof -
  obtain r app' where run: "slash_eligible_accounts sample_env sample_slash_app = Done (r, app')"
    using sample_slash_run by blast
  have laws: "trie_laws (ne_trie sample_env)" by (simp add: map_trie_laws)
  have tot: "acct_total sample_env sample_slash_app (BasicRedeem [1]) = 5000"
    using sample_slash_simps(5) by (simp add: acct_total_def sample_slash_simps)
  have wf: "bm_wf (schedules_of sample_slash_state)"
      "list_all (slashable sample_env sample_slash_state sample_slash_app)
        (due_schedules (block_time sample_slash_state) (schedules_of sample_slash_state))"
      "distinct (map (stake_key sample_env) (due_schedules (block_time sample_slash_state) (schedules_of sample_slash_state)))"
      "coin_val (bonus_of sample_slash_state) + sum_list (map (acct_total sample_env sample_slash_app)
        (due_schedules (block_time sample_slash_state) (schedules_of sample_slash_state))) \<le> max_supply"
    by (simp_all add: sample_slash_simps bm_wf_def sample_slashable tot)
  have "\<not> \<not> can_slash sample_schedule 50" by (simp add: can_slash_def sample_schedule_def schedule_new_def)
  with slashing_conserves [OF sample_slash_simps(1) laws wf run] run show ?thesis
    by (auto simp: sample_slash_simps tot)
qed

definition sample_validator :: bytes where "sample_validator = replicate 20 1"

definition sample_block_state :: "bool list chain_node_state" where
  "sample_block_state = sample_set_state\<lparr>validators := (validators sample_set_state)
     \<lparr>tendermint_validator_addresses := [(TmAddress sample_validator, BasicRedeem [1])]\<rparr>\<rparr>"

definition sample_block_app ::
    "(bool list, sample_db_type, sample_trie_type, bool list mock_client) chain_node_app" where
  "sample_block_app = sample_rewards_app\<lparr>last_state := Some sample_block_state\<rparr>"

definition sample_begin_request :: begin_block_request where
  "sample_begin_request = \<lparr>bb_header = Some \<lparr>hd_height = 1, hd_time = Some 5, hd_proposer = sample_validator\<rparr>,
     bb_last_commit_info = None, bb_byzantine_validators = [Some sample_validator]\<rparr>"

lemma sample_block_simps:
  "block_time sample_block_state = 50" "genesis_time sample_block_state = 0"
  "network_params (top_level sample_block_state) = sample_network_params"
  "rewards_pool (top_level sample_block_state) = rewards_pool_new 0 1"
  "schedules_of sample_block_state = []" "proposer_stats sample_block_state = []"
  "validator_liveness (vs_punishment (validators sample_block_state)) = []"
  "tendermint_validator_addresses (validators sample_block_state) = [(TmAddress sample_validator, BasicRedeem [1])]"
  by (simp_all add: sample_block_state_def sample_set_state_def)

lemma sample_block_account: "app_acct sample_env sample_block_app (BasicRedeem [1]) = Ok sample_proposer"
  using sample_proposer_account(1) by (simp add: sample_block_app_def)

lemma sample_begin_state:
  "begin_block_state sample_env sample_begin_request sample_block_app =
     Done (TmAddress sample_validator, sample_block_state\<lparr>block_time := 5\<rparr>)"
  by (simp add: begin_block_state_def sample_begin_request_def sample_block_app_def tm_address_try_from_def
      sample_validator_def)

lemma sample_proportion:
  "\<exists>p. get_slashing_proportion sample_env [BasicRedeem [1]] (sample_block_app\<lparr>last_state := Some st\<rparr>) = Some (Done p) \<and>
     valid_ratio p"
proof -
  let ?p = "milli_new (vote_power_u64 (VotePower (int (coin_units (Coin 5000))))) 0"
  let ?t = "get_total_vote_power (validator_voting_power sample_block_app)"
  have "?t = Milli 5000"
    by (simp add: get_total_vote_power_def sample_block_app_def sample_rewards_simps milli_new_def)
  then obtain q where q: "milli_div ?p ?t = Done q" by (auto simp: milli_div_def Let_def)
  from milli_sqrt_Done [OF power_share_small [OF q]] obtain r where r: "milli_sqrt q = Some (Done r)" by blast
  obtain ratio where ratio: "slash_ratio_try_from (min (milli_new 1 0) (milli_mul (Milli (millis r)) (Milli (millis r)))) = Ok ratio"
      "valid_ratio ratio" using proportion_valid by blast
  have acc: "get_account (blake2s sample_ext) map_trie (BasicRedeem [1]) root (accounts sample_block_app) = Ok sample_proposer"
    for root using sample_proposer_account(1) by (simp add: sample_block_app_def)
  have "sum_power_roots sample_env root (accounts sample_block_app) ?t [BasicRedeem [1]] 0 = Some (Done (millis r))" for root
    using q r acc by (simp add: sample_proposer_account)
  with ratio show ?thesis
    by (simp add: get_slashing_proportion_def Let_def del: sum_power_roots.simps)
qed

lemma sample_begin_run:
  "\<exists>events app'. begin_block sample_env int_fixed (\<lambda>d. []) sample_begin_request sample_block_app = Some (Done (events, app'))"
proof -
  let ?st = "sample_block_state\<lparr>block_time := 5\<rparr>"
  let ?os = "[(BasicRedeem [1], SlashRatio (Milli 200), ByzantineFault)]"
  have byz: "byzantine_offences ?st (bb_byzantine_validators sample_begin_request) = Done ?os"
    by (simp add: sample_begin_request_def tm_address_try_from_def bm_get_def sample_block_simps
        get_byzantine_slash_percent_def sample_network_params_def) (simp add: sample_validator_def)
  obtain p where p: "get_slashing_proportion sample_env [BasicRedeem [1]] (sample_block_app\<lparr>last_state := Some ?st\<rparr>) = Some (Done p)"
      "valid_ratio p" using sample_proportion by blast
  obtain r where r: "slash_ratio_mul (SlashRatio (Milli 200)) p = Done r"
    using slash_ratio_mul_Done [of "SlashRatio (Milli 200)" p] p(2) by (auto simp: valid_ratio_def)
  define m where "m = [(BasicRedeem [1], schedule_new r (5 + get_slash_wait_period sample_network_params) ByzantineFault)]"
  have sch: "schedule_slashes p (5 + get_slash_wait_period sample_network_params) ?os [] = Done m"
    using r by (simp add: m_def bm_get_def)
  define app0 where "app0 = sample_block_app\<lparr>last_state := Some (set_schedules m ?st)\<rparr>"
  have acc: "app_acct sample_env app0 (BasicRedeem [1]) = Ok sample_proposer"
    using sample_block_account by (simp add: app0_def)
  have free: "\<not> is_jailed sample_proposer" by (simp add: is_jailed_def sample_proposer_def staked_new_def)
  have ls: "last_state app0 = Some (set_schedules m ?st)" by (simp add: app0_def)
  obtain root accs where up: "update_account (blake2s sample_ext) map_trie
      (jail_until (block_time (set_schedules m ?st) + get_jail_duration (network_params (top_level (set_schedules m ?st)))) ByzantineFault sample_proposer)
      (uncommitted_account_root_hash app0) (accounts app0) =
      Done (root, Some (jail_until (block_time (set_schedules m ?st) + get_jail_duration (network_params (top_level (set_schedules m ?st)))) ByzantineFault sample_proposer), accs)"
    using map_trie_update by blast
  define app1 where "app1 = app0\<lparr>accounts := accs, uncommitted_account_root_hash := root,
      power_changed_in_block := bm_insert (BasicRedeem [1]) vote_power_zero (power_changed_in_block app0)\<rparr>"
  have jail: "jail_all sample_env ?os app0 = Done app1"
    using acc free ls up by (simp add: jail_account_def Let_def app1_def)
  have due: "due_schedules (block_time (set_schedules m ?st)) (schedules_of (set_schedules m ?st)) = []"
    by (simp add: due_schedules_def m_def set_schedules_def Let_def can_slash_def schedule_new_def
        get_slash_wait_period_def sample_network_params_def)
  have ls1: "last_state app1 = Some (set_schedules m ?st)" by (simp add: app1_def ls)
  have slash: "slash_eligible_accounts sample_env app1 =
      Done (Ok \<lparr>ev_type = SlashValidators, ev_attributes = []\<rparr>, app1\<lparr>last_state := Some (set_schedules m ?st)\<rparr>)"
    by (simp add: slash_eligible_accounts_def Let_def ls1 due)
  obtain je se app2 where pun: "punish sample_env ?os p ?st sample_block_app = Done (je, se, app2)"
      "last_state app2 = Some (set_schedules m ?st)"
    using sch jail slash by (simp add: punish_def Let_def app0_def sample_block_simps)
  have "bm_get (tendermint_validator_addresses (validators (set_schedules m ?st))) (TmAddress sample_validator) = Some (BasicRedeem [1])"
    by (simp add: set_schedules_def Let_def sample_block_simps bm_get_def)
  then obtain app3 st3 where rec: "rewards_record_proposer (TmAddress sample_validator) app2 = Done app3"
      "last_state app3 = Some st3" "block_time st3 = 5" "genesis_time st3 = 0" "top_level st3 = top_level sample_block_state"
    using pun(2) by (simp add: rewards_record_proposer_def Let_def sample_block_simps set_schedules_def)
  have "rewards_try_distribute sample_env int_fixed app3 = Done (None, app3)"
    using rec by (simp add: rewards_try_distribute_def Let_def sample_block_simps rewards_pool_new_def sample_rewards_simps)
  with sample_begin_state byz p(1) pun(1) rec(1) show ?thesis
    by (simp add: begin_block_def sample_block_simps)
qed

theorem begin_block_jails_offenders_witness:
  "\<exists>events app' v a. begin_block sample_env int_fixed (\<lambda>d. []) sample_begin_request sample_block_app = Some (Done (events, app')) \<and>
     tm_address_try_from sample_validator = Ok v \<and> jailed_in sample_env app' a"
proof -
  obtain events app' where run: "begin_block sample_env int_fixed (\<lambda>d. []) sample_begin_request sample_block_app = Some (Done (events, app'))"
    using sample_begin_run by blast
  have laws: "trie_laws (ne_trie sample_env)" by (simp add: map_trie_laws)
  have st: "stored_ok sample_env sample_block_app"
    by (auto simp: stored_ok_def sample_block_app_def sample_rewards_app_def get_account_def map_trie_def to_stake_key_def
        sample_ext_def sample_proposer_def staked_new_def split: if_splits option.splits)
  have "Some sample_validator \<in> set (bb_byzantine_validators sample_begin_request)" by (simp add: sample_begin_request_def)
  with begin_block_jails_offenders [OF laws st run] run show ?thesis by blast
qed

end
