(* ===== verification/Commit_Block.thy ===== *)
theory Commit_Block
  imports Begin_Block
begin

text \<open>
  The end of a block: \<open>end_block_handler\<close> (chain-abci/src/app/end_block.rs), the
  application hash (chain-core/src/lib.rs) and \<open>commit_handler\<close> with \<open>process_txs\<close>
  (chain-abci/src/app/commit.rs).
\<close>

section \<open>End of the block\<close>

record end_block_response =
  er_events :: "event list"
  er_validator_updates :: "validator_update list"

definition get_tendermint_kv :: "'bv bitvec \<Rightarrow> 'bv block_filter \<Rightarrow> event_key \<times> bytes" where
  "get_tendermint_kv B f = (KeyEthBloom, filter_data B f)"

definition block_filter_events ::
    "('bv, 'db, 'tr, 'en) node_env \<Rightarrow> ('bv, 'db, 'tr, 'en) chain_node_app \<Rightarrow>
     (event list \<times> ('bv, 'db, 'tr, 'en) chain_node_app) run" where
  "block_filter_events N app =
     (if delivered_txs app = [] then Done ([], app)
      else run_bind (ne_process N EndBlock (tx_validator app)) (\<lambda>(response, en).
        case response of
          RespEndBlock (Inr maybe_filter) \<Rightarrow>
            Done (case maybe_filter of
                Some raw_filter \<Rightarrow> [\<lparr>ev_type = BlockFilterEvent, ev_attributes =
                  [get_tendermint_kv (ne_bv N) (filter_from_raw (ne_bv N) raw_filter)]\<rparr>]
              | None \<Rightarrow> [], app\<lparr>tx_validator := en\<rparr>)
        | _ \<Rightarrow> Panic ''end block request to obtain the block filter failed''))"

definition end_block_handler ::
    "('bv, 'db, 'tr, 'en) node_env \<Rightarrow> block_height \<Rightarrow> ('bv, 'db, 'tr, 'en) chain_node_app \<Rightarrow>
     (end_block_response \<times> ('bv, 'db, 'tr, 'en) chain_node_app) run" where
  "end_block_handler N height app =
     run_bind (block_filter_events N app) (\<lambda>(events, app1).
     run_bind (if power_changed_in_block app1 = [] then Done ([], app1)
       else run_bind (expect_opt (last_state app1) ''Last app state not found, init chain was not called'') (\<lambda>st.
         run_bind (get_validator_updates (ne_bv N) (sha256 (ne_ext N)) st (validator_voting_power app1)
             (power_changed_in_block app1) (new_nodes_in_block app1)) (\<lambda>(st', vp, updates).
         Done (updates, app1\<lparr>last_state := Some st', validator_voting_power := vp,
           power_changed_in_block := [], new_nodes_in_block := []\<rparr>)))) (\<lambda>(updates, app2).
     run_bind (expect_opt (last_state app2)
       ''executing end block, but no app state stored (i.e. no initchain or recovery was executed)'') (\<lambda>st.
     Done (\<lparr>er_events = events, er_validator_updates = updates\<rparr>,
       app2\<lparr>last_state := Some (st\<lparr>last_block_height := height\<rparr>)\<rparr>))))"

section \<open>The application hash\<close>

definition rewards_pool_hash :: "('bv, 'db, 'tr, 'en) node_env \<Rightarrow> rewards_pool_state \<Rightarrow> h256" where
  "rewards_pool_hash N p = blake2s (ne_ext N) (ne_enc_rewards_pool N p)"

definition network_params_hash :: "('bv, 'db, 'tr, 'en) node_env \<Rightarrow> network_parameters \<Rightarrow> h256" where
  "network_params_hash N p = blake2s (ne_ext N) (ne_enc_network_params N p)"

definition compute_app_hash ::
    "('bv, 'db, 'tr, 'en) node_env \<Rightarrow> txid merkle_tree \<Rightarrow> h256 \<Rightarrow> rewards_pool_state \<Rightarrow> network_parameters \<Rightarrow> h256" where
  "compute_app_hash N valid_tx_id_tree account_state_root reward_pool params =
     blake2s (ne_ext N) (root_hash valid_tx_id_tree @ account_state_root @
       rewards_pool_hash N reward_pool @ network_params_hash N params)"

definition txid_tree :: "('bv, 'db, 'tr, 'en) node_env \<Rightarrow> txid list \<Rightarrow> txid merkle_tree" where
  "txid_tree N ids = merkle_new (blake2s (ne_ext N)) (\<lambda>i. i) ids"

definition chain_state_app_hash :: "('bv, 'db, 'tr, 'en) node_env \<Rightarrow> chain_state \<Rightarrow> txid list \<Rightarrow> h256" where
  "chain_state_app_hash N cs txids =
     compute_app_hash N (txid_tree N txids) (account_root cs) (rewards_pool cs) (network_params cs)"

section \<open>Commit\<close>

definition CHAIN_ID_KEY :: bytes where "CHAIN_ID_KEY = as_bytes ''chain_id''"
definition GENESIS_APP_HASH_KEY :: bytes where "GENESIS_APP_HASH_KEY = as_bytes ''genesis_app_hash''"
definition LAST_STATE_KEY :: bytes where "LAST_STATE_KEY = as_bytes ''last_state''"

definition process_tx ::
    "('bv, 'db, 'tr, 'en) node_env \<Rightarrow> 'db \<Rightarrow> tx_aux \<Rightarrow> dbtx \<Rightarrow> dbtx run" where
  "process_tx N db txaux t = (let txid = tx_aux_id (ne_ext N) txaux; E = ne_ext N in case txaux of
     EnclaveTx (EncTransferTx inputs no_of_outputs payload) \<Rightarrow>
       (let t1 = (case ne_dec_plain N (obf_payload payload) of
            Inr (PlainTransferTx tx witness) \<Rightarrow>
              dbtx_put COL_WITNESS txid (ne_enc_witness N witness)
                (dbtx_put COL_BODIES txid (ne_enc_with_outputs N (Transfer tx)) t)
          | _ \<Rightarrow> t) in
        update_utxos_commit (ne_bv N) (ne_db N) inputs no_of_outputs txid db t1)
   | EnclaveTx (EncDepositStakeTx tx p) \<Rightarrow>
       spend_utxos (ne_bv N) (ne_db N) (dep_inputs tx) db (dbtx_put COL_BODIES txid (enc_deposit E tx) t)
   | UnbondStakeTx tx witness \<Rightarrow>
       Done (dbtx_put COL_WITNESS txid (ne_enc_op_witness N witness) (dbtx_put COL_BODIES txid (enc_unbond E tx) t))
   | EnclaveTx (EncWithdrawUnbondedStakeTx no_of_outputs witness payload) \<Rightarrow>
       (let t1 = (case ne_dec_plain N (obf_payload payload) of
            Inr (PlainWithdrawUnbondedStakeTx tx) \<Rightarrow>
              dbtx_put COL_BODIES txid (ne_enc_with_outputs N (StakeWithdraw tx)) t
          | _ \<Rightarrow> t) in
        Done (dbtx_put COL_TX_META txid (bv_to_bytes (ne_bv N) (bv_from_elem (ne_bv N) (unat no_of_outputs) False))
          (dbtx_put COL_WITNESS txid (ne_enc_op_witness N witness) t1)))
   | UnjailTx tx witness \<Rightarrow>
       Done (dbtx_put COL_WITNESS txid (ne_enc_op_witness N witness) (dbtx_put COL_BODIES txid (enc_unjail E tx) t))
   | NodeJoinTx tx witness \<Rightarrow>
       Done (dbtx_put COL_WITNESS txid (ne_enc_op_witness N witness) (dbtx_put COL_BODIES txid (enc_node_join E tx) t)))"

fun process_txs ::
    "('bv, 'db, 'tr, 'en) node_env \<Rightarrow> 'db \<Rightarrow> tx_aux list \<Rightarrow> dbtx \<Rightarrow> dbtx run" where
  "process_txs N db [] t = Done t"
| "process_txs N db (x # xs) t = run_bind (process_tx N db x t) (process_txs N db xs)"

definition committed_state ::
    "('bv, 'db, 'tr, 'en) node_env \<Rightarrow> ('bv, 'db, 'tr, 'en) chain_node_app \<Rightarrow> 'bv chain_node_state \<Rightarrow> 'bv chain_node_state" where
  "committed_state N app st =
     (let tl = top_level st;
          pool = (if rewards_pool_updated app
            then (rewards_pool tl)\<lparr>rp_last_block_height := last_block_height st\<rparr> else rewards_pool tl);
          tl' = tl\<lparr>rewards_pool := pool, account_root := uncommitted_account_root_hash app\<rparr>;
          tree = txid_tree N (map (tx_aux_id (ne_ext N)) (delivered_txs app)) in
      st\<lparr>top_level := tl', last_apphash := compute_app_hash N tree (account_root tl') (rewards_pool tl') (network_params tl')\<rparr>)"

text \<open>The writes of a commit, after those of the transactions.\<close>

definition commit_writes ::
    "('bv, 'db, 'tr, 'en) node_env \<Rightarrow> ('bv, 'db, 'tr, 'en) chain_node_app \<Rightarrow> 'bv chain_node_state \<Rightarrow> dbtx \<Rightarrow> dbtx" where
  "commit_writes N app new_state t =
     (let tree = txid_tree N (map (tx_aux_id (ne_ext N)) (delivered_txs app));
          encoded_height = ne_enc_height N (last_block_height new_state);
          t1 = dbtx_put COL_MERKLE_PROOFS (last_apphash new_state) (ne_enc_tree N tree) t;
          t2 = dbtx_put COL_APP_HASHS encoded_height (last_apphash new_state)
            (dbtx_put COL_NODE_INFO LAST_STATE_KEY (ne_enc_state N new_state) t1) in
      if tx_query_address app \<noteq> None
      then dbtx_put COL_APP_STATES encoded_height (ne_enc_chain_state N (top_level new_state)) t2 else t2)"

definition commit_handler ::
    "('bv, 'db, 'tr, 'en) node_env \<Rightarrow> ('bv, 'db, 'tr, 'en) chain_node_app \<Rightarrow>
     (bytes \<times> ('bv, 'db, 'tr, 'en) chain_node_app) run" where
  "commit_handler N app =
     run_bind (expect_opt (last_state app)
       ''executing block commit, but no app state stored (i.e. no initchain or recovery was executed)'') (\<lambda>st.
     run_bind (if delivered_txs app = [] then Done [] else process_txs N (storage_db app) (delivered_txs app) []) (\<lambda>t.
     let new_state = committed_state N app st; np = network_params (top_level new_state); app_hash = last_apphash new_state in
     run_bind (expect (np_calculate_fee np 0) ''base fee'') (\<lambda>base_fee.
     run_bind (ne_process N (CommitBlock app_hash \<lparr>min_fee_computed = base_fee, info_chain_hex_id = app_chain_hex_id app,
         previous_block_time = block_time new_state, info_unbonding_period = unbonding_period np\<rparr>) (tx_validator app))
       (\<lambda>(response, en).
     run_bind (case response of RespCommitBlock (Inr u) \<Rightarrow> Done () | _ \<Rightarrow> Panic ''persisting enclave storage failed'') (\<lambda>_.
     run_bind (expect (db_write (ne_db N) (storage_db app) (commit_writes N app new_state t)) ''db write error'') (\<lambda>db'.
     Done (app_hash, app\<lparr>storage_db := db', tx_validator := en, last_state := Some new_state,
       delivered_txs := [], rewards_pool_updated := False\<rparr>)))))))"

section \<open>What a commit does to the record of outputs\<close>

fun created_outputs :: "tx_aux \<Rightarrow> u16 option" where
  "created_outputs (EnclaveTx (EncTransferTx ins n p)) = Some n"
| "created_outputs (EnclaveTx (EncWithdrawUnbondedStakeTx n w p)) = Some n"
| "created_outputs t = None"

text \<open>The bits recorded for a transaction after the writes \<open>t\<close>.\<close>

definition pending_bits :: "'db kvdb \<Rightarrow> 'db \<Rightarrow> dbtx \<Rightarrow> txid \<Rightarrow> bool list option" where
  "pending_bits K db t i = (case map_of (rev t) (COL_TX_META, i) of
     Some v \<Rightarrow> Some (bits_of_bytes v) | None \<Rightarrow> meta_bits K db i)"

lemma pending_bits_write: "kvdb_laws K \<Longrightarrow> db_write K db t = Ok db' \<Longrightarrow> meta_bits K db' i = pending_bits K db t i"
  by (auto simp: kvdb_laws_def pending_bits_def meta_bits_def split: option.splits)

lemma pending_bits_buffered: "kvdb_laws K \<Longrightarrow> meta_bits K (db_write_buffered K db t) i = pending_bits K db t i"
  by (auto simp: kvdb_laws_def pending_bits_def meta_bits_def split: option.splits)

lemma pending_bits_Nil [simp]: "pending_bits K db [] i = meta_bits K db i"
  by (simp add: pending_bits_def)

lemma pending_bits_put:
  "pending_bits K db (dbtx_put c k v t) i =
     (if c = COL_TX_META \<and> k = i then Some (bits_of_bytes v) else pending_bits K db t i)"
  by (auto simp: pending_bits_def dbtx_put_def)

lemma pending_bits_append:
  "pending_bits K db (t @ ws) i = (case map_of (rev ws) (COL_TX_META, i) of
     Some v \<Rightarrow> Some (bits_of_bytes v) | None \<Rightarrow> pending_bits K db t i)"
  by (auto simp: pending_bits_def map_add_def split: option.splits)

definition zero_bits :: "u16 \<Rightarrow> bool list" where
  "zero_bits n = bits_of_bytes (bytes_of_bits (replicate (unat n) False))"

text \<open>Spending outputs that the store already records as spent rewrites what is there.\<close>

lemma spend_again:
  assumes laws: "bitvec_laws B" "kvdb_laws K" and sp: "\<forall>p \<in> set ins. spent K db p"
  shows "\<exists>t'. spend_utxos B K ins db t = Done t' \<and>
    (\<forall>i. pending_bits K db t' i = (if i \<in> txo_id ` set ins then meta_bits K db i else pending_bits K db t i))"
proof -
  have rec: "\<forall>p \<in> set ins. recorded K db p" using sp by (auto simp: spent_def recorded_def)
  obtain ws where ws: "spend_utxos B K ins db t = Done (t @ ws)"
      "\<And>i. meta_bits K (db_write_buffered K db ws) i =
        (case meta_bits K db i of None \<Rightarrow> None | Some bs \<Rightarrow> Some (marked i ins bs))"
      "\<And>i. map_of (rev ws) (COL_TX_META, i) = None \<longleftrightarrow> i \<notin> txo_id ` set ins"
    using spend_utxos_store [OF laws rec, of t] by blast
  have "marked i ins bs = bs" if "meta_bits K db i = Some bs" for i bs
  proof (rule nth_equalityI)
    fix n
    assume n: "n < length (marked i ins bs)"
    have "bs ! n" if "p \<in> set ins" "txo_id p = i" "unat (txo_index p) = n" for p
      using sp that \<open>meta_bits K db i = Some bs\<close> by (auto simp: spent_def)
    then show "marked i ins bs ! n = bs ! n" using n by (auto simp: marked_nth)
  qed simp
  then have "meta_bits K (db_write_buffered K db ws) i = meta_bits K db i" for i
    using ws(2) [of i] by (auto split: option.splits)
  then have same: "pending_bits K db ws i = meta_bits K db i" for i
    using pending_bits_buffered [OF laws(2)] by metis
  have "pending_bits K db (t @ ws) i = (if i \<in> txo_id ` set ins then meta_bits K db i else pending_bits K db t i)" for i
  proof (cases "map_of (rev ws) (COL_TX_META, i)")
    case None
    with ws(3) [of i] show ?thesis by (simp add: pending_bits_append)
  next
    case (Some v)
    with ws(3) [of i] same [of i] show ?thesis by (simp add: pending_bits_append) (simp add: pending_bits_def)
  qed
  with ws(1) show ?thesis by blast
qed

lemma process_tx_bits:
  assumes laws: "bitvec_laws (ne_bv N)" "kvdb_laws (ne_db N)"
    and sp: "\<forall>p \<in> set (public_inputs x). spent (ne_db N) db p"
  obtains t' where "process_tx N db x t = Done t'"
    "\<And>i. pending_bits (ne_db N) db t' i = (case created_outputs x of
       Some n \<Rightarrow> if i = tx_aux_id (ne_ext N) x then Some (zero_bits n)
         else if i \<in> txo_id ` set (public_inputs x) then meta_bits (ne_db N) db i else pending_bits (ne_db N) db t i
     | None \<Rightarrow> if i \<in> txo_id ` set (public_inputs x) then meta_bits (ne_db N) db i else pending_bits (ne_db N) db t i)"
proof -
  have z: "bits_of_bytes (bv_to_bytes (ne_bv N) (bv_from_elem (ne_bv N) (unat n) False)) = zero_bits n" for n
    by (simp add: zero_bits_def bv_to_bytes_iter [OF laws(1)] bv_iter_from_elem [OF laws(1)])
  have "\<exists>t'. process_tx N db x t = Done t' \<and>
    (\<forall>i. pending_bits (ne_db N) db t' i = (case created_outputs x of
       Some n \<Rightarrow> if i = tx_aux_id (ne_ext N) x then Some (zero_bits n)
         else if i \<in> txo_id ` set (public_inputs x) then meta_bits (ne_db N) db i else pending_bits (ne_db N) db t i
     | None \<Rightarrow> if i \<in> txo_id ` set (public_inputs x) then meta_bits (ne_db N) db i else pending_bits (ne_db N) db t i))"
  proof (cases x)
    case (EnclaveTx y)
    show ?thesis
    proof (cases y)
      case (EncTransferTx ins n p)
      define t1 where "t1 = (case ne_dec_plain N (obf_payload p) of
            Inr (PlainTransferTx tx witness) \<Rightarrow>
              dbtx_put COL_WITNESS (obf_txid p) (ne_enc_witness N witness)
                (dbtx_put COL_BODIES (obf_txid p) (ne_enc_with_outputs N (Transfer tx)) t)
          | _ \<Rightarrow> t)"
      have t1: "pending_bits (ne_db N) db t1 i = pending_bits (ne_db N) db t i" for i
        by (simp add: t1_def pending_bits_put split: sum.splits plain_tx_aux.splits)
      have "\<forall>q \<in> set ins. spent (ne_db N) db q" using sp EnclaveTx EncTransferTx by simp
      from spend_again [OF laws this, of t1] obtain t2 where "spend_utxos (ne_bv N) (ne_db N) ins db t1 = Done t2"
          "\<forall>i. pending_bits (ne_db N) db t2 i =
            (if i \<in> txo_id ` set ins then meta_bits (ne_db N) db i else pending_bits (ne_db N) db t1 i)" by blast
      then show ?thesis
        using EnclaveTx EncTransferTx t1
        by (simp add: process_tx_def Let_def update_utxos_commit_def pending_bits_put z flip: t1_def)
    next
      case (EncDepositStakeTx d p)
      have "\<forall>q \<in> set (dep_inputs d). spent (ne_db N) db q" using sp EnclaveTx EncDepositStakeTx by simp
      from spend_again [OF laws this, of "dbtx_put COL_BODIES (deposit_id (ne_ext N) d) (enc_deposit (ne_ext N) d) t"]
      obtain t2 where "spend_utxos (ne_bv N) (ne_db N) (dep_inputs d) db
          (dbtx_put COL_BODIES (deposit_id (ne_ext N) d) (enc_deposit (ne_ext N) d) t) = Done t2"
          "\<forall>i. pending_bits (ne_db N) db t2 i = (if i \<in> txo_id ` set (dep_inputs d) then meta_bits (ne_db N) db i
            else pending_bits (ne_db N) db (dbtx_put COL_BODIES (deposit_id (ne_ext N) d) (enc_deposit (ne_ext N) d) t) i)"
        by blast
      then show ?thesis using EnclaveTx EncDepositStakeTx by (simp add: process_tx_def Let_def pending_bits_put)
    next
      case (EncWithdrawUnbondedStakeTx n w p)
      then show ?thesis using EnclaveTx
        by (simp add: process_tx_def Let_def pending_bits_put z split: sum.splits plain_tx_aux.splits)
    qed
  qed (simp_all add: process_tx_def Let_def pending_bits_put)
  then show thesis using that by blast
qed

text \<open>The outputs a list of transactions creates; the last transaction with an id wins.\<close>

fun created_by :: "ext \<Rightarrow> tx_aux list \<Rightarrow> txid \<Rightarrow> u16 option" where
  "created_by E [] i = None"
| "created_by E (x # xs) i = (case created_by E xs i of
     Some n \<Rightarrow> Some n | None \<Rightarrow> if i = tx_aux_id E x then created_outputs x else None)"

lemma process_txs_bits:
  assumes laws: "bitvec_laws (ne_bv N)" "kvdb_laws (ne_db N)"
    and "\<forall>p \<in> tx_inputs_of xs. spent (ne_db N) db p \<and> pending_bits (ne_db N) db t (txo_id p) = meta_bits (ne_db N) db (txo_id p) \<and>
      created_by (ne_ext N) xs (txo_id p) = None"
  shows "\<exists>t'. process_txs N db xs t = Done t' \<and>
    (\<forall>i. pending_bits (ne_db N) db t' i = (case created_by (ne_ext N) xs i of
       Some n \<Rightarrow> Some (zero_bits n) | None \<Rightarrow> pending_bits (ne_db N) db t i))"
  using assms(3)
proof (induction xs arbitrary: t)
  case Nil
  then show ?case by simp
next
  case (Cons x xs)
  have "\<forall>p \<in> set (public_inputs x). spent (ne_db N) db p" using Cons.prems by simp
  from process_tx_bits [OF laws this, of t] obtain t1 where t1: "process_tx N db x t = Done t1"
      "\<And>i. pending_bits (ne_db N) db t1 i = (case created_outputs x of
       Some n \<Rightarrow> if i = tx_aux_id (ne_ext N) x then Some (zero_bits n)
         else if i \<in> txo_id ` set (public_inputs x) then meta_bits (ne_db N) db i else pending_bits (ne_db N) db t i
     | None \<Rightarrow> if i \<in> txo_id ` set (public_inputs x) then meta_bits (ne_db N) db i else pending_bits (ne_db N) db t i)"
    by metis
  have same: "i \<in> txo_id ` set (public_inputs x) \<Longrightarrow> meta_bits (ne_db N) db i = pending_bits (ne_db N) db t i" for i
    using Cons.prems by auto
  have one: "pending_bits (ne_db N) db t1 i = (case (if i = tx_aux_id (ne_ext N) x then created_outputs x else None) of
      Some n \<Rightarrow> Some (zero_bits n) | None \<Rightarrow> pending_bits (ne_db N) db t i)" for i
    using t1(2) [of i] same [of i]
    by (cases "i \<in> txo_id ` set (public_inputs x)"; cases "i = tx_aux_id (ne_ext N) x"; cases "created_outputs x") simp_all
  have rest: "\<forall>p \<in> tx_inputs_of xs. spent (ne_db N) db p \<and>
      pending_bits (ne_db N) db t1 (txo_id p) = meta_bits (ne_db N) db (txo_id p) \<and> created_by (ne_ext N) xs (txo_id p) = None"
  proof
    fix p
    assume "p \<in> tx_inputs_of xs"
    with Cons.prems have p: "spent (ne_db N) db p" "pending_bits (ne_db N) db t (txo_id p) = meta_bits (ne_db N) db (txo_id p)"
        "created_by (ne_ext N) (x # xs) (txo_id p) = None" by auto
    then have "created_by (ne_ext N) xs (txo_id p) = None"
        "(if txo_id p = tx_aux_id (ne_ext N) x then created_outputs x else None) = None"
      by (auto split: option.splits)
    with p one [of "txo_id p"] show "spent (ne_db N) db p \<and>
      pending_bits (ne_db N) db t1 (txo_id p) = meta_bits (ne_db N) db (txo_id p) \<and> created_by (ne_ext N) xs (txo_id p) = None"
      by simp
  qed
  from Cons.IH [OF rest] obtain t' where t': "process_txs N db xs t1 = Done t'"
      "\<forall>i. pending_bits (ne_db N) db t' i = (case created_by (ne_ext N) xs i of
         Some n \<Rightarrow> Some (zero_bits n) | None \<Rightarrow> pending_bits (ne_db N) db t1 i)" by blast
  have "pending_bits (ne_db N) db t' i = (case created_by (ne_ext N) (x # xs) i of
      Some n \<Rightarrow> Some (zero_bits n) | None \<Rightarrow> pending_bits (ne_db N) db t i)" for i
    using t'(2) one [of i] by (cases "created_by (ne_ext N) xs i") simp_all
  with t1(1) t'(1) show ?case by simp
qed

lemma zero_bits_unspent: "k < length (zero_bits n) \<Longrightarrow> \<not> zero_bits n ! k"
  unfolding zero_bits_def by (rule zero_bits_nth)

lemma length_zero_bits: "length (zero_bits n) = 8 * ((unat n + 7) div 8)"
  by (simp add: zero_bits_def length_bytes_of_bits)

section \<open>Properties\<close>

lemma commit_handler_Done:
  assumes "commit_handler N app = Done (h, app')"
  obtains st t en db' where "last_state app = Some st"
    "(if delivered_txs app = [] then Done [] else process_txs N (storage_db app) (delivered_txs app) []) = Done t"
    "h = last_apphash (committed_state N app st)"
    "db_write (ne_db N) (storage_db app) (commit_writes N app (committed_state N app st) t) = Ok db'"
    "app' = app\<lparr>storage_db := db', tx_validator := en, last_state := Some (committed_state N app st),
       delivered_txs := [], rewards_pool_updated := False\<rparr>"
proof -
  obtain st where st: "last_state app = Some st" using assms by (auto simp: commit_handler_def run_elims)
  from assms show thesis
    unfolding commit_handler_def Let_def st expect_opt_simps run_bind_simps
    by (elim run_bind_DoneE) (auto simp: run_bind_eq_Done expect_eq_Done intro: that [OF st])
qed

lemma commit_reads:
  assumes "kvdb_laws K" "db_write K db t = Ok db'"
  shows "db_get K db' c k = (case map_of (rev t) (c, k) of None \<Rightarrow> db_get K db c k | Some v \<Rightarrow> Ok (Some v))"
  using assms by (simp add: kvdb_laws_def)

lemma commit_writes_bits: "pending_bits K db (commit_writes N app st t) i = pending_bits K db t i"
  by (simp add: commit_writes_def Let_def pending_bits_put)

text \<open>
  C16: What a commit makes durable.  The returned hash is the application hash of the
  ids of the delivered transactions, the account root reached in the block, the
  rewards pool and the network parameters; the state stored under the key of the
  last state is the encoding of the state the application continues with, the hash
  is stored under the height, and the Merkle tree of the ids under the hash.
\<close>

theorem commit_makes_durable:
  assumes "kvdb_laws (ne_db N)" "commit_handler N app = Done (h, app')"
  shows "\<exists>st. last_state app' = Some st \<and>
    h = chain_state_app_hash N (top_level st) (map (tx_aux_id (ne_ext N)) (delivered_txs app)) \<and>
    last_apphash st = h \<and> account_root (top_level st) = uncommitted_account_root_hash app \<and>
    uncommitted_account_root_hash app' = uncommitted_account_root_hash app \<and> delivered_txs app' = [] \<and>
    db_get (ne_db N) (storage_db app') COL_NODE_INFO LAST_STATE_KEY = Ok (Some (ne_enc_state N st)) \<and>
    db_get (ne_db N) (storage_db app') COL_APP_HASHS (ne_enc_height N (last_block_height st)) = Ok (Some h) \<and>
    db_get (ne_db N) (storage_db app') COL_MERKLE_PROOFS h =
      Ok (Some (ne_enc_tree N (txid_tree N (map (tx_aux_id (ne_ext N)) (delivered_txs app)))))"
proof -
  obtain st t en db' where st: "last_state app = Some st" and h: "h = last_apphash (committed_state N app st)"
      and w: "db_write (ne_db N) (storage_db app) (commit_writes N app (committed_state N app st) t) = Ok db'"
      and app': "app' = app\<lparr>storage_db := db', tx_validator := en, last_state := Some (committed_state N app st),
        delivered_txs := [], rewards_pool_updated := False\<rparr>"
    using commit_handler_Done [OF assms(2)] by metis
  have "h = chain_state_app_hash N (top_level (committed_state N app st)) (map (tx_aux_id (ne_ext N)) (delivered_txs app))"
      "account_root (top_level (committed_state N app st)) = uncommitted_account_root_hash app"
    by (simp_all add: h committed_state_def Let_def chain_state_app_hash_def)
  then show ?thesis
    unfolding app' using h commit_reads [OF assms(1) w]
    by (simp add: commit_writes_def Let_def dbtx_put_def)
qed

text \<open>
  C17: The record of outputs after a commit.  When the inputs of the delivered
  transactions are recorded as spent, as they are after their delivery, and no
  delivered transaction takes an id that the block spends from, the commit leaves
  the record of every other transaction as it is, so everything spent stays spent,
  and records the outputs of each delivered transaction as unspent.
\<close>

theorem commit_records_outputs:
  assumes "bitvec_laws (ne_bv N)" "kvdb_laws (ne_db N)" "commit_handler N app = Done (h, app')"
    and "\<And>p. p \<in> tx_inputs_of (delivered_txs app) \<Longrightarrow> spent (ne_db N) (storage_db app) p \<and>
      created_by (ne_ext N) (delivered_txs app) (txo_id p) = None"
  shows "case created_by (ne_ext N) (delivered_txs app) (txo_id p) of
      None \<Rightarrow> (spent (ne_db N) (storage_db app') p \<longleftrightarrow> spent (ne_db N) (storage_db app) p) \<and>
        (recorded (ne_db N) (storage_db app') p \<longleftrightarrow> recorded (ne_db N) (storage_db app) p)
    | Some n \<Rightarrow> \<not> spent (ne_db N) (storage_db app') p \<and>
        (recorded (ne_db N) (storage_db app') p \<longleftrightarrow> unat (txo_index p) < 8 * ((unat n + 7) div 8))"
proof -
  obtain st t en db' where
      t: "(if delivered_txs app = [] then Done [] else process_txs N (storage_db app) (delivered_txs app) []) = Done t"
      and w: "db_write (ne_db N) (storage_db app) (commit_writes N app (committed_state N app st) t) = Ok db'"
      and app': "app' = app\<lparr>storage_db := db', tx_validator := en, last_state := Some (committed_state N app st),
        delivered_txs := [], rewards_pool_updated := False\<rparr>"
    using commit_handler_Done [OF assms(3)] by metis
  have "process_txs N (storage_db app) (delivered_txs app) [] = Done t" using t by (auto split: if_splits)
  moreover have "\<forall>p \<in> tx_inputs_of (delivered_txs app). spent (ne_db N) (storage_db app) p \<and>
      pending_bits (ne_db N) (storage_db app) [] (txo_id p) = meta_bits (ne_db N) (storage_db app) (txo_id p) \<and>
      created_by (ne_ext N) (delivered_txs app) (txo_id p) = None" using assms(4) by simp
  ultimately have "pending_bits (ne_db N) (storage_db app) t i = (case created_by (ne_ext N) (delivered_txs app) i of
      Some n \<Rightarrow> Some (zero_bits n) | None \<Rightarrow> meta_bits (ne_db N) (storage_db app) i)" for i
    using process_txs_bits [OF assms(1,2), of "delivered_txs app" "storage_db app" "[]"] by (auto split: option.splits)
  then have bits: "meta_bits (ne_db N) (storage_db app') i = (case created_by (ne_ext N) (delivered_txs app) i of
      Some n \<Rightarrow> Some (zero_bits n) | None \<Rightarrow> meta_bits (ne_db N) (storage_db app) i)" for i
    using pending_bits_write [OF assms(2) w, of i] by (simp add: commit_writes_bits app')
  show ?thesis
  proof (cases "created_by (ne_ext N) (delivered_txs app) (txo_id p)")
    case None
    with bits [of "txo_id p"] show ?thesis by (simp add: spent_def recorded_def)
  next
    case (Some n)
    with bits [of "txo_id p"] show ?thesis
      using zero_bits_unspent by (auto simp: spent_def recorded_def length_zero_bits)
  qed
qed

section \<open>A concrete commit\<close>

lemma map_kvdb_write: "\<exists>db'. db_write map_kvdb db t = Ok db'"
  by (simp add: map_kvdb_def)

lemma sample_commit:
  obtains app h app' where "delivered_txs app = [sample_tx_aux]"
    "\<And>p. p \<in> set (tx_inputs sample_tx) \<Longrightarrow> spent map_kvdb (storage_db app) p"
    "commit_handler sample_env app = Done (h, app')"
proof -
  obtain r app st where run: "deliver_tx sample_env [] sample_app = Done (r, app)" "dr_code r = 0"
      and app: "delivered_txs app = [sample_tx_aux]" "last_state app = Some st"
        "network_params (top_level st) = sample_network_params"
    using sample_deliver by blast
  have laws: "bitvec_laws (ne_bv sample_env)" "kvdb_laws (ne_db sample_env)"
    by (simp_all add: list_bitvec_laws map_kvdb_laws)
  obtain ts where ts: "delivered_txs app = delivered_txs sample_app @ ts"
      "\<And>p. spent (ne_db sample_env) (storage_db app) p \<longleftrightarrow> spent (ne_db sample_env) (storage_db sample_app) p \<or> p \<in> tx_inputs_of ts"
    using deliver_tx_spends [OF laws run(1)] by metis
  have "ts = [sample_tx_aux]" using ts(1) app(1) by (simp add: sample_app_def)
  then have "tx_inputs_of ts = set (tx_inputs sample_tx)" by (simp add: sample_tx_aux_def)
  with ts(2) have sp: "p \<in> set (tx_inputs sample_tx) \<Longrightarrow> spent map_kvdb (storage_db app) p" for p by simp
  obtain t where t: "process_txs sample_env (storage_db app) (delivered_txs app) [] = Done t"
  proof -
    have "\<forall>p \<in> set (public_inputs sample_tx_aux). spent (ne_db sample_env) (storage_db app) p"
      using sp by (simp add: sample_tx_aux_def)
    from process_tx_bits [OF laws this, of "[]"] obtain t where "process_tx sample_env (storage_db app) sample_tx_aux [] = Done t"
      by metis
    with app(1) that show thesis by simp
  qed
  have "network_params (top_level (committed_state sample_env app st)) = sample_network_params"
    using app(3) by (simp add: committed_state_def Let_def)
  moreover obtain db' where "db_write map_kvdb (storage_db app) (commit_writes sample_env app (committed_state sample_env app st) t) = Ok db'"
    using map_kvdb_write by blast
  moreover have "delivered_txs app \<noteq> []" using app(1) by simp
  ultimately have "\<exists>h app'. commit_handler sample_env app = Done (h, app')"
    using app(2) t sample_min_fee by (simp add: commit_handler_def Let_def mock_process_def del: process_txs.simps)
  then obtain h app' where "commit_handler sample_env app = Done (h, app')" by blast
  with app(1) sp show thesis by (rule that)
qed

theorem commit_makes_durable_witness:
  "\<exists>app h app' st. commit_handler sample_env app = Done (h, app') \<and> last_state app' = Some st \<and> last_apphash st = h"
proof (rule sample_commit)
  fix app h app'
  assume run: "commit_handler sample_env app = Done (h, app')"
  have "kvdb_laws (ne_db sample_env)" by (simp add: map_kvdb_laws)
  from commit_makes_durable [OF this run] obtain st where "last_state app' = Some st" "last_apphash st = h"
    by (elim exE conjE)
  with run show ?thesis by (intro exI conjI)
qed

theorem commit_records_outputs_witness:
  "\<exists>app h app'. commit_handler sample_env app = Done (h, app') \<and>
     recorded map_kvdb (storage_db app') \<lparr>txo_id = [], txo_index = 0\<rparr> \<and>
     \<not> spent map_kvdb (storage_db app') \<lparr>txo_id = [], txo_index = 0\<rparr>"
proof (rule sample_commit)
  fix app h app'
  assume s: "delivered_txs app = [sample_tx_aux]"
      "\<And>p. p \<in> set (tx_inputs sample_tx) \<Longrightarrow> spent map_kvdb (storage_db app) p"
    and run: "commit_handler sample_env app = Done (h, app')"
  have laws: "bitvec_laws (ne_bv sample_env)" "kvdb_laws (ne_db sample_env)"
    by (simp_all add: list_bitvec_laws map_kvdb_laws)
  have cb: "created_by (ne_ext sample_env) (delivered_txs app) i = (if i = [] then Some 1 else None)" for i
    by (simp add: s(1) sample_tx_aux_def)
  have ids: "txo_id p \<noteq> []" if "p \<in> set (tx_inputs sample_tx)" for p
  proof -
    have "length (txo_id p) = 32" using that by (simp add: sample_tx_def tx_id_def txid_hash_def sample_ext_def)
    then show ?thesis by auto
  qed
  have h: "spent (ne_db sample_env) (storage_db app) p \<and> created_by (ne_ext sample_env) (delivered_txs app) (txo_id p) = None"
    if "p \<in> tx_inputs_of (delivered_txs app)" for p
    using that s ids cb by (auto simp: sample_tx_aux_def)
  have "recorded map_kvdb (storage_db app') \<lparr>txo_id = [], txo_index = 0\<rparr> \<and>
      \<not> spent map_kvdb (storage_db app') \<lparr>txo_id = [], txo_index = 0\<rparr>"
    using commit_records_outputs [OF laws run h, of "\<lparr>txo_id = [], txo_index = 0\<rparr>"] cb [of "[]"] by simp
  with run show ?thesis by (elim conjE) (intro exI conjI)
qed

end
