(* ===== verification/Init_Chain.thy ===== *)
theory Init_Chain
  imports Commit_Block
begin

text \<open>
  Start of the node (chain-abci/src/app/app_init.rs): the genesis block
  (\<open>init_chain_handler\<close>), the state of a node without stored state and the recovery
  of the last committed state (\<open>new_with_storage\<close>, \<open>restore_from_storage\<close>).  The
  hexadecimal decoder (crate hex), the printing of consensus parameters (crate
  protobuf) and the JSON parser are parameters.
\<close>

section \<open>Genesis\<close>

definition chain_node_state_genesis ::
    "h256 \<Rightarrow> timespec \<Rightarrow> h256 \<Rightarrow> rewards_pool_state \<Rightarrow> network_parameters \<Rightarrow> 'bv validator_state \<Rightarrow> 'bv chain_node_state" where
  "chain_node_state_genesis genesis_apphash time root pool params vs =
     \<lparr>last_block_height = 0, last_apphash = genesis_apphash, block_time = time, proposer_stats = bm_new,
      validators = vs, genesis_time = time,
      top_level = \<lparr>account_root = root, rewards_pool = pool, network_params = params\<rparr>\<rparr>"

definition check_and_store_consensus_params :: "bytes option \<Rightarrow> dbtx \<Rightarrow> dbtx" where
  "check_and_store_consensus_params params t = (case params of
     Some cp \<Rightarrow> dbtx_put COL_EXTRA (as_bytes ''init_chain_consensus_params'') cp t
   | None \<Rightarrow> t)"

definition get_voting_power :: "(bytes, staked_destination \<times> coin) btm \<Rightarrow> staked_address \<Rightarrow> vote_power run" where
  "get_voting_power dist node_address =
     run_bind (expect_opt (bm_get dist (redeem_bytes node_address)) ''no entry found for key'') (\<lambda>(d, amount).
     vote_power_of_coin amount)"

definition store_valid_genesis_state ::
    "('bv, 'db, 'tr, 'en) node_env \<Rightarrow> 'bv chain_node_state \<Rightarrow> dbtx \<Rightarrow> bool \<Rightarrow> dbtx" where
  "store_valid_genesis_state N st t write_history_states =
     (let t1 = dbtx_put COL_NODE_INFO LAST_STATE_KEY (ne_enc_state N st) t;
          encoded_height = ne_enc_height N 0;
          t2 = dbtx_put COL_APP_HASHS encoded_height (last_apphash st) t1 in
      if write_history_states then dbtx_put COL_APP_STATES encoded_height (ne_enc_chain_state N (top_level st)) t2
      else t2)"

definition compute_accounts_root ::
    "('bv, 'db, 'tr, 'en) node_env \<Rightarrow> 'tr \<Rightarrow> staked_state list \<Rightarrow> (h256 \<times> 'tr) run" where
  "compute_accounts_root N accs ss =
     expect (trie_insert (ne_trie N) accs None (map (\<lambda>s. stake_key N (ss_address s)) ss) ss) ''insert failed''"

text \<open>The expected genesis hash; \<open>fresh\<close> is a new in-memory account trie.\<close>

definition init_app_hash ::
    "('bv, 'db, 'tr, 'en) node_env \<Rightarrow> 'tr \<Rightarrow> init_config \<Rightarrow> timespec \<Rightarrow> h256 run" where
  "init_app_hash N fresh conf time =
     run_bind (validate_config_get_genesis conf time) (\<lambda>g.
     run_bind (expect g ''distribution validation error'') (\<lambda>(ss, rp, nodes).
     run_bind (compute_accounts_root N fresh ss) (\<lambda>(root, accs).
     Done (compute_app_hash N merkle_empty root rp (ic_network_params conf)))))"

section \<open>Recovery\<close>

fun mapping_loop ::
    "('bv, 'db, 'tr, 'en) node_env \<Rightarrow> h256 \<Rightarrow> 'tr \<Rightarrow> coin \<Rightarrow> ((vote_power \<times> staked_address) \<times> council_node) list \<Rightarrow>
     power_map \<Rightarrow> power_map run" where
  "mapping_loop N root accs required [] vp = Done vp"
| "mapping_loop N root accs required (((voting_power, address), node) # rest) vp =
     run_bind (expect (acct N root accs address)
       ''council node staking state address should be in the state trie'') (\<lambda>account.
     run_bind (assert_run (council_node account \<noteq> None) (''council node'' @ [CHR 0x27] @ ''s staking state should contain it'')) (\<lambda>_.
     run_bind (if is_jailed account \<or> bonded account < required
       then run_bind (vote_power_of_coin coin_zero) (\<lambda>p.
         run_bind (assert_run (voting_power = p) ''jailed or below minimum bonded amounts should have 0 voting power'') (\<lambda>_. Done p))
       else run_bind (vote_power_of_coin (bonded account)) (\<lambda>p.
         run_bind (assert_run (voting_power = p) ''voting power should match the bonded amount'') (\<lambda>_. Done p))) (\<lambda>p.
     run_bind (assert_run (Some node = council_node account)
       ''council node should match the one in the state trie'') (\<lambda>_.
     mapping_loop N root accs required rest (bm_insert address p vp)))))"

definition get_validator_mapping ::
    "('bv, 'db, 'tr, 'en) node_env \<Rightarrow> 'tr \<Rightarrow> 'bv chain_node_state \<Rightarrow> power_map run" where
  "get_validator_mapping N accs st =
     (let np = network_params (top_level st) in
      mapping_loop N (account_root (top_level st)) accs (required_council_node_stake np)
        (take (get_max_validators np) (rev (council_nodes_by_power (validators st)))) bm_new)"

text \<open>The last two characters of the chain id are a hexadecimal byte; \<open>hexdec\<close> is the decoder.\<close>

definition chain_hex_digits :: "(string \<Rightarrow> string + bytes) \<Rightarrow> string \<Rightarrow> u8 run" where
  "chain_hex_digits hexdec chain_id =
     (if length chain_id < 2 then Panic ''slice index out of range''
      else run_bind (expect (hexdec (drop (length chain_id - 2) chain_id))
          ''failed to decode two last hex digits in chain ID'') (\<lambda>b.
        if b = [] then Panic ''index out of bounds'' else Done (hd b)))"

definition restore_from_storage ::
    "('bv, 'db, 'tr, 'en) node_env \<Rightarrow> (string \<Rightarrow> string + bytes) \<Rightarrow> 'en \<Rightarrow> 'bv chain_node_state \<Rightarrow> h256 \<Rightarrow> string \<Rightarrow>
     'db \<Rightarrow> 'tr \<Rightarrow> string option \<Rightarrow> ('bv, 'db, 'tr, 'en) chain_node_app run" where
  "restore_from_storage N hexdec en st gah chain_id db accs query =
     run_bind (expect (db_get (ne_db N) db COL_NODE_INFO GENESIS_APP_HASH_KEY) ''genesis hash lookup'') (\<lambda>m.
     run_bind (expect_opt m ''last app state found, but genesis app hash not stored'') (\<lambda>stored_gah.
     run_bind (assert_run (length stored_gah = 32) ''copy_from_slice'') (\<lambda>_.
     if stored_gah \<noteq> gah then Panic ''stored genesis app hash does not match the provided genesis app hash''
     else
       run_bind (expect (db_get (ne_db N) db COL_EXTRA CHAIN_ID_KEY) ''chain id lookup'') (\<lambda>m.
       run_bind (expect_opt m ''last app state found, but no chain id stored'') (\<lambda>stored_chain_id.
       if stored_chain_id \<noteq> as_bytes chain_id then Panic ''stored chain id does not match the provided chain id''
       else
         run_bind (chain_hex_digits hexdec chain_id) (\<lambda>hex_id.
         run_bind (get_validator_mapping N accs st) (\<lambda>vp.
         Done \<lparr>storage_db = db, accounts = accs, delivered_txs = [],
           uncommitted_account_root_hash = account_root (top_level st), genesis_app_hash = gah,
           app_chain_hex_id = hex_id, last_state = Some st, validator_voting_power = vp,
           power_changed_in_block = bm_new, new_nodes_in_block = bm_new, tx_validator = en,
           rewards_pool_updated = False, tx_query_address = query\<rparr>)))))))"

definition check_chain ::
    "('bv, 'db, 'tr, 'en) node_env \<Rightarrow> u8 \<Rightarrow> h256 option \<Rightarrow> 'en \<Rightarrow> 'en run" where
  "check_chain N hex_id last_app_hash en =
     run_bind (ne_process N (CheckChain hex_id last_app_hash) en) (\<lambda>(response, en').
     case response of
       RespCheckChain (Inr u) \<Rightarrow> Done en'
     | RespCheckChain (Inl h) \<Rightarrow> Panic ''enclave sanity check failed''
     | _ \<Rightarrow> Panic ''unexpected enclave response'')"

definition new_with_storage ::
    "('bv, 'db, 'tr, 'en) node_env \<Rightarrow> (string \<Rightarrow> string + bytes) \<Rightarrow> 'en \<Rightarrow> string \<Rightarrow> string \<Rightarrow> 'db \<Rightarrow> 'tr \<Rightarrow> string option \<Rightarrow>
     ('bv, 'db, 'tr, 'en) chain_node_app run" where
  "new_with_storage N hexdec en gah chain_id db accs query =
     run_bind (expect (hexdec gah) ''failed to decode genesis app hash'') (\<lambda>genesis_app_hash.
     run_bind (assert_run (length genesis_app_hash = 32) ''copy_from_slice'') (\<lambda>_.
     run_bind (chain_hex_digits hexdec chain_id) (\<lambda>hex_id.
     run_bind (expect (db_get (ne_db N) db COL_NODE_INFO LAST_STATE_KEY) ''app state lookup'') (\<lambda>m.
     case m of
       Some data \<Rightarrow>
         run_bind (expect (ne_dec_state N data) ''deserialize app state'') (\<lambda>st.
         run_bind (check_chain N hex_id (Some (last_apphash st)) en) (\<lambda>en'.
         restore_from_storage N hexdec en' st genesis_app_hash chain_id db accs query))
     | None \<Rightarrow>
         run_bind (check_chain N hex_id None en) (\<lambda>en'.
         let t = dbtx_put COL_EXTRA CHAIN_ID_KEY (as_bytes chain_id)
               (dbtx_put COL_NODE_INFO GENESIS_APP_HASH_KEY genesis_app_hash []) in
         run_bind (expect (db_write (ne_db N) db t) ''genesis app hash should be stored'') (\<lambda>db'.
         Done \<lparr>storage_db = db', accounts = accs, delivered_txs = [],
           uncommitted_account_root_hash = replicate 32 0, genesis_app_hash = genesis_app_hash,
           app_chain_hex_id = hex_id, last_state = None, validator_voting_power = bm_new,
           power_changed_in_block = bm_new, new_nodes_in_block = bm_new, tx_validator = en',
           rewards_pool_updated = False, tx_query_address = query\<rparr>))))))"

section \<open>The genesis block\<close>

text \<open>
  A request carries the configuration, the time, the chain id, the encoded consensus
  parameters, if any, and the validators of the consensus engine, where a key may be
  missing.
\<close>

type_synonym abci_validator = "int \<times> (string \<times> bytes) option"

record init_chain_request =
  ic_app_state_bytes :: bytes
  ic_time :: "int option"
  ic_chain_id :: string
  ic_consensus_params :: "bytes option"
  ic_validators :: "abci_validator list"

text \<open>What the loop over the council nodes builds.\<close>

type_synonym 'bv genesis_nodes =
  "power_map \<times> node_index \<times> abci_validator list \<times> (tm_address, staked_address) btm \<times> (tm_address, 'bv liveness_tracker) btm"

fun genesis_loop ::
    "('bv, 'db, 'tr, 'en) node_env \<Rightarrow> init_config \<Rightarrow> (staked_address \<times> council_node) list \<Rightarrow> 'bv genesis_nodes \<Rightarrow>
     'bv genesis_nodes run" where
  "genesis_loop N conf [] s = Done s"
| "genesis_loop N conf ((address, node) # rest) (vp, idx, vs, tm, live) =
     run_bind (get_voting_power (distribution conf) address) (\<lambda>power.
     let v = tm_address_of_pubkey (sha256 (ne_ext N)) (consensus_pubkey node) in
     genesis_loop N conf rest
       (bm_insert address power vp, bm_insert (power, address) node idx,
        vs @ [(vp_int power, Some (get_validator_key node))], bm_insert v address tm,
        bm_insert v (tracker_new (ne_bv N) (get_block_signing_window (ic_network_params conf))) live))"

text \<open>
  The lists of validators are sorted by key and compared; the stable sort by the
  optional pair of strings is \<open>sort_key\<close>, with the key type coded as bytes so that
  the order is the one of Rust strings.
\<close>

definition validator_sort_key :: "abci_validator \<Rightarrow> bool \<times> bytes \<times> bytes" where
  "validator_sort_key v = (case snd v of None \<Rightarrow> (False, [], []) | Some (ty, d) \<Rightarrow> (True, as_bytes ty, d))"

definition init_chain_handler ::
    "('bv, 'db, 'tr, 'en) node_env \<Rightarrow> init_chain_request \<Rightarrow> ('bv, 'db, 'tr, 'en) chain_node_app \<Rightarrow>
     ('bv, 'db, 'tr, 'en) chain_node_app run" where
  "init_chain_handler N req app =
     run_bind (expect (ne_parse_config N (ic_app_state_bytes req)) ''failed to parse initial config'') (\<lambda>conf.
     run_bind (expect_opt (ic_time req) ''missing genesis time'') (\<lambda>seconds.
     run_bind (if seconds \<ge> 0 then Done (word_of_int seconds) else Panic ''invalid genesis time'') (\<lambda>time.
     run_bind (validate_config_get_genesis conf time) (\<lambda>g.
     run_bind (expect g ''distribution validation error'') (\<lambda>(ss, rp, nodes).
     run_bind (expect (db_get (ne_db N) (storage_db app) COL_EXTRA CHAIN_ID_KEY) ''unwrap'') (\<lambda>m.
     run_bind (expect_opt m ''last app hash found, but no chain id stored'') (\<lambda>stored_chain_id.
     if stored_chain_id \<noteq> as_bytes (ic_chain_id req) then Panic ''stored chain id does not match the provided chain id''
     else
       let np = ic_network_params conf in
       run_bind (compute_accounts_root N (accounts app) ss) (\<lambda>(new_account_root, accs).
       let gah = compute_app_hash N merkle_empty new_account_root rp np in
       if genesis_app_hash app \<noteq> gah
       then Panic ''initchain resulting genesis app hash does not match the expected genesis app hash''
       else
         let t = check_and_store_consensus_params (ic_consensus_params req) [] in
         run_bind (genesis_loop N conf nodes (validator_voting_power app, bm_new, [], bm_new, bm_new))
           (\<lambda>(vp, idx, vs, tm, live).
         if sort_key validator_sort_key vs \<noteq> sort_key validator_sort_key (ic_validators req)
         then Panic ''validators in genesis configuration are not consistent with app_state''
         else
           let st = chain_node_state_genesis gah time new_account_root rp np
                 \<lparr>council_nodes_by_power = idx, tendermint_validator_addresses = tm,
                  vs_punishment = \<lparr>validator_liveness = live, slashing_schedules = bm_new\<rparr>\<rparr>;
               t' = store_valid_genesis_state N st t (tx_query_address app \<noteq> None) in
           run_bind (expect (db_write (ne_db N) (storage_db app) t') ''db write error'') (\<lambda>db'.
           Done (app\<lparr>storage_db := db', accounts := accs, validator_voting_power := vp,
             uncommitted_account_root_hash := account_root (top_level st), last_state := Some st\<rparr>)))))))))))"

record info_response =
  ir_last_block_app_hash :: h256
  ir_last_block_height :: block_height
  ir_data :: string

definition app_info ::
    "('bv chain_node_state \<Rightarrow> string) \<Rightarrow> ('bv, 'db, 'tr, 'en) chain_node_app \<Rightarrow> info_response" where
  "app_info json app = (case last_state app of
     Some st \<Rightarrow> \<lparr>ir_last_block_app_hash = last_apphash st, ir_last_block_height = last_block_height st, ir_data = json st\<rparr>
   | None \<Rightarrow> \<lparr>ir_last_block_app_hash = genesis_app_hash app, ir_last_block_height = 0, ir_data = []\<rparr>)"

section \<open>Recovery after a commit\<close>

lemma spend_utxos_columns:
  "spend_utxos B K ins db t = Done t' \<Longrightarrow> e \<in> set t' \<Longrightarrow> e \<in> set t \<or> fst (fst e) = COL_TX_META"
  by (auto simp: spend_utxos_def foldl_put run_bind_eq_Done)

lemma process_tx_columns:
  "process_tx N db x t = Done t' \<Longrightarrow> e \<in> set t' \<Longrightarrow>
     e \<in> set t \<or> fst (fst e) \<in> {COL_TX_META, COL_WITNESS, COL_BODIES}"
  by (auto simp: process_tx_def Let_def update_utxos_commit_def run_bind_eq_Done dbtx_put_def
      dest!: spend_utxos_columns split: tx_aux.splits tx_enclave_aux.splits sum.splits plain_tx_aux.splits)

lemma process_txs_columns:
  "process_txs N db xs t = Done t' \<Longrightarrow> e \<in> set t' \<Longrightarrow>
     e \<in> set t \<or> fst (fst e) \<in> {COL_TX_META, COL_WITNESS, COL_BODIES}"
  by (induction xs arbitrary: t) (fastforce simp: run_bind_eq_Done dest: process_tx_columns)+

lemma keys_distinct:
  "GENESIS_APP_HASH_KEY \<noteq> LAST_STATE_KEY" "LAST_STATE_KEY \<noteq> GENESIS_APP_HASH_KEY"
  by (simp_all add: GENESIS_APP_HASH_KEY_def LAST_STATE_KEY_def as_bytes_def)

text \<open>A commit keeps the chain id and the genesis hash in the store.\<close>

lemma commit_keeps_node_info:
  assumes "kvdb_laws (ne_db N)" "commit_handler N app = Done (h, app')"
  shows "db_get (ne_db N) (storage_db app') COL_NODE_INFO GENESIS_APP_HASH_KEY =
      db_get (ne_db N) (storage_db app) COL_NODE_INFO GENESIS_APP_HASH_KEY"
    and "db_get (ne_db N) (storage_db app') COL_EXTRA k = db_get (ne_db N) (storage_db app) COL_EXTRA k"
proof -
  obtain st t en db' where
      t: "(if delivered_txs app = [] then Done [] else process_txs N (storage_db app) (delivered_txs app) []) = Done t"
      and w: "db_write (ne_db N) (storage_db app) (commit_writes N app (committed_state N app st) t) = Ok db'"
      and app': "storage_db app' = db'"
    by (rule commit_handler_Done [OF assms(2)]) simp
  have cols: "e \<in> set t \<Longrightarrow> fst (fst e) \<in> {COL_TX_META, COL_WITNESS, COL_BODIES}" for e
    using t process_txs_columns [of N "storage_db app" "delivered_txs app" "[]" t e] by (auto split: if_splits)
  have none: "map_of (rev t) (c, k) = None" if "c \<notin> {COL_TX_META, COL_WITNESS, COL_BODIES}" for c k
  proof (rule ccontr)
    assume "map_of (rev t) (c, k) \<noteq> None"
    then obtain v where "((c, k), v) \<in> set t" by (auto dest: map_of_SomeD)
    with cols [OF this] that show False by simp
  qed
  show "db_get (ne_db N) (storage_db app') COL_NODE_INFO GENESIS_APP_HASH_KEY =
      db_get (ne_db N) (storage_db app) COL_NODE_INFO GENESIS_APP_HASH_KEY"
    "db_get (ne_db N) (storage_db app') COL_EXTRA k = db_get (ne_db N) (storage_db app) COL_EXTRA k"
    unfolding app' commit_reads [OF assms(1) w]
    by (simp_all add: commit_writes_def Let_def dbtx_put_def keys_distinct none)
qed

lemma commit_stores_state:
  assumes "kvdb_laws (ne_db N)" "commit_handler N app = Done (h, app')"
  obtains st en where "last_state app' = Some st" "last_apphash st = h"
    "account_root (top_level st) = uncommitted_account_root_hash app"
    "db_get (ne_db N) (storage_db app') COL_NODE_INFO LAST_STATE_KEY = Ok (Some (ne_enc_state N st))"
    "app' = app\<lparr>storage_db := storage_db app', tx_validator := en, last_state := Some st,
       delivered_txs := [], rewards_pool_updated := False\<rparr>"
proof -
  obtain st t en db' where h: "h = last_apphash (committed_state N app st)"
      and w: "db_write (ne_db N) (storage_db app) (commit_writes N app (committed_state N app st) t) = Ok db'"
      and app': "app' = app\<lparr>storage_db := db', tx_validator := en, last_state := Some (committed_state N app st),
        delivered_txs := [], rewards_pool_updated := False\<rparr>"
    by (rule commit_handler_Done [OF assms(2)]) simp
  have "db_get (ne_db N) db' COL_NODE_INFO LAST_STATE_KEY = Ok (Some (ne_enc_state N (committed_state N app st)))"
    unfolding commit_reads [OF assms(1) w] by (simp add: commit_writes_def Let_def dbtx_put_def)
  moreover have "account_root (top_level (committed_state N app st)) = uncommitted_account_root_hash app"
    by (simp add: committed_state_def Let_def)
  ultimately show thesis using app' h by (intro that [of "committed_state N app st" en]) simp_all
qed

section \<open>Properties\<close>

text \<open>
  C14: Restarting a node after a commit continues from the committed state.  When the
  codec of the state inverts its encoding, the store holds the genesis hash and the
  chain id the node is started with, the validation service accepts the hash of the
  commit, and the integrity checks on the validators pass, the recovered application
  is the one that committed, except for the connection to the service, the validator
  powers, which are read back from the index, and the changes of the block, which
  are empty.
\<close>

theorem restart_after_commit:
  assumes "kvdb_laws (ne_db N)" "commit_handler N app = Done (h, app')" "last_state app' = Some st"
    and "ne_dec_state N (ne_enc_state N st) = Ok st"
    and "hexdec gah = Ok (genesis_app_hash app)" "length (genesis_app_hash app) = 32"
    and "2 \<le> length chain_id" "hexdec (drop (length chain_id - 2) chain_id) = Ok [app_chain_hex_id app]"
    and "db_get (ne_db N) (storage_db app) COL_NODE_INFO GENESIS_APP_HASH_KEY = Ok (Some (genesis_app_hash app))"
    and "db_get (ne_db N) (storage_db app) COL_EXTRA CHAIN_ID_KEY = Ok (Some (as_bytes chain_id))"
    and "check_chain N (app_chain_hex_id app) (Some h) en = Done en'"
    and "get_validator_mapping N (accounts app) st = Done vp"
  shows "new_with_storage N hexdec en gah chain_id (storage_db app') (accounts app') (tx_query_address app) =
    Done (app'\<lparr>tx_validator := en', validator_voting_power := vp, power_changed_in_block := [],
      new_nodes_in_block := []\<rparr>)"
proof -
  obtain st0 en0 where c: "last_state app' = Some st0" "last_apphash st0 = h"
      "account_root (top_level st0) = uncommitted_account_root_hash app"
      "db_get (ne_db N) (storage_db app') COL_NODE_INFO LAST_STATE_KEY = Ok (Some (ne_enc_state N st0))"
      "app' = app\<lparr>storage_db := storage_db app', tx_validator := en0, last_state := Some st0,
        delivered_txs := [], rewards_pool_updated := False\<rparr>"
    by (rule commit_stores_state [OF assms(1,2)])
  have st0: "st0 = st" using c(1) assms(3) by simp
  have hex: "chain_hex_digits hexdec chain_id = Done (app_chain_hex_id app)"
    using assms(7,8) by (simp add: chain_hex_digits_def)
  note keep = commit_keeps_node_info [OF assms(1,2)]
  define db' where "db' = storage_db app'"
  have app': "app' = app\<lparr>storage_db := db', tx_validator := en0, last_state := Some st,
      delivered_txs := [], rewards_pool_updated := False\<rparr>"
    using c(5) unfolding st0 db'_def .
  have "restore_from_storage N hexdec en' st (genesis_app_hash app) chain_id db' (accounts app) (tx_query_address app) =
      Done \<lparr>storage_db = db', accounts = accounts app, delivered_txs = [],
        uncommitted_account_root_hash = uncommitted_account_root_hash app, genesis_app_hash = genesis_app_hash app,
        app_chain_hex_id = app_chain_hex_id app, last_state = Some st, validator_voting_power = vp,
        power_changed_in_block = [], new_nodes_in_block = [], tx_validator = en',
        rewards_pool_updated = False, tx_query_address = tx_query_address app\<rparr>"
    using keep assms(6,9,10,12) hex c(3) by (simp add: restore_from_storage_def st0 db'_def bm_new_def)
  moreover have "new_with_storage N hexdec en gah chain_id db' (accounts app) (tx_query_address app) =
      restore_from_storage N hexdec en' st (genesis_app_hash app) chain_id db' (accounts app) (tx_query_address app)"
    using assms(4,5,6,11) hex c(2,4) by (simp add: new_with_storage_def st0 db'_def)
  ultimately show ?thesis by (simp add: app')
qed

definition restart_state :: "bool list chain_node_state" where
  "restart_state = sample_set_state\<lparr>validators := (validators sample_set_state)\<lparr>council_nodes_by_power := []\<rparr>\<rparr>"

definition restart_app ::
    "(bool list, sample_db_type, sample_trie_type, bool list mock_client) chain_node_app" where
  "restart_app = sample_app\<lparr>
     storage_db := [(COL_NODE_INFO, GENESIS_APP_HASH_KEY) \<mapsto> replicate 32 0, (COL_EXTRA, CHAIN_ID_KEY) \<mapsto> as_bytes ''01''],
     genesis_app_hash := replicate 32 0, last_state := Some restart_state\<rparr>"

definition restart_env :: "(bool list, sample_db_type, sample_trie_type, bool list mock_client) node_env" where
  "restart_env = sample_env\<lparr>ne_dec_state := \<lambda>d. Ok (committed_state sample_env restart_app restart_state)\<rparr>"

definition restart_hex :: "string \<Rightarrow> string + bytes" where
  "restart_hex s = Ok (if s = ''01'' then [1] else replicate 32 0)"

lemma restart_commit:
  "\<exists>h app'. commit_handler restart_env restart_app = Done (h, app') \<and>
     last_state app' = Some (committed_state sample_env restart_app restart_state)"
proof -
  let ?st = "committed_state sample_env restart_app restart_state"
  have same: "committed_state restart_env restart_app restart_state = ?st"
    by (simp add: committed_state_def restart_env_def txid_tree_def compute_app_hash_def rewards_pool_hash_def
        network_params_hash_def)
  have "network_params (top_level ?st) = sample_network_params"
    by (simp add: committed_state_def Let_def restart_state_def sample_set_state_def)
  moreover have "last_state restart_app = Some restart_state" "delivered_txs restart_app = []"
    by (simp_all add: restart_app_def sample_app_def)
  moreover have env: "ne_process restart_env = mock_process sample_service" "ne_db restart_env = map_kvdb"
    by (simp_all add: restart_env_def)
  moreover obtain db' where "db_write map_kvdb (storage_db restart_app) (commit_writes restart_env restart_app ?st []) = Ok db'"
    using map_kvdb_write by blast
  ultimately show ?thesis using same sample_min_fee by (simp add: commit_handler_def Let_def mock_process_def)
qed

theorem restart_after_commit_witness:
  "\<exists>h app' app''. commit_handler restart_env restart_app = Done (h, app') \<and>
     new_with_storage restart_env restart_hex sample_client [] ''01'' (storage_db app') (accounts app') None = Done app'' \<and>
     last_state app'' = last_state app'"
proof -
  obtain h app' where run: "commit_handler restart_env restart_app = Done (h, app')"
      and st: "last_state app' = Some (committed_state sample_env restart_app restart_state)"
    using restart_commit by blast
  have laws: "kvdb_laws (ne_db restart_env)" by (simp add: restart_env_def map_kvdb_laws)
  have dec: "ne_dec_state restart_env (ne_enc_state restart_env (committed_state sample_env restart_app restart_state)) =
      Ok (committed_state sample_env restart_app restart_state)" by (simp add: restart_env_def)
  have hex: "restart_hex [] = Ok (genesis_app_hash restart_app)" "length (genesis_app_hash restart_app) = 32"
      "2 \<le> length ''01''" "restart_hex (drop (length ''01'' - 2) ''01'') = Ok [app_chain_hex_id restart_app]"
    by (simp_all add: restart_hex_def restart_app_def sample_app_def)
  have db: "db_get (ne_db restart_env) (storage_db restart_app) COL_NODE_INFO GENESIS_APP_HASH_KEY = Ok (Some (genesis_app_hash restart_app))"
      "db_get (ne_db restart_env) (storage_db restart_app) COL_EXTRA CHAIN_ID_KEY = Ok (Some (as_bytes ''01''))"
    by (simp_all add: restart_env_def map_kvdb_def restart_app_def)
  have chk: "check_chain restart_env (app_chain_hex_id restart_app) (Some h) sample_client = Done sample_client"
    by (simp add: check_chain_def restart_env_def mock_process_def restart_app_def sample_app_def sample_client_def mock_new_def)
  have vp: "get_validator_mapping restart_env (accounts restart_app) (committed_state sample_env restart_app restart_state) = Done bm_new"
    by (simp add: get_validator_mapping_def Let_def committed_state_def restart_state_def)
  have q: "tx_query_address restart_app = None" by (simp add: restart_app_def sample_app_def)
  from restart_after_commit [OF laws run st dec hex db chk vp] run show ?thesis unfolding q by auto
qed

section \<open>The validators after a restart\<close>

lemma mapping_loop_Done:
  assumes "mapping_loop N root accs required es vp = Done vp'" "distinct (map (snd \<circ> fst) es)" "bm_wf vp"
  shows "bm_wf vp' \<and>
    (\<forall>((p, a), n) \<in> set es. bm_get vp' a = Some p \<and> (\<exists>s. acct N root accs a = Ok s \<and> council_node s = Some n \<and>
       p = (if is_jailed s \<or> bonded s < required then vote_power_zero else VotePower (int (coin_units (bonded s)))))) \<and>
    (\<forall>a. a \<notin> snd ` fst ` set es \<longrightarrow> bm_get vp' a = bm_get vp a)"
  using assms
proof (induction N root accs required es vp rule: mapping_loop.induct)
  case (1 N root accs required vp)
  then show ?case by simp
next
  case (2 N root accs required power address node rest vp)
  obtain s where s: "acct N root accs address = Ok s" using "2.prems"(1) by (auto simp: run_elims)
  define p where "p = (if is_jailed s \<or> bonded s < required then vote_power_zero else VotePower (int (coin_units (bonded s))))"
  have zero: "VotePower (int (coin_units coin_zero)) = vote_power_zero" by (simp add: coin_units_def vote_power_zero_def)
  from "2.prems"(1) s have pw: "power = p" and cn: "council_node s = Some node"
      and rest: "mapping_loop N root accs required rest (bm_insert address p vp) = Done vp'"
    by (auto simp: run_elims p_def zero split: if_splits)
  have wf: "bm_wf (bm_insert address p vp)" using "2.prems"(3) by (rule bm_wf_insert)
  have ih: "bm_wf vp' \<and>
    (\<forall>((p, a), n) \<in> set rest. bm_get vp' a = Some p \<and> (\<exists>s. acct N root accs a = Ok s \<and> council_node s = Some n \<and>
       p = (if is_jailed s \<or> bonded s < required then vote_power_zero else VotePower (int (coin_units (bonded s)))))) \<and>
    (\<forall>a. a \<notin> snd ` fst ` set rest \<longrightarrow> bm_get vp' a = bm_get (bm_insert address p vp) a)"
    using "2.IH" rest s cn pw wf "2.prems"(2) by (auto simp: run_elims)
  moreover have "address \<notin> snd ` fst ` set rest" using "2.prems"(2) by (simp add: image_comp)
  ultimately have "bm_get vp' address = Some p" using bm_get_insert [OF "2.prems"(3)] by simp
  with ih s cn pw p_def show ?case using bm_get_insert [OF "2.prems"(3)] by auto
qed

lemma index_addresses_distinct:
  assumes "index_ok idx"
  shows "distinct (map (snd \<circ> fst) (take k (rev idx)))"
proof -
  have wf: "bm_wf idx" using assms by (simp add: index_ok_def)
  have "distinct (map fst idx)" using btm.entries_distinct [OF wf] .
  moreover have "inj_on snd (fst ` set idx)"
    using assms by (auto simp: index_ok_def inj_on_def bm_contains_keys) (metis fst_conv image_eqI)+
  ultimately have "distinct (map snd (map fst idx))" unfolding distinct_map by simp
  then have "distinct (map (snd \<circ> fst) (rev idx))" by (simp add: rev_map [symmetric])
  then show ?thesis by (simp add: distinct_take flip: take_map)
qed

text \<open>
  The validator powers after a restart.  When the integrity checks pass on a
  consistent index, the recovered map holds exactly the entries of the index with
  the highest powers, up to the size of the validator set, and each recovered power
  is the one the account stands for: zero for a jailed account or one below the
  required stake, and the number of bonded whole coins otherwise.
\<close>

lemma restored_powers:
  assumes "index_ok (index_of st)" "get_validator_mapping N accs st = Done vp"
  shows "(bm_get vp a = Some p \<longleftrightarrow> (p, a) \<in> fst ` set (take (set_size st) (rev (index_of st)))) \<and>
    (bm_get vp a = Some p \<longrightarrow> (\<exists>s. acct N (account_root (top_level st)) accs a = Ok s \<and>
       p = (if is_jailed s \<or> bonded s < required_council_node_stake (network_params (top_level st))
         then vote_power_zero else VotePower (int (coin_units (bonded s))))))"
proof -
  define es where "es = take (set_size st) (rev (index_of st))"
  have run: "mapping_loop N (account_root (top_level st)) accs
      (required_council_node_stake (network_params (top_level st))) es bm_new = Done vp"
    using assms(2) by (simp add: get_validator_mapping_def Let_def es_def)
  have dist: "distinct (map (snd \<circ> fst) es)" unfolding es_def by (rule index_addresses_distinct [OF assms(1)])
  note m = mapping_loop_Done [OF run dist bm_wf_new]
  have get: "bm_get vp b = Some q \<and> (\<exists>s. acct N (account_root (top_level st)) accs b = Ok s \<and>
      q = (if is_jailed s \<or> bonded s < required_council_node_stake (network_params (top_level st))
         then vote_power_zero else VotePower (int (coin_units (bonded s)))))" if "((q, b), n) \<in> set es" for q b n
    using m that by fastforce
  have iff: "bm_get vp a = Some p \<longleftrightarrow> (p, a) \<in> fst ` set es"
  proof
    assume "bm_get vp a = Some p"
    then have "a \<in> snd ` fst ` set es" using m by (metis bm_get_new option.discI)
    then obtain q n where "((q, a), n) \<in> set es" by auto
    with get [OF this] \<open>bm_get vp a = Some p\<close> show "(p, a) \<in> fst ` set es" by force
  next
    assume "(p, a) \<in> fst ` set es"
    then obtain n where "((p, a), n) \<in> set es" by auto
    with get show "bm_get vp a = Some p" by blast
  qed
  moreover have "\<exists>s. acct N (account_root (top_level st)) accs a = Ok s \<and>
      p = (if is_jailed s \<or> bonded s < required_council_node_stake (network_params (top_level st))
         then vote_power_zero else VotePower (int (coin_units (bonded s))))" if "bm_get vp a = Some p"
  proof -
    from that iff obtain n where "((p, a), n) \<in> set es" by auto
    with get show ?thesis by blast
  qed
  ultimately show ?thesis unfolding es_def by blast
qed

text \<open>A node whose stake fell below the minimum, and its account after a deposit that reaches it again.\<close>

definition weak_node :: staked_state where
  "weak_node = (staked_new 1 (Coin 100) (Coin 0) 0 (BasicRedeem [1]) None)\<lparr>council_node := Some (sample_council_node 1)\<rparr>"

definition weak_state :: "bool list chain_node_state" where
  "weak_state = sample_set_state\<lparr>validators := (validators sample_set_state)
     \<lparr>council_nodes_by_power := [((VotePower 0, BasicRedeem [1]), sample_council_node 1)]\<rparr>\<rparr>"

definition weak_accounts :: sample_trie_type where
  "weak_accounts = (\<lambda>r k. if k = sample_hash [1] then Some weak_node else None, 0)"


lemma weak_mapping:
  "get_validator_mapping sample_env weak_accounts weak_state = Done [(BasicRedeem [1], VotePower 0)]"
  by (simp add: get_validator_mapping_def weak_state_def sample_set_state_def sample_network_params_def get_max_validators_def
      get_account_def map_trie_def weak_accounts_def to_stake_key_def sample_ext_def weak_node_def staked_new_def
      is_jailed_def coin_less_iff coin_units_def bm_new_def Let_def)

lemma weak_index_ok: "index_ok (index_of weak_state)"
  by (auto simp: index_ok_def weak_state_def bm_wf_def bm_contains_def bm_get_def split: if_splits)

lemma weak_listed:
  "(vote_power_zero, BasicRedeem [1]) \<in> fst ` set (take (set_size weak_state) (rev (index_of weak_state)))"
  by (simp add: weak_state_def sample_set_state_def sample_network_params_def get_max_validators_def vote_power_zero_def)

lemma strongest_top: "index_ok idx \<Longrightarrow> (p, a) \<in> fst ` set (take k (rev idx)) \<longleftrightarrow> (p, a) \<in> top_powers k idx"
  using strongest_entries [of idx p a _ k]
  by (force simp: index_ok_def top_powers_def bm_contains_def)

text \<open>
  C33: The validator powers after a restart.  Take a node whose voting power map is
  the one the end of a block leaves: the positive powers among the strongest
  entries of a consistent index, up to the size of the validator set.  When the
  integrity checks of a restart pass, the recovered map holds exactly these powers
  and, in addition, the addresses among the strongest entries whose power is zero,
  which the running node does not hold.  Each recovered power is the one the account
  stands for: zero for a jailed account or one below the required stake, and the
  number of bonded whole coins otherwise.
\<close>

theorem restart_recovers_powers:
  assumes "index_ok (index_of st)"
    and "{(p, a). bm_get vp a = Some p} = spec_set (set_size st) {x. bm_contains (index_of st) x}"
    and "get_validator_mapping N accs st = Done vp'"
  shows "(bm_get vp' a = Some p \<longleftrightarrow> bm_get vp a = Some p \<or>
      p = vote_power_zero \<and> (p, a) \<in> fst ` set (take (set_size st) (rev (index_of st)))) \<and>
    (bm_get vp' a = Some p \<longrightarrow> (\<exists>s. acct N (account_root (top_level st)) accs a = Ok s \<and>
      p = (if is_jailed s \<or> bonded s < required_council_node_stake (network_params (top_level st))
         then vote_power_zero else VotePower (int (coin_units (bonded s))))))"
proof -
  note r = restored_powers [OF assms(1,3), of a p]
  have sign: "vote_power_zero < p \<or> p = vote_power_zero" if "bm_get vp' a = Some p"
    using r that by (auto simp: vote_power_zero_def less_vote_power_def split: if_splits)
  have "bm_get vp a = Some p \<longleftrightarrow> (p, a) \<in> top_powers (set_size st) (index_of st) \<and> vote_power_zero < p"
    using assms(2) by (auto simp: spec_set_def top_powers_def set_eq_iff)
  with r sign show ?thesis unfolding strongest_top [OF assms(1)] by blast
qed

theorem restart_recovers_powers_witness:
  "get_validator_mapping sample_env weak_accounts weak_state = Done [(BasicRedeem [1], VotePower 0)] \<and>
   bm_get [(BasicRedeem [1], VotePower 0)] (BasicRedeem [1]) = Some (VotePower 0)"
proof -
  have "{(p, a). bm_get ([] :: power_map) a = Some p} = spec_set (set_size weak_state) {x. bm_contains (index_of weak_state) x}"
    by (auto simp: spec_set_def bm_get_def bm_contains_def weak_state_def vote_power_zero_def less_vote_power_def split: if_splits)
  from restart_recovers_powers [OF weak_index_ok this weak_mapping, of "BasicRedeem [1]" vote_power_zero] weak_listed weak_mapping
  show ?thesis by (simp add: vote_power_zero_def)
qed



section \<open>The state after the genesis block\<close>

definition node_power :: "init_config \<Rightarrow> staked_address \<Rightarrow> vote_power" where
  "node_power conf a = (case bm_get (distribution conf) (redeem_bytes a) of
     Some (d, amount) \<Rightarrow> VotePower (int (coin_units amount)) | None \<Rightarrow> vote_power_zero)"

lemma get_voting_power_Done: "get_voting_power (distribution conf) a = Done p \<Longrightarrow> p = node_power conf a"
  by (auto simp: get_voting_power_def node_power_def run_elims)

lemma genesis_loop_Done:
  assumes "genesis_loop N conf ns (vp, idx, vs, tm, live) = Done (vp', idx', vs', tm', live')" "bm_wf vp" "bm_wf idx"
    and "\<forall>(a, n) \<in> set ns. n = node_at a"
  shows "bm_wf vp' \<and> bm_wf idx' \<and>
    (\<forall>a. bm_get vp' a = (if a \<in> fst ` set ns then Some (node_power conf a) else bm_get vp a)) \<and>
    (\<forall>p a. bm_get idx' (p, a) =
      (if a \<in> fst ` set ns \<and> p = node_power conf a then Some (node_at a) else bm_get idx (p, a)))"
  using assms
proof (induction ns arbitrary: vp idx vs tm live)
  case Nil
  then show ?case by simp
next
  case (Cons e ns)
  obtain address node where e: "e = (address, node)" by (cases e)
  then have node: "node = node_at address" and rest: "\<forall>(a, n) \<in> set ns. n = node_at a"
    using Cons.prems(4) by auto
  define p where "p = node_power conf address"
  from Cons.prems(1) obtain vs1 tm1 live1 where
    "genesis_loop N conf ns (bm_insert address p vp, bm_insert (p, address) node idx, vs1, tm1, live1) =
      Done (vp', idx', vs', tm', live')"
    by (auto simp: e run_bind_eq_Done Let_def p_def dest: get_voting_power_Done)
  from Cons.IH [OF this bm_wf_insert [OF Cons.prems(2)] bm_wf_insert [OF Cons.prems(3)] rest]
  show ?case
    using bm_get_insert [OF Cons.prems(2)] bm_get_insert [OF Cons.prems(3)]
    by (auto simp: e p_def node)
qed

lemma list_all2_partner:
  assumes "list_all2 P xs ys"
  shows "y \<in> set ys \<Longrightarrow> \<exists>x \<in> set xs. P x y" "x \<in> set xs \<Longrightarrow> \<exists>y \<in> set ys. P x y"
  using assms by (induction rule: list_all2_induct) auto

lemma genesis_validators_set:
  assumes "genesis_validators conf = Ok ns"
  shows "(a, n) \<in> set ns \<longleftrightarrow> (\<exists>b. a = BasicRedeem b \<and> get_council_node conf b = Ok n)"
    and "bm_contains (council_nodes conf) b \<Longrightarrow> \<exists>n. get_council_node conf b = Ok n"
proof -
  let ?P = "\<lambda>b y. and_then (get_council_node conf b) (\<lambda>n. Ok (BasicRedeem b, n)) = Ok y"
  have P: "?P b (a, n) \<longleftrightarrow> a = BasicRedeem b \<and> get_council_node conf b = Ok n" for a b n
    by (auto simp: and_then_eq_Ok)
  have rel: "list_all2 ?P (map fst (council_nodes conf)) ns"
    using assms by (simp add: genesis_validators_def collect_results_Ok del: map_map)
  have origin: "\<exists>b. ?P b y" if "y \<in> set ns" for y
    using list_all2_partner(1) [OF rel that] by blast
  have forth: "\<exists>y \<in> set ns. ?P b y" if "bm_contains (council_nodes conf) b" for b
  proof -
    from that have "b \<in> set (map fst (council_nodes conf))" by (simp add: bm_contains_keys)
    from list_all2_partner(2) [OF rel this] show ?thesis .
  qed
  show "\<exists>n. get_council_node conf b = Ok n" if "bm_contains (council_nodes conf) b"
    using forth [OF that] P by (metis surj_pair)
  show "(a, n) \<in> set ns \<longleftrightarrow> (\<exists>b. a = BasicRedeem b \<and> get_council_node conf b = Ok n)"
  proof
    assume "(a, n) \<in> set ns"
    from origin [OF this] show "\<exists>b. a = BasicRedeem b \<and> get_council_node conf b = Ok n" unfolding P .
  next
    assume "\<exists>b. a = BasicRedeem b \<and> get_council_node conf b = Ok n"
    then obtain b where b: "a = BasicRedeem b" "get_council_node conf b = Ok n" by blast
    then have "bm_contains (council_nodes conf) b" by (simp add: get_council_node_Ok bm_contains_def)
    from forth [OF this] b show "(a, n) \<in> set ns" by simp
  qed
qed

text \<open>The entry of an address in the genesis configuration, read as an entry of the index.\<close>

definition genesis_entry :: "init_config \<Rightarrow> vote_power \<Rightarrow> staked_address \<Rightarrow> council_node \<Rightarrow> bool" where
  "genesis_entry conf p a n \<longleftrightarrow> (\<exists>b amount. a = BasicRedeem b \<and>
     bm_get (council_nodes conf) b = Some (node_name n, security_contact n, consensus_pubkey n) \<and>
     bm_get (distribution conf) b = Some (Bonded, amount) \<and> p = VotePower (int (coin_units amount)))"

lemma genesis_validators_entries:
  assumes "genesis_validators conf = Ok ns"
  shows "(a, n) \<in> set ns \<and> p = node_power conf a \<longleftrightarrow> genesis_entry conf p a n"
proof -
  note set_iff = genesis_validators_set(1) [OF assms, of a n]
  show ?thesis
  proof
    assume "(a, n) \<in> set ns \<and> p = node_power conf a"
    then show "genesis_entry conf p a n"
      unfolding set_iff get_council_node_Ok genesis_entry_def by (auto simp: node_power_def)
  next
    assume "genesis_entry conf p a n"
    then obtain b amount where e: "a = BasicRedeem b" "p = VotePower (int (coin_units amount))"
        "bm_get (council_nodes conf) b = Some (node_name n, security_contact n, consensus_pubkey n)"
        "bm_get (distribution conf) b = Some (Bonded, amount)"
      unfolding genesis_entry_def by blast
    from e(3) obtain m where "get_council_node conf b = Ok m"
      using genesis_validators_set(2) [OF assms, of b] by (auto simp: bm_contains_def)
    with e(3) have "get_council_node conf b = Ok n" unfolding get_council_node_Ok by blast
    with e(1) have "(a, n) \<in> set ns" unfolding set_iff by blast
    with e show "(a, n) \<in> set ns \<and> p = node_power conf a" by (simp add: node_power_def)
  qed
qed

lemma genesis_entry_positive:
  assumes "genesis_validators conf = Ok ns" "genesis_entry conf p a n"
    and "100000000 \<le> coin_val (required_council_node_stake (ic_network_params conf))"
  shows "vote_power_zero < p"
proof -
  from assms(2) have "(a, n) \<in> set ns" "p = node_power conf a"
    using genesis_validators_entries [OF assms(1), of a n p] by blast+
  then obtain b amount where "bm_get (distribution conf) b = Some (Bonded, amount)" "a = BasicRedeem b"
      "required_council_node_stake (ic_network_params conf) \<le> amount" "p = node_power conf a"
    by (auto simp: genesis_validators_set(1) [OF assms(1)] get_council_node_Ok)
  moreover from this assms(3) have "0 < coin_units amount" by (simp add: coin_units_def coin_le_iff)
  ultimately show ?thesis by (simp add: node_power_def vote_power_zero_def less_vote_power_def)
qed

lemma init_chain_handler_Done:
  assumes "init_chain_handler N req app = Done app'" "ne_parse_config N (ic_app_state_bytes req) = Ok conf"
  obtains time ss rp ns root accs vp idx vs tm live st db' where
    "validate_config_get_genesis conf time = Done (Ok (ss, rp, ns))"
    "compute_accounts_root N (accounts app) ss = Done (root, accs)"
    "genesis_app_hash app = compute_app_hash N merkle_empty root rp (ic_network_params conf)"
    "genesis_loop N conf ns (validator_voting_power app, bm_new, [], bm_new, bm_new) = Done (vp, idx, vs, tm, live)"
    "st = chain_node_state_genesis (genesis_app_hash app) time root rp (ic_network_params conf)
       \<lparr>council_nodes_by_power = idx, tendermint_validator_addresses = tm,
        vs_punishment = \<lparr>validator_liveness = live, slashing_schedules = bm_new\<rparr>\<rparr>"
    "db_write (ne_db N) (storage_db app) (store_valid_genesis_state N st
       (check_and_store_consensus_params (ic_consensus_params req) []) (tx_query_address app \<noteq> None)) = Ok db'"
    "app' = app\<lparr>storage_db := db', accounts := accs, validator_voting_power := vp,
       uncommitted_account_root_hash := root, last_state := Some st\<rparr>"
proof -
  from assms obtain time g ss rp ns where g: "validate_config_get_genesis conf time = Done g" "g = Ok (ss, rp, ns)"
      and r: "(let np = ic_network_params conf in
       run_bind (compute_accounts_root N (accounts app) ss) (\<lambda>(new_account_root, accs).
       let gah = compute_app_hash N merkle_empty new_account_root rp np in
       if genesis_app_hash app \<noteq> gah
       then Panic ''initchain resulting genesis app hash does not match the expected genesis app hash''
       else
         let t = check_and_store_consensus_params (ic_consensus_params req) [] in
         run_bind (genesis_loop N conf ns (validator_voting_power app, bm_new, [], bm_new, bm_new))
           (\<lambda>(vp, idx, vs, tm, live).
         if sort_key validator_sort_key vs \<noteq> sort_key validator_sort_key (ic_validators req)
         then Panic ''validators in genesis configuration are not consistent with app_state''
         else
           let st = chain_node_state_genesis gah time new_account_root rp np
                 \<lparr>council_nodes_by_power = idx, tendermint_validator_addresses = tm,
                  vs_punishment = \<lparr>validator_liveness = live, slashing_schedules = bm_new\<rparr>\<rparr>;
               t' = store_valid_genesis_state N st t (tx_query_address app \<noteq> None) in
           run_bind (expect (db_write (ne_db N) (storage_db app) t') ''db write error'') (\<lambda>db'.
           Done (app\<lparr>storage_db := db', accounts := accs, validator_voting_power := vp,
             uncommitted_account_root_hash := account_root (top_level st), last_state := Some st\<rparr>))))) = Done app'"
    by (auto simp: init_chain_handler_def run_bind_eq_Done expect_eq_Done split: if_splits)
  from r obtain root accs where ca: "compute_accounts_root N (accounts app) ss = Done (root, accs)"
      and gah: "genesis_app_hash app = compute_app_hash N merkle_empty root rp (ic_network_params conf)"
    by (auto simp: Let_def run_bind_eq_Done split: if_splits)
  with r obtain vp idx vs tm live where
      gl: "genesis_loop N conf ns (validator_voting_power app, bm_new, [], bm_new, bm_new) = Done (vp, idx, vs, tm, live)"
      "sort_key validator_sort_key vs = sort_key validator_sort_key (ic_validators req)"
    by (auto simp: Let_def run_bind_eq_Done split: if_splits)
  define st where "st = chain_node_state_genesis (genesis_app_hash app) time root rp (ic_network_params conf)
       \<lparr>council_nodes_by_power = idx, tendermint_validator_addresses = tm,
        vs_punishment = \<lparr>validator_liveness = live, slashing_schedules = bm_new\<rparr>\<rparr>"
  have root: "account_root (top_level st) = root" by (simp add: st_def chain_node_state_genesis_def)
  from r ca gah gl obtain db' where "db_write (ne_db N) (storage_db app) (store_valid_genesis_state N st
       (check_and_store_consensus_params (ic_consensus_params req) []) (tx_query_address app \<noteq> None)) = Ok db'"
      "app' = app\<lparr>storage_db := db', accounts := accs, validator_voting_power := vp,
       uncommitted_account_root_hash := account_root (top_level st), last_state := Some st\<rparr>"
    by (auto simp: Let_def run_bind_eq_Done expect_eq_Done st_def)
  with g ca gah gl(1) st_def root show thesis by (intro that) simp_all
qed

text \<open>
  C15: The genesis block leaves a consistent node.  When the configuration requires a
  stake of at least one whole coin, a successful \<open>init_chain_handler\<close> on a node
  without validators yields a state at height zero whose hash is the genesis hash the
  node was configured with.  The index holds exactly the council nodes of the
  configuration, each under the number of whole coins the distribution bonds for its
  address; the voting power map holds the same addresses with the same powers, all
  positive, so the set is consistent with the index; and this state is the one stored.
\<close>

theorem init_chain_consistent:
  assumes "init_chain_handler N req app = Done app'" "ne_parse_config N (ic_app_state_bytes req) = Ok conf"
    and "validator_voting_power app = []" "kvdb_laws (ne_db N)"
    and "100000000 \<le> coin_val (required_council_node_stake (ic_network_params conf))"
  shows "\<exists>st. last_state app' = Some st \<and> last_apphash st = genesis_app_hash app \<and> last_block_height st = 0 \<and>
    uncommitted_account_root_hash app' = account_root (top_level st) \<and>
    set_ok (validator_voting_power app') (index_of st) \<and>
    (\<forall>p a n. bm_get (index_of st) (p, a) = Some n \<longleftrightarrow> genesis_entry conf p a n) \<and>
    (\<forall>p a. bm_get (validator_voting_power app') a = Some p \<longleftrightarrow> (\<exists>n. genesis_entry conf p a n)) \<and>
    db_get (ne_db N) (storage_db app') COL_NODE_INFO LAST_STATE_KEY = Ok (Some (ne_enc_state N st))"
proof -
  obtain time ss rp ns root accs vp idx vs tm live st db' where
      val: "validate_config_get_genesis conf time = Done (Ok (ss, rp, ns))"
      and loop: "genesis_loop N conf ns (validator_voting_power app, bm_new, [], bm_new, bm_new) = Done (vp, idx, vs, tm, live)"
      and st: "st = chain_node_state_genesis (genesis_app_hash app) time root rp (ic_network_params conf)
       \<lparr>council_nodes_by_power = idx, tendermint_validator_addresses = tm,
        vs_punishment = \<lparr>validator_liveness = live, slashing_schedules = bm_new\<rparr>\<rparr>"
      and w: "db_write (ne_db N) (storage_db app) (store_valid_genesis_state N st
       (check_and_store_consensus_params (ic_consensus_params req) []) (tx_query_address app \<noteq> None)) = Ok db'"
      and app': "app' = app\<lparr>storage_db := db', accounts := accs, validator_voting_power := vp,
       uncommitted_account_root_hash := root, last_state := Some st\<rparr>"
    by (rule init_chain_handler_Done [OF assms(1,2)])
  have wf0: "bm_wf (validator_voting_power app)" by (simp add: assms(3) bm_wf_def)
  have nodes: "genesis_validators conf = Ok ns" using validate_config_Ok [OF val] by simp
  note entry = genesis_validators_entries [OF nodes]
  define node_at where "node_at a = projr (get_council_node conf (redeem_bytes a))" for a
  have at: "\<forall>(a, n) \<in> set ns. n = node_at a"
    by (auto simp: genesis_validators_set(1) [OF nodes] node_at_def)
  note g = genesis_loop_Done [OF loop wf0 bm_wf_new at]
  have named: "a \<in> fst ` set ns \<longleftrightarrow> (\<exists>n. (a, n) \<in> set ns)" for a by force
  have powers: "bm_get vp a = Some p \<longleftrightarrow> (\<exists>n. genesis_entry conf p a n)" for p a
    using g unfolding entry [symmetric] by (simp add: assms(3) bm_get_def [of "[]"] named) blast
  have listed: "bm_get idx (p, a) = Some n \<longleftrightarrow> genesis_entry conf p a n" for p a n
    using g at unfolding entry [symmetric] named by (auto split: if_splits)
  have one: "p = q" if "genesis_entry conf p a n" "genesis_entry conf q a m" for p q a n m
    using that by (simp flip: entry)
  have wf: "bm_wf vp" "bm_wf idx" using g by simp_all
  have "index_ok idx" using wf one listed by (auto simp: index_ok_def bm_contains_def)
  then have ok: "set_ok vp idx"
    using wf powers listed genesis_entry_positive [OF nodes _ assms(5)]
    by (fastforce simp: set_ok_def bm_contains_def)
  have "db_get (ne_db N) db' COL_NODE_INFO LAST_STATE_KEY = Ok (Some (ne_enc_state N st))"
    unfolding commit_reads [OF assms(4) w]
    by (simp add: store_valid_genesis_state_def Let_def dbtx_put_def check_and_store_consensus_params_def split: option.splits)
  with ok powers listed show ?thesis
    by (intro exI [of _ st]) (simp add: app' st chain_node_state_genesis_def)
qed

definition genesis_node :: council_node where
  "genesis_node = \<lparr>node_name = ''a'', security_contact = None, consensus_pubkey = Ed25519 [7]\<rparr>"

lemma sample_genesis:
  obtains pool where "validate_config_get_genesis sample_config 0 =
    Done (Ok (init_get_account sample_config 0, pool, [(BasicRedeem [1], genesis_node)]))"
proof -
  obtain accs pool vs where run: "validate_config_get_genesis sample_config 0 = Done (Ok (accs, pool, vs))"
    using sample_config_valid by blast
  have "genesis_validators sample_config = Ok [(BasicRedeem [1], genesis_node)]"
    using sample_config_node by (simp add: genesis_validators_def genesis_node_def) (simp add: sample_config_def)
  with run validate_config_Ok [OF run] that show thesis by simp
qed

definition genesis_env :: "(bool list, sample_db_type, sample_trie_type, bool list mock_client) node_env" where
  "genesis_env = sample_env\<lparr>ne_parse_config := \<lambda>d. Ok sample_config\<rparr>"

definition genesis_request :: init_chain_request where
  "genesis_request = \<lparr>ic_app_state_bytes = [], ic_time = Some 0, ic_chain_id = ''01'', ic_consensus_params = None,
     ic_validators = [(40000000000, Some (get_validator_key genesis_node))]\<rparr>"

lemma sample_init_run:
  "\<exists>app app'. init_chain_handler genesis_env genesis_request app = Done app' \<and> validator_voting_power app = []"
proof -
  obtain pool where g: "validate_config_get_genesis sample_config 0 =
      Done (Ok (init_get_account sample_config 0, pool, [(BasicRedeem [1], genesis_node)]))" by (rule sample_genesis)
  have "\<exists>root accs. compute_accounts_root genesis_env (accounts restart_app) (init_get_account sample_config 0) = Done (root, accs)"
    by (simp add: compute_accounts_root_def genesis_env_def map_trie_def Let_def split: prod.splits)
  then obtain root accs where ca: "compute_accounts_root genesis_env (accounts restart_app) (init_get_account sample_config 0) = Done (root, accs)"
    by blast
  define app where "app = restart_app\<lparr>genesis_app_hash := compute_app_hash genesis_env merkle_empty root pool sample_network_params,
      validator_voting_power := []\<rparr>"
  have ca': "compute_accounts_root genesis_env (accounts app) (init_get_account sample_config 0) = Done (root, accs)"
    using ca by (simp add: app_def)
  have np: "ic_network_params sample_config = sample_network_params" by (simp add: sample_config_def)
  have gah: "genesis_app_hash app = compute_app_hash genesis_env merkle_empty root pool sample_network_params"
    by (simp add: app_def)
  have pw: "get_voting_power (distribution sample_config) (BasicRedeem [1]) = Done (VotePower 40000000000)"
    by (simp add: get_voting_power_def sample_config_def bm_get_def coin_units_def)
  obtain idx tm live where loop: "genesis_loop genesis_env sample_config [(BasicRedeem [1], genesis_node)] ([], bm_new, [], bm_new, bm_new) =
      Done ([(BasicRedeem [1], VotePower 40000000000)], idx, [(40000000000, Some (get_validator_key genesis_node))], tm, live)"
    using pw by (simp add: Let_def bm_new_def)
  have vp0: "validator_voting_power app = []" by (simp add: app_def)
  have parse: "ne_parse_config genesis_env d = Ok sample_config" for d by (simp add: genesis_env_def)
  have chain: "db_get (ne_db genesis_env) (storage_db app) COL_EXTRA CHAIN_ID_KEY = Ok (Some (as_bytes ''01''))"
    by (simp add: genesis_env_def map_kvdb_def app_def restart_app_def)
  define st where "st = chain_node_state_genesis (genesis_app_hash app) 0 root pool sample_network_params
      \<lparr>council_nodes_by_power = idx, tendermint_validator_addresses = tm,
       vs_punishment = \<lparr>validator_liveness = live, slashing_schedules = bm_new\<rparr>\<rparr>"
  obtain db' where "db_write (ne_db genesis_env) (storage_db app) (store_valid_genesis_state genesis_env st
      (check_and_store_consensus_params None []) (tx_query_address app \<noteq> None)) = Ok db'"
    using map_kvdb_write by (force simp: genesis_env_def)
  with g ca' gah loop vp0 chain np have "\<exists>app'. init_chain_handler genesis_env genesis_request app = Done app'"
    by (simp add: init_chain_handler_def parse genesis_request_def Let_def st_def del: genesis_loop.simps)
  with vp0 show ?thesis by blast
qed

theorem init_chain_consistent_witness:
  "\<exists>app app' st. init_chain_handler genesis_env genesis_request app = Done app' \<and> last_state app' = Some st \<and>
     set_ok (validator_voting_power app') (index_of st) \<and>
     bm_get (index_of st) (VotePower 40000000000, BasicRedeem [1]) = Some genesis_node"
proof -
  obtain app app' where run: "init_chain_handler genesis_env genesis_request app = Done app'" "validator_voting_power app = []"
    using sample_init_run by blast
  have parse: "ne_parse_config genesis_env (ic_app_state_bytes genesis_request) = Ok sample_config"
    by (simp add: genesis_env_def)
  have laws: "kvdb_laws (ne_db genesis_env)" by (simp add: genesis_env_def map_kvdb_laws)
  have "100000000 \<le> coin_val (required_council_node_stake (ic_network_params sample_config))"
    by (simp add: sample_config_def sample_network_params_def)
  note r = init_chain_consistent [OF run(1) parse run(2) laws this]
  have "genesis_entry sample_config (VotePower 40000000000) (BasicRedeem [1]) genesis_node"
    by (simp add: genesis_entry_def sample_config_def genesis_node_def bm_get_def coin_units_def)
  with r run(1) show ?thesis by blast
qed

end
