(* ===== verification/Validation_Enclave.thy ===== *)
theory Validation_Enclave
  imports Enclave_Protocol
begin

text \<open>
  The transaction validation service: the code inside the enclave
  (chain-tx-enclave/tx-validation/enclave/src: validation and encryption requests,
  and the shared unsealing of chain-tx-enclave/enclave-t-common), the calls into it
  (tx-validation/app/src/enclave_u) and the server around it
  (tx-validation/app/src/server).  Sealing, authenticated encryption, random
  numbers, the binary codec and the embedded databases are parameters.
\<close>

section \<open>Messages between the server and the enclave\<close>

record intra_encrypt_request =
  ie_txid :: txid
  ie_sealed_enc_request :: sealed_log
  ie_tx_inputs :: "sealed_log list option"
  ie_info :: chain_info

datatype intra_enclave_request =
    IntraValidateTx verify_tx_request "sealed_log list option"
  | IntraEndBlock
  | IntraEncrypt intra_encrypt_request

datatype intra_enclave_response_ok =
    IntraTxWithOutputs fee sealed_log
  | IntraDepositStakeTx coin
  | IntraEndBlockFilter "bytes option"
  | IntraEncrypted tx_obfuscated

type_synonym intra_enclave_response = "error + intra_enclave_response_ok"

datatype encryption_request =
    EncryptTransferTx tx tx_witness
  | EncryptDepositStake deposit_bond_tx tx_witness
  | EncryptWithdrawStake withdraw_unbonded_tx staked_state op_witness

record tx_to_obfuscate =
  to_payload :: bytes
  to_txid :: txid

datatype sgx_status = SGX_SUCCESS | SGX_ERROR_INVALID_PARAMETER | SGX_ERROR nat

text \<open>
  \<open>sgx_unseal\<close> stands for reading a raw sealed blob and unsealing it: the additional
  text and the decrypted text.  \<open>sgx_rand i\<close> is the \<open>i\<close>-th initialisation vector
  drawn.  \<open>aead_encrypt\<close> and \<open>aead_decrypt\<close> take the nonce, the message and the
  additional data.
\<close>

record 'bv sgx_env =
  sg_service :: "'bv service_env"
  sgx_seal :: "bytes \<Rightarrow> bytes \<Rightarrow> sgx_status + bytes"
  sgx_unseal :: "bytes \<Rightarrow> (bytes \<times> bytes) option"
  sgx_rand :: "nat \<Rightarrow> bytes"
  aead_encrypt :: "bytes \<Rightarrow> bytes \<Rightarrow> bytes \<Rightarrow> bytes option"
  aead_decrypt :: "bytes \<Rightarrow> bytes \<Rightarrow> bytes \<Rightarrow> bytes option"
  enc_plain_tx_aux :: "plain_tx_aux \<Rightarrow> bytes"
  enc_with_outputs :: "tx_with_outputs \<Rightarrow> bytes"
  dec_with_outputs :: "bytes \<Rightarrow> string + tx_with_outputs"
  dec_encryption_request :: "bytes \<Rightarrow> string + encryption_request"
  enc_intra_request :: "intra_enclave_request \<Rightarrow> bytes"
  dec_intra_request :: "bytes \<Rightarrow> string + intra_enclave_request"
  enc_intra_response :: "intra_enclave_response \<Rightarrow> bytes"
  dec_intra_response :: "bytes \<Rightarrow> string + intra_enclave_response"
  sealed_data_size :: nat
  NETWORK_HEX_ID :: u8

record 'bv enclave_state =
  en_filter :: "'bv block_filter"
  en_draws :: nat

section \<open>Unsealing\<close>

definition is_allowed_view :: "tx_access_policy list \<Rightarrow> public_key option \<Rightarrow> bool \<Rightarrow> bool" where
  "is_allowed_view allowed_views vk check_allowed_views = (case vk of
     Some k \<Rightarrow> if check_allowed_views then list_ex (\<lambda>x. view_key x = k) allowed_views else True
   | None \<Rightarrow> \<not> check_allowed_views)"

fun unseal_loop ::
    "'bv sgx_env \<Rightarrow> public_key option \<Rightarrow> bool \<Rightarrow> (txid \<times> sealed_log) list \<Rightarrow> tx_with_outputs list option" where
  "unseal_loop G vk check [] = Some []"
| "unseal_loop G vk check ((i, log) # rest) =
     (if length log \<ge> 4294967295 then None
      else (case sgx_unseal G log of
        None \<Rightarrow> None
      | Some (additional, text) \<Rightarrow>
          if additional \<noteq> i then None
          else (case dec_with_outputs G text of
            Inl e \<Rightarrow> None
          | Inr t \<Rightarrow> map_option
              (\<lambda>ts. if is_allowed_view (allowed_view (with_outputs_attributes t)) vk check then t # ts else ts)
              (unseal_loop G vk check rest))))"

definition check_unseal ::
    "'bv sgx_env \<Rightarrow> public_key option \<Rightarrow> bool \<Rightarrow> txid list \<Rightarrow> sealed_log list \<Rightarrow> tx_with_outputs list option" where
  "check_unseal G vk check txids sealed_logs = unseal_loop G vk check (zip txids sealed_logs)"

section \<open>Obfuscation\<close>

definition tx_to_obfuscate_from :: "'bv sgx_env \<Rightarrow> plain_tx_aux \<Rightarrow> txid \<Rightarrow> tx_to_obfuscate option" where
  "tx_to_obfuscate_from G t i = (let E = se_ext (sg_service G);
       r = Some \<lparr>to_payload = enc_plain_tx_aux G t, to_txid = i\<rparr> in
     case t of
       PlainTransferTx itx w \<Rightarrow> if tx_id E itx = i then r else None
     | PlainDepositStakeTx w \<Rightarrow> r
     | PlainWithdrawUnbondedStakeTx itx \<Rightarrow> if withdraw_id E itx = i then r else None)"

definition encrypt :: "'bv sgx_env \<Rightarrow> tx_to_obfuscate \<Rightarrow> 'bv enclave_state \<Rightarrow> (tx_obfuscated \<times> 'bv enclave_state) run" where
  "encrypt G t s = (let iv = sgx_rand G (en_draws s) in
     run_bind (expect_opt (aead_encrypt G iv (to_payload t) (to_txid t)) ''encryption failure!'') (\<lambda>ciphertext.
     Done (\<lparr>key_from = -1, init_vector = iv, obf_payload = ciphertext, obf_txid = to_txid t\<rparr>,
       s\<lparr>en_draws := en_draws s + 1\<rparr>)))"

definition decrypt :: "'bv sgx_env \<Rightarrow> tx_obfuscated \<Rightarrow> unit + plain_tx_aux" where
  "decrypt G t = and_then (ok_or (aead_decrypt G (init_vector t) (obf_payload t) (obf_txid t)) ()) (\<lambda>plaintext.
     map_err (\<lambda>_. ()) (dec_plain_tx_aux (sg_service G) plaintext))"

definition unseal_request :: "'bv sgx_env \<Rightarrow> intra_encrypt_request \<Rightarrow> encryption_request option" where
  "unseal_request G request = (case sgx_unseal G (ie_sealed_enc_request request) of
     None \<Rightarrow> None
   | Some (additional, text) \<Rightarrow>
       if additional \<noteq> ie_txid request then None
       else (case dec_encryption_request G text of Inl e \<Rightarrow> None | Inr r \<Rightarrow> Some r))"

section \<open>Responses\<close>

definition write_back_response ::
    "'bv sgx_env \<Rightarrow> sgx_status + intra_enclave_response \<Rightarrow> u32 \<Rightarrow> sgx_status \<times> bytes" where
  "write_back_response G response max_response_len = (case response of
     Inr r \<Rightarrow> (let to_copy = enc_intra_response G r; resp_len = (of_nat (length to_copy) :: u32) in
       if resp_len > 0 \<and> resp_len \<le> max_response_len then (SGX_SUCCESS, to_copy)
       else (SGX_ERROR_INVALID_PARAMETER, []))
   | Inl e \<Rightarrow> (e, []))"

definition construct_sealed_response ::
    "'bv sgx_env \<Rightarrow> error + fee \<Rightarrow> txid \<Rightarrow> tx_with_outputs \<Rightarrow> 'bv enclave_state \<Rightarrow>
     ((sgx_status + intra_enclave_response) \<times> 'bv enclave_state) run" where
  "construct_sealed_response G result i to_seal_tx s = (case result of
     Inl e \<Rightarrow> Done (Ok (Err e), s)
   | Inr f \<Rightarrow> (case sgx_seal G i (enc_with_outputs G to_seal_tx) of
       Inl ret \<Rightarrow> Done (Err ret, s)
     | Inr sealed_log \<Rightarrow> run_bind (filter_add_tx (sg_service G) to_seal_tx (en_filter s)) (\<lambda>fl.
         Done (Ok (Ok (IntraTxWithOutputs f sealed_log)), s\<lparr>en_filter := fl\<rparr>))))"

definition construct_simple_response :: "error + coin \<Rightarrow> sgx_status + intra_enclave_response" where
  "construct_simple_response result = (case result of
     Inl e \<Rightarrow> Ok (Err e) | Inr input_coins \<Rightarrow> Ok (Ok (IntraDepositStakeTx input_coins)))"

definition construct_response ::
    "'bv sgx_env \<Rightarrow> error + unit \<Rightarrow> tx_to_obfuscate \<Rightarrow> 'bv enclave_state \<Rightarrow>
     ((sgx_status + intra_enclave_response) \<times> 'bv enclave_state) run" where
  "construct_response G result to_obfuscate_tx s = (case result of
     Inl e \<Rightarrow> Done (Ok (Err e), s)
   | Inr u \<Rightarrow> run_bind (encrypt G to_obfuscate_tx s) (\<lambda>(otx, s').
       Done (Ok (Ok (IntraEncrypted otx)), s')))"

section \<open>The entry points of the enclave\<close>

type_synonym 'bv ecall_result = "((sgx_status \<times> bytes) \<times> 'bv enclave_state) run"

definition ecall_reject :: "'bv enclave_state \<Rightarrow> 'bv ecall_result" where
  "ecall_reject s = Done ((SGX_ERROR_INVALID_PARAMETER, []), s)"

definition handle_end_block :: "'bv sgx_env \<Rightarrow> u32 \<Rightarrow> 'bv enclave_state \<Rightarrow> 'bv ecall_result" where
  "handle_end_block G response_len s = (let B = se_bv (sg_service G) in
     run_bind (if modified (en_filter s)
       then run_bind (filter_get_raw B (en_filter s)) (\<lambda>raw. Done (Some raw)) else Done None) (\<lambda>maybe_filter.
     Done (write_back_response G (Ok (Ok (IntraEndBlockFilter maybe_filter))) response_len,
       s\<lparr>en_filter := filter_reset B (en_filter s)\<rparr>)))"

definition handle_validate_tx ::
    "'bv sgx_env \<Rightarrow> verify_tx_request \<Rightarrow> sealed_log list option \<Rightarrow> u32 \<Rightarrow> 'bv enclave_state \<Rightarrow> 'bv ecall_result" where
  "handle_validate_tx G request sealed response_len s = (let E = se_ext (sg_service G) in
     if is_basic_valid_tx_request request sealed (NETWORK_HEX_ID G) \<noteq> Ok () then ecall_reject s
     else (case (sealed, vr_tx request) of
       (Some sealed_inputs, EncTransferTx inputs no_of_outputs payload) \<Rightarrow>
         (case (decrypt G payload, check_unseal G None False (map txo_id inputs) sealed_inputs) of
            (Inr (PlainTransferTx t witness), Some ts) \<Rightarrow>
              if tx_id E t \<noteq> obf_txid payload \<or> of_nat (length (tx_outputs t)) \<noteq> no_of_outputs then ecall_reject s
              else run_bind (verify_transfer E t witness (vr_info request) ts) (\<lambda>result.
                run_bind (construct_sealed_response G result (obf_txid payload) (Transfer t) s) (\<lambda>(response, s').
                Done (write_back_response G response response_len, s')))
          | _ \<Rightarrow> ecall_reject s)
     | (Some sealed_inputs, EncDepositStakeTx d payload) \<Rightarrow>
         (case (decrypt G payload, check_unseal G None False (map txo_id (dep_inputs d)) sealed_inputs) of
            (Inr (PlainDepositStakeTx witness), Some ts) \<Rightarrow>
              Done (write_back_response G (construct_simple_response
                (verify_bonded_deposit_core E d witness (vr_info request) ts)) response_len, s)
          | _ \<Rightarrow> ecall_reject s)
     | (None, EncWithdrawUnbondedStakeTx no_of_outputs witness payload) \<Rightarrow>
         (case verify_tx_recover_address E witness (obf_txid payload) of
            Inl e \<Rightarrow> ecall_reject s
          | Inr address \<Rightarrow>
              (case (decrypt G payload, vr_account request) of
                 (Inr (PlainWithdrawUnbondedStakeTx t), Some account) \<Rightarrow>
                   if withdraw_id E t \<noteq> obf_txid payload \<or> no_of_outputs \<noteq> of_nat (length (wd_outputs t)) \<or>
                      ss_address account \<noteq> address then ecall_reject s
                   else run_bind (verify_unbonded_withdraw_core t (vr_info request) account) (\<lambda>result.
                     run_bind (construct_sealed_response G result (obf_txid payload) (StakeWithdraw t) s) (\<lambda>(response, s').
                     Done (write_back_response G response response_len, s')))
               | _ \<Rightarrow> ecall_reject s))
     | _ \<Rightarrow> ecall_reject s))"

definition handle_encrypt_request ::
    "'bv sgx_env \<Rightarrow> intra_encrypt_request \<Rightarrow> u32 \<Rightarrow> 'bv enclave_state \<Rightarrow> 'bv ecall_result" where
  "handle_encrypt_request G request response_len s = (let E = se_ext (sg_service G) in
     case (unseal_request G request, ie_tx_inputs request) of
       (Some (EncryptTransferTx t witness), Some sealed_inputs) \<Rightarrow>
         (case check_unseal G None False (map txo_id (tx_inputs t)) sealed_inputs of
            Some inputs \<Rightarrow>
              run_bind (verify_transfer E t witness (ie_info request) inputs) (\<lambda>result.
              run_bind (expect_opt (tx_to_obfuscate_from G (PlainTransferTx t witness) (tx_id E t))
                ''construct plain payload'') (\<lambda>o_tx.
              run_bind (construct_response G (and_then result (\<lambda>_. Ok ())) o_tx s) (\<lambda>(response, s').
              Done (write_back_response G response response_len, s'))))
          | None \<Rightarrow> ecall_reject s)
     | (Some (EncryptDepositStake d witness), Some sealed_inputs) \<Rightarrow>
         (case check_unseal G None False (map txo_id (dep_inputs d)) sealed_inputs of
            Some inputs \<Rightarrow>
              run_bind (expect_opt (tx_to_obfuscate_from G (PlainDepositStakeTx witness) (deposit_id E d))
                ''construct plain payload'') (\<lambda>o_tx.
              run_bind (construct_response G (and_then
                (verify_bonded_deposit_core E d witness (ie_info request) inputs) (\<lambda>_. Ok ())) o_tx s) (\<lambda>(response, s').
              Done (write_back_response G response response_len, s')))
          | None \<Rightarrow> ecall_reject s)
     | (Some (EncryptWithdrawStake t account witness), None) \<Rightarrow>
         (case verify_tx_recover_address E witness (withdraw_id E t) of
            Inl e \<Rightarrow> ecall_reject s
          | Inr address \<Rightarrow>
              if address = ss_address account then
                run_bind (verify_unbonded_withdraw_core t (ie_info request) account) (\<lambda>result.
                run_bind (expect_opt (tx_to_obfuscate_from G (PlainWithdrawUnbondedStakeTx t) (withdraw_id E t))
                  ''construct plain payload'') (\<lambda>o_tx.
                run_bind (construct_response G (and_then result (\<lambda>_. Ok ())) o_tx s) (\<lambda>(response, s').
                Done (write_back_response G response response_len, s'))))
              else ecall_reject s)
     | _ \<Rightarrow> ecall_reject s)"

definition ecall_initchain :: "'bv sgx_env \<Rightarrow> u8 \<Rightarrow> sgx_status" where
  "ecall_initchain G hex_id = (if hex_id = NETWORK_HEX_ID G then SGX_SUCCESS else SGX_ERROR_INVALID_PARAMETER)"

definition ecall_check_tx :: "'bv sgx_env \<Rightarrow> bytes \<Rightarrow> u32 \<Rightarrow> 'bv enclave_state \<Rightarrow> 'bv ecall_result" where
  "ecall_check_tx G tx_request response_len s = (case dec_intra_request G tx_request of
     Inr (IntraValidateTx request sealed) \<Rightarrow> handle_validate_tx G request sealed response_len s
   | Inr IntraEndBlock \<Rightarrow> handle_end_block G response_len s
   | Inr (IntraEncrypt request) \<Rightarrow> handle_encrypt_request G request response_len s
   | Inl e \<Rightarrow> ecall_reject s)"

end
