(* ===== verification/Validation_Server.thy ===== *)
theory Validation_Server
  imports Validation_Enclave
begin

text \<open>
  The server around the validation enclave (chain-tx-enclave/tx-validation/app/src):
  the calls into the enclave with their request and response buffers, the database
  of sealed transactions, and the dispatch of the requests of the node.  The
  embedded database (crate sled) and the edge of the enclave are parameters.
\<close>

record 'kv sled =
  sl_get :: "'kv \<Rightarrow> bytes \<Rightarrow> unit + bytes option"
  sl_insert :: "'kv \<Rightarrow> bytes \<Rightarrow> bytes \<Rightarrow> (unit + unit) \<times> 'kv"
  sl_flush :: "'kv \<Rightarrow> (unit + unit) \<times> 'kv"

text \<open>
  \<open>edge_result i\<close> is the status of the \<open>i\<close>-th call into the enclave as such; when it
  is not success, the enclave was not entered.
\<close>

record ('bv, 'kv) server_env =
  sr_sgx :: "'bv sgx_env"
  sr_sled :: "'kv sled"
  edge_result :: "nat \<Rightarrow> sgx_status"
  enc_chain_info :: "chain_info \<Rightarrow> bytes"
  dec_chain_info :: "bytes \<Rightarrow> string + chain_info"

record ('bv, 'kv) server =
  sv_enclave :: "'bv enclave_state"
  sv_txdb :: 'kv
  sv_metadb :: 'kv
  sv_info :: "chain_info option"
  sv_calls :: nat

definition LAST_APP_HASH_KEY :: bytes where "LAST_APP_HASH_KEY = map of_char ''last_apphash''"
definition LAST_CHAIN_INFO_KEY :: bytes where "LAST_CHAIN_INFO_KEY = map of_char ''chain_info''"

definition server_new ::
    "('bv, 'kv) server_env \<Rightarrow> 'bv enclave_state \<Rightarrow> 'kv \<Rightarrow> 'kv \<Rightarrow> (unit + ('bv, 'kv) server) run" where
  "server_new V enclave txdb metadb = (case sl_get (sr_sled V) metadb LAST_CHAIN_INFO_KEY of
     Inl e \<Rightarrow> Done (Err ())
   | Inr s \<Rightarrow>
       run_bind (case s of None \<Rightarrow> Done None
         | Some stored \<Rightarrow> run_bind (expect (dec_chain_info V stored) ''stored chain info corrupted'') (\<lambda>i. Done (Some i))) (\<lambda>info.
       Done (Ok \<lparr>sv_enclave = enclave, sv_txdb = txdb, sv_metadb = metadb, sv_info = info, sv_calls = 0\<rparr>)))"

section \<open>Calls into the enclave\<close>

text \<open>
  A call with an encoded request and a zeroed response buffer of the given length:
  the contents of the buffer, if both statuses are success.
\<close>

definition enclave_call ::
    "('bv, 'kv) server_env \<Rightarrow> bytes \<Rightarrow> nat \<Rightarrow> ('bv, 'kv) server \<Rightarrow> (bytes option \<times> ('bv, 'kv) server) run" where
  "enclave_call V request_buf response_len s =
     (if edge_result V (sv_calls s) \<noteq> SGX_SUCCESS then Done (None, s\<lparr>sv_calls := sv_calls s + 1\<rparr>)
      else run_bind (ecall_check_tx (sr_sgx V) request_buf (of_nat response_len) (sv_enclave s))
        (\<lambda>((retval, out), e).
        Done (if retval = SGX_SUCCESS then Some (out @ replicate (response_len - length out) 0) else None,
          s\<lparr>sv_calls := sv_calls s + 1, sv_enclave := e\<rparr>)))"

definition check_initchain ::
    "('bv, 'kv) server_env \<Rightarrow> u8 \<Rightarrow> h256 option \<Rightarrow> ('bv, 'kv) server \<Rightarrow>
     (h256 option + unit) \<times> ('bv, 'kv) server" where
  "check_initchain V hex_id last_app_hash s =
     (if edge_result V (sv_calls s) = SGX_SUCCESS \<and> ecall_initchain (sr_sgx V) hex_id = SGX_SUCCESS
      then Ok () else Err last_app_hash, s\<lparr>sv_calls := sv_calls s + 1\<rparr>)"

definition end_block_call ::
    "('bv, 'kv) server_env \<Rightarrow> intra_enclave_request \<Rightarrow> ('bv, 'kv) server \<Rightarrow>
     ((unit + bytes option) \<times> ('bv, 'kv) server) run" where
  "end_block_call V request s =
     run_bind (enclave_call V (enc_intra_request (sr_sgx V) request) 260 s) (\<lambda>(response_buf, s').
     Done (case response_buf of
         None \<Rightarrow> Err ()
       | Some buf \<Rightarrow> (case dec_intra_response (sr_sgx V) buf of
           Inr (Inr (IntraEndBlockFilter maybe_filter)) \<Rightarrow> Ok maybe_filter | _ \<Rightarrow> Err ()), s'))"

definition encrypt_tx ::
    "('bv, 'kv) server_env \<Rightarrow> intra_enclave_request \<Rightarrow> ('bv, 'kv) server \<Rightarrow>
     ((error + tx_obfuscated) \<times> ('bv, 'kv) server) run" where
  "encrypt_tx V request s = (let request_buf = enc_intra_request (sr_sgx V) request in
     run_bind (enclave_call V request_buf (length request_buf) s) (\<lambda>(response_buf, s').
     Done (case response_buf of
         None \<Rightarrow> Err EnclaveRejected
       | Some buf \<Rightarrow> (case dec_intra_response (sr_sgx V) buf of
           Inr (Inr (IntraEncrypted obftx)) \<Rightarrow> Ok obftx
         | Inr (Inl e) \<Rightarrow> Err e
         | _ \<Rightarrow> Err EnclaveRejected), s')))"

definition check_tx ::
    "('bv, 'kv) server_env \<Rightarrow> verify_tx_request \<Rightarrow> sealed_log list option \<Rightarrow> ('bv, 'kv) server \<Rightarrow>
     ((error + fee \<times> staked_state option) \<times> ('bv, 'kv) server) run" where
  "check_tx V request sealed s =
     (let request_buf = enc_intra_request (sr_sgx V) (IntraValidateTx request sealed);
          E = se_ext (sg_service (sr_sgx V)) in
      run_bind (enclave_call V request_buf (sealed_data_size (sr_sgx V) + length request_buf) s)
        (\<lambda>(response_buf, s').
      case response_buf of
        None \<Rightarrow> Done (Err EnclaveRejected, s')
      | Some buf \<Rightarrow> (case dec_intra_response (sr_sgx V) buf of
          Inr (Inr (IntraTxWithOutputs paid_fee sealed_tx)) \<Rightarrow>
            (case sl_insert (sr_sled V) (sv_txdb s') (enclave_aux_tx_id E (vr_tx request)) sealed_tx of
               (Inl e, db) \<Rightarrow> Done (Err IoError, s'\<lparr>sv_txdb := db\<rparr>)
             | (Inr u, db) \<Rightarrow> Done (Ok (paid_fee, map_option withdraw (vr_account request)), s'\<lparr>sv_txdb := db\<rparr>))
        | Inr (Inr (IntraDepositStakeTx input_coins)) \<Rightarrow>
            run_bind (expect (coin_sub input_coins (to_coin (min_fee_computed (vr_info request)))) ''init'') (\<lambda>deposit_amount.
            run_bind (case (vr_account request, vr_tx request) of
                (Some a, _) \<Rightarrow> deposit deposit_amount a
              | (None, EncDepositStakeTx d p) \<Rightarrow>
                  Done (new_init_bonded deposit_amount (previous_block_time (vr_info request)) (to_staked_account d) None)
              | _ \<Rightarrow> Panic (''one shouldn'' @ [CHR 0x27] @ ''t call this with other variants'')) (\<lambda>account.
            Done (Ok (min_fee_computed (vr_info request), Some account), s')))
        | Inr (Inl e) \<Rightarrow> Done (Err e, s')
        | _ \<Rightarrow> Done (Err EnclaveRejected, s'))))"

section \<open>The server\<close>

fun lookup_txids :: "('bv, 'kv) server_env \<Rightarrow> 'kv \<Rightarrow> txid list \<Rightarrow> sealed_log list option" where
  "lookup_txids V db [] = Some []"
| "lookup_txids V db (i # is) = (case sl_get (sr_sled V) db i of
     Inr (Some txin) \<Rightarrow> map_option ((#) txin) (lookup_txids V db is)
   | _ \<Rightarrow> None)"

fun server_lookup :: "('bv, 'kv) server_env \<Rightarrow> 'kv \<Rightarrow> tx_enclave_aux \<Rightarrow> sealed_log list option" where
  "server_lookup V db (EncTransferTx ins n p) = lookup_txids V db (map txo_id ins)"
| "server_lookup V db (EncDepositStakeTx d p) = lookup_txids V db (map txo_id (dep_inputs d))"
| "server_lookup V db (EncWithdrawUnbondedStakeTx n w p) = None"

definition flush_all :: "('bv, 'kv) server_env \<Rightarrow> ('bv, 'kv) server \<Rightarrow> (unit + unit) \<times> ('bv, 'kv) server" where
  "flush_all V s = (case sl_flush (sr_sled V) (sv_txdb s) of
     (Inl e, t) \<Rightarrow> (Err (), s\<lparr>sv_txdb := t\<rparr>)
   | (Inr u, t) \<Rightarrow> (case sl_flush (sr_sled V) (sv_metadb s) of
       (r, m) \<Rightarrow> (r, s\<lparr>sv_txdb := t, sv_metadb := m\<rparr>)))"

definition server_process ::
    "('bv, 'kv) server_env \<Rightarrow> enclave_request \<Rightarrow> ('bv, 'kv) server \<Rightarrow> (enclave_response \<times> ('bv, 'kv) server) run" where
  "server_process V request s = (case request of
     CheckChain hex_id last_app_hash \<Rightarrow>
       (case sl_get (sr_sled V) (sv_metadb s) LAST_APP_HASH_KEY of
          Inl e \<Rightarrow> Done (RespCheckChain (Err None), s)
        | Inr ss \<Rightarrow>
            run_bind (assert_run (case ss of None \<Rightarrow> True | Some stored \<Rightarrow> length stored = 32) ''copy_from_slice'') (\<lambda>_.
            if last_app_hash = ss
            then (case check_initchain V hex_id ss s of (r, s') \<Rightarrow> Done (RespCheckChain r, s'))
            else Done (RespCheckChain (Err ss), s)))
   | EndBlock \<Rightarrow> run_bind (end_block_call V IntraEndBlock s) (\<lambda>(r, s'). Done (RespEndBlock r, s'))
   | CommitBlock app_hash info \<Rightarrow>
       (let m1 = snd (sl_insert (sr_sled V) (sv_metadb s) LAST_APP_HASH_KEY app_hash);
            m2 = snd (sl_insert (sr_sled V) m1 LAST_CHAIN_INFO_KEY (enc_chain_info V info)) in
        case flush_all V (s\<lparr>sv_metadb := m2\<rparr>) of
          (Inr u, s') \<Rightarrow> Done (RespCommitBlock (Ok ()), s'\<lparr>sv_info := Some info\<rparr>)
        | (Inl e, s') \<Rightarrow> Done (RespCommitBlock (Err ()), s'))
   | VerifyTx req \<Rightarrow>
       (let mtxins = server_lookup V (sv_txdb s) (vr_tx req) in
        if is_basic_valid_tx_request req mtxins (info_chain_hex_id (vr_info req)) \<noteq> Ok ()
        then Done (UnknownRequest, s)
        else run_bind (check_tx V req mtxins s) (\<lambda>(r, s'). Done (RespVerifyTx r, s')))
   | GetSealedTxData txids \<Rightarrow> Done (RespGetSealedTxData (lookup_txids V (sv_txdb s) txids), s)
   | EncryptTx req \<Rightarrow>
       (case sv_info s of
          None \<Rightarrow> Done (RespEncryptTx (Err EnclaveRejected), s)
        | Some info \<Rightarrow>
            (let ins = (case qe_tx_inputs req of
                 Some inputs \<Rightarrow> lookup_txids V (sv_txdb s) (map txo_id inputs) | None \<Rightarrow> None) in
             run_bind (encrypt_tx V (IntraEncrypt \<lparr>ie_txid = qe_txid req,
                 ie_sealed_enc_request = qe_sealed_enc_request req, ie_tx_inputs = ins, ie_info = info\<rparr>) s)
               (\<lambda>(r, s'). Done (RespEncryptTx r, s')))))"

end
