(* ===== verification/Sample_Codecs.thy ===== *)
theory Sample_Codecs
  imports Validation_Server "HOL-Library.Countable"
begin

text \<open>
  Concrete parameters for the validation service, used where a theorem is applied to
  an example.  The messages and transactions are countable, which gives an injective
  encoding of each type as a byte string that is decoded from any buffer it is a
  prefix of; two chosen messages get one-byte encodings.
\<close>

section \<open>Countable messages\<close>

instance coin :: countable by countable_datatype
instance fee :: countable by countable_datatype
instance extended_addr :: countable by countable_datatype
instance tx_access :: countable by countable_datatype
instance staked_address :: countable by countable_datatype
instance tm_pubkey :: countable by countable_datatype
instance punishment_kind :: countable by countable_datatype
instance op_witness :: countable by countable_datatype
instance error :: countable by countable_datatype
instance txo_pointer_ext :: (countable) countable
  by (rule countable_classI [of "\<lambda>r. to_nat (txo_id r, txo_index r, txo_pointer.more r)"]) (simp add: txo_pointer.equality)
instance tx_out_ext :: (countable) countable
  by (rule countable_classI [of "\<lambda>r. to_nat (out_address r, out_value r, valid_from r, tx_out.more r)"]) (simp add: tx_out.equality)
instance tx_access_policy_ext :: (countable) countable
  by (rule countable_classI [of "\<lambda>r. to_nat (view_key r, access r, tx_access_policy.more r)"]) (simp add: tx_access_policy.equality)
instance tx_attributes_ext :: (countable) countable
  by (rule countable_classI [of "\<lambda>r. to_nat (chain_hex_id r, allowed_view r, tx_attributes.more r)"]) (simp add: tx_attributes.equality)
instance tx_ext :: (countable) countable
  by (rule countable_classI [of "\<lambda>r. to_nat (tx_inputs r, tx_outputs r, tx_attrs r, tx.more r)"]) (simp add: tx.equality)
instance deposit_bond_tx_ext :: (countable) countable
  by (rule countable_classI [of "\<lambda>r. to_nat (dep_inputs r, to_staked_account r, dep_chain_hex_id r, deposit_bond_tx.more r)"]) (simp add: deposit_bond_tx.equality)
instance withdraw_unbonded_tx_ext :: (countable) countable
  by (rule countable_classI [of "\<lambda>r. to_nat (wd_nonce r, wd_outputs r, wd_attributes r, withdraw_unbonded_tx.more r)"]) (simp add: withdraw_unbonded_tx.equality)
instance tx_obfuscated_ext :: (countable) countable
  by (rule countable_classI [of "\<lambda>r. to_nat (key_from r, init_vector r, obf_payload r, obf_txid r, tx_obfuscated.more r)"]) (simp add: tx_obfuscated.equality)
instance council_node_ext :: (countable) countable
  by (rule countable_classI [of "\<lambda>r. to_nat (node_name r, security_contact r, consensus_pubkey r, council_node.more r)"]) (simp add: council_node.equality)
instance punishment_ext :: (countable) countable
  by (rule countable_classI [of "\<lambda>r. to_nat (punish_kind r, punish_jailed_until r, slash_amount r, punishment.more r)"]) (simp add: punishment.equality)
instance staked_state_ext :: (countable) countable
  by (rule countable_classI [of "\<lambda>r. to_nat (nonce r, bonded r, unbonded r, unbonded_from r, ss_address r, punishment r, council_node r, staked_state.more r)"]) (simp add: staked_state.equality)
instance chain_info_ext :: (countable) countable
  by (rule countable_classI [of "\<lambda>r. to_nat (min_fee_computed r, info_chain_hex_id r, previous_block_time r, info_unbonding_period r, chain_info.more r)"]) (simp add: chain_info.equality)
instance side :: countable by countable_datatype
instance path_node_ext :: (countable) countable
  by (rule countable_classI [of "\<lambda>r. to_nat (node_hash r, child_hash r, hash_side r, path_node.more r)"])
    (simp add: path_node.equality)
instance path_ext :: (countable) countable
  by (rule countable_classI [of "\<lambda>r. to_nat (leaf_hash r, nodes r, path.more r)"]) (simp add: path.equality)
instance proof_of_ext :: (countable, countable) countable
  by (rule countable_classI [of "\<lambda>r. to_nat (proof_path r, proof_value r, proof_of.more r)"])
    (simp add: proof_of.equality)
instance tx_in_witness :: countable by countable_datatype
instance plain_tx_aux :: countable by countable_datatype
instance tx_with_outputs :: countable by countable_datatype
instance tx_enclave_aux :: countable by countable_datatype
instance verify_tx_request_ext :: (countable) countable
  by (rule countable_classI [of "\<lambda>r. to_nat (vr_tx r, vr_account r, vr_info r, verify_tx_request.more r)"]) (simp add: verify_tx_request.equality)
instance intra_encrypt_request_ext :: (countable) countable
  by (rule countable_classI [of "\<lambda>r. to_nat (ie_txid r, ie_sealed_enc_request r, ie_tx_inputs r, ie_info r, intra_encrypt_request.more r)"]) (simp add: intra_encrypt_request.equality)
instance intra_enclave_request :: countable by countable_datatype
instance intra_enclave_response_ok :: countable by countable_datatype

section \<open>Encodings\<close>

lemma takeWhile_ones: "takeWhile ((=) 1) (replicate n 1 @ ys) = replicate n 1 @ takeWhile ((=) 1) ys"
  by (induction n) simp_all

definition cnt_encode :: "'a::countable \<Rightarrow> 'a \<Rightarrow> 'a \<Rightarrow> bytes" where
  "cnt_encode a b x = (if x = a then [1] else if x = b then [2] else 3 # replicate (to_nat x) 1)"

definition cnt_decode :: "'a::countable \<Rightarrow> 'a \<Rightarrow> bytes \<Rightarrow> string + 'a" where
  "cnt_decode a b bs = (case bs of
     [] \<Rightarrow> Err ''empty''
   | y # ys \<Rightarrow> if y = 1 then Ok a else if y = 2 then Ok b else Ok (from_nat (length (takeWhile ((=) 1) ys))))"

lemma cnt_decode_encode [simp]: "cnt_decode a b (cnt_encode a b x @ replicate k 0) = Ok x"
proof -
  have "takeWhile ((=) 1) (replicate k 0) = ([] :: bytes)" by (cases k) simp_all
  then show ?thesis by (simp add: cnt_encode_def cnt_decode_def takeWhile_ones)
qed

lemma cnt_decode_encode_exact [simp]: "cnt_decode a b (cnt_encode a b x) = Ok x"
  using cnt_decode_encode [of a b x 0] by simp

definition pair_seal :: "bytes \<Rightarrow> bytes \<Rightarrow> sgx_status + bytes" where
  "pair_seal i m = (if 2 * length i + length m < 4294967294 then Ok (replicate (length i) 1 @ [0] @ i @ m)
     else Err (SGX_ERROR 1))"

definition pair_unseal :: "bytes \<Rightarrow> (bytes \<times> bytes) option" where
  "pair_unseal b = (let n = length (takeWhile ((=) 1) b); rest = drop (n + 1) b in Some (take n rest, drop n rest))"

lemma pair_unseal_seal: "pair_seal i m = Ok b \<Longrightarrow> pair_unseal b = Some (i, m) \<and> length b < 4294967295"
proof -
  assume "pair_seal i m = Ok b"
  then have b: "b = replicate (length i) 1 @ [0] @ i @ m" and "2 * length i + length m < 4294967294"
    by (auto simp: pair_seal_def split: if_splits)
  moreover have "takeWhile ((=) 1) b = replicate (length i) 1" by (simp add: b takeWhile_ones)
  ultimately show ?thesis by (simp add: pair_unseal_def Let_def)
qed

section \<open>A concrete server\<close>

definition map_sled :: "(bytes \<Rightarrow> bytes option) sled" where
  "map_sled = \<lparr>sl_get = (\<lambda>db k. Ok (db k)), sl_insert = (\<lambda>db k v. (Ok (), db(k \<mapsto> v))),
     sl_flush = (\<lambda>db. (Ok (), db))\<rparr>"

definition sample_payload :: tx_obfuscated where
  "sample_payload = \<lparr>key_from = - 1, init_vector = [0], obf_payload = [1], obf_txid = tx_id sample_ext sample_tx\<rparr>"

definition sample_request :: verify_tx_request where
  "sample_request = \<lparr>vr_tx = EncTransferTx (tx_inputs sample_tx) 1 sample_payload, vr_account = None,
     vr_info = sample_info\<rparr>"

definition sample_sealed :: "tx \<Rightarrow> bytes" where
  "sample_sealed t = replicate (length (tx_id sample_ext t)) 1 @ [0] @ tx_id sample_ext t @
     cnt_encode (Transfer sample_tx) (Transfer sample_prev_tx) (Transfer t)"

definition sample_intra_request :: intra_enclave_request where
  "sample_intra_request = IntraValidateTx sample_request (Some [sample_sealed sample_prev_tx])"

definition sample_intra_response :: intra_enclave_response where
  "sample_intra_response = Ok (IntraTxWithOutputs (Fee (Coin 3)) (sample_sealed sample_tx))"

definition sample_encrypted :: intra_enclave_response where
  "sample_encrypted = Ok (IntraEncrypted sample_payload)"

definition sample_plain :: plain_tx_aux where
  "sample_plain = PlainTransferTx sample_tx [sample_in_witness]"

definition sample_sgx :: "bool list sgx_env" where
  "sample_sgx = \<lparr>
     sg_service = \<lparr>se_ext = sample_ext, se_bv = list_bitvec, dec_plain_tx_aux = cnt_decode sample_plain sample_plain,
       pk_serialize = (\<lambda>k. k)\<rparr>,
     sgx_seal = pair_seal, sgx_unseal = pair_unseal, sgx_rand = (\<lambda>i. [0]),
     aead_encrypt = (\<lambda>iv m ad. Some m), aead_decrypt = (\<lambda>iv m ad. Some m),
     enc_plain_tx_aux = cnt_encode sample_plain sample_plain,
     enc_with_outputs = cnt_encode (Transfer sample_tx) (Transfer sample_prev_tx),
     dec_with_outputs = cnt_decode (Transfer sample_tx) (Transfer sample_prev_tx),
     dec_encryption_request = (\<lambda>b. Ok (EncryptTransferTx sample_tx [sample_in_witness])),
     enc_intra_request = cnt_encode sample_intra_request sample_intra_request,
     dec_intra_request = cnt_decode sample_intra_request sample_intra_request,
     enc_intra_response = cnt_encode sample_intra_response sample_encrypted,
     dec_intra_response = cnt_decode sample_intra_response sample_encrypted,
     sealed_data_size = 100, NETWORK_HEX_ID = 1\<rparr>"

definition sample_server_env :: "(bool list, bytes \<Rightarrow> bytes option) server_env" where
  "sample_server_env = \<lparr>sr_sgx = sample_sgx, sr_sled = map_sled, edge_result = (\<lambda>i. SGX_SUCCESS),
     enc_chain_info = cnt_encode sample_info sample_info, dec_chain_info = cnt_decode sample_info sample_info\<rparr>"

definition sample_server :: "(bool list, bytes \<Rightarrow> bytes option) server" where
  "sample_server = \<lparr>sv_enclave = \<lparr>en_filter = filter_default list_bitvec, en_draws = 0\<rparr>,
     sv_txdb = [tx_id sample_ext sample_prev_tx \<mapsto> sample_sealed sample_prev_tx], sv_metadb = Map.empty,
     sv_info = Some sample_info, sv_calls = 0\<rparr>"

lemma sample_sgx_simps [simp]:
  "se_ext (sg_service sample_sgx) = sample_ext" "se_bv (sg_service sample_sgx) = list_bitvec"
  "dec_plain_tx_aux (sg_service sample_sgx) = cnt_decode sample_plain sample_plain"
  "sgx_seal sample_sgx = pair_seal" "sgx_unseal sample_sgx = pair_unseal"
  "aead_encrypt sample_sgx iv m ad = Some m" "aead_decrypt sample_sgx iv m ad = Some m"
  "enc_plain_tx_aux sample_sgx = cnt_encode sample_plain sample_plain"
  "enc_with_outputs sample_sgx = cnt_encode (Transfer sample_tx) (Transfer sample_prev_tx)"
  "dec_with_outputs sample_sgx = cnt_decode (Transfer sample_tx) (Transfer sample_prev_tx)"
  "enc_intra_request sample_sgx = cnt_encode sample_intra_request sample_intra_request"
  "dec_intra_request sample_sgx = cnt_decode sample_intra_request sample_intra_request"
  "enc_intra_response sample_sgx = cnt_encode sample_intra_response sample_encrypted"
  "dec_intra_response sample_sgx = cnt_decode sample_intra_response sample_encrypted"
  "sealed_data_size sample_sgx = 100" "NETWORK_HEX_ID sample_sgx = 1" "sgx_rand sample_sgx i = [0]"
  "dec_encryption_request sample_sgx b = Ok (EncryptTransferTx sample_tx [sample_in_witness])"
  by (simp_all add: sample_sgx_def)

lemma sample_server_simps [simp]:
  "sr_sgx sample_server_env = sample_sgx" "sr_sled sample_server_env = map_sled"
  "edge_result sample_server_env i = SGX_SUCCESS"
  by (simp_all add: sample_server_env_def)

lemma map_sled_simps [simp]:
  "sl_get map_sled db k = Ok (db k)" "sl_insert map_sled db k v = (Ok (), db(k \<mapsto> v))"
  "sl_flush map_sled db = (Ok (), db)"
  by (simp_all add: map_sled_def)

end
