(* ===== verification/Service_Refinement.thy ===== *)
theory Service_Refinement
  imports Sample_Codecs
begin

text \<open>
  What the validation server promises to the node.  The laws of the third-party
  parts (sealing, codecs, the embedded database) are collected in \<open>sgx_laws\<close> and
  \<open>sled_laws\<close>.  The database of sealed blobs stands for a map from transaction ids
  to transactions, and the server with the enclave behind it is a simulation of an
  ideal service that keeps this map in the clear and calls the validation functions
  of chain-tx-validation directly.  The locale \<open>validation_service\<close> is the contract;
  what follows from it for every sequence of requests is proved inside, and it is
  interpreted on the server.
\<close>

section \<open>Laws of the parameters\<close>

definition sgx_laws :: "'bv sgx_env \<Rightarrow> bool" where
  "sgx_laws G \<longleftrightarrow>
     (\<forall>i m b. sgx_seal G i m = Ok b \<longrightarrow> sgx_unseal G b = Some (i, m) \<and> length b < 4294967295) \<and>
     (\<forall>i m. sgx_seal G i m \<noteq> Err SGX_SUCCESS) \<and>
     (\<forall>t. dec_with_outputs G (enc_with_outputs G t) = Ok t) \<and>
     (\<forall>r. dec_intra_request G (enc_intra_request G r) = Ok r) \<and>
     (\<forall>r k. dec_intra_response G (enc_intra_response G r @ replicate k 0) = Ok r)"

definition sled_laws :: "'kv sled \<Rightarrow> bool" where
  "sled_laws L \<longleftrightarrow>
     (\<forall>db k v db'. sl_insert L db k v = (Ok (), db') \<longrightarrow>
        sl_get L db' = (sl_get L db)(k := Ok (Some v))) \<and>
     (\<forall>db k v db'. sl_insert L db k v = (Err (), db') \<longrightarrow> sl_get L db' = sl_get L db) \<and>
     (\<forall>db r db'. sl_flush L db = (r, db') \<longrightarrow> sl_get L db' = sl_get L db)"

definition server_laws :: "('bv, 'kv) server_env \<Rightarrow> bool" where
  "server_laws V \<longleftrightarrow> sgx_laws (sr_sgx V) \<and> sled_laws (sr_sled V)"

section \<open>The ideal service\<close>

type_synonym tx_map = "txid \<Rightarrow> tx_with_outputs option"

text \<open>The transaction a sealed blob stands for under an id, as \<open>check_unseal\<close> reads it.\<close>

definition sealed_tx :: "'bv sgx_env \<Rightarrow> txid \<Rightarrow> sealed_log \<Rightarrow> tx_with_outputs option" where
  "sealed_tx G i log = (if length log \<ge> 4294967295 then None
     else (case sgx_unseal G log of
       None \<Rightarrow> None
     | Some (additional, text) \<Rightarrow> if additional \<noteq> i then None
         else (case dec_with_outputs G text of Inl e \<Rightarrow> None | Inr t \<Rightarrow> Some t)))"

definition stored_txs :: "('bv, 'kv) server_env \<Rightarrow> 'kv \<Rightarrow> tx_map" where
  "stored_txs V db i = (case sl_get (sr_sled V) db i of
     Inr (Some log) \<Rightarrow> sealed_tx (sr_sgx V) i log | _ \<Rightarrow> None)"

text \<open>
  \<open>ideal_accepts E dec m r answer m'\<close>: with the transactions \<open>m\<close>, the request \<open>r\<close> is
  accepted with the answer, and \<open>m'\<close> are the transactions afterwards.
\<close>

inductive ideal_accepts ::
    "ext \<Rightarrow> (tx_obfuscated \<Rightarrow> unit + plain_tx_aux) \<Rightarrow> tx_map \<Rightarrow> verify_tx_request \<Rightarrow>
     fee \<times> staked_state option \<Rightarrow> tx_map \<Rightarrow> bool"
  for E dec m r where
  accept_transfer:
    "\<lbrakk> vr_tx r = EncTransferTx ins n p; dec p = Ok (PlainTransferTx t w); tx_id E t = obf_txid p;
       of_nat (length (tx_outputs t)) = n; those (map (m \<circ> txo_id) ins) = Some ts;
       verify_transfer E t w (vr_info r) ts = Done (Ok f) \<rbrakk> \<Longrightarrow>
     ideal_accepts E dec m r (f, map_option withdraw (vr_account r)) (m(tx_id E t \<mapsto> Transfer t))"
| accept_deposit:
    "\<lbrakk> vr_tx r = EncDepositStakeTx d p; dec p = Ok (PlainDepositStakeTx w);
       those (map (m \<circ> txo_id) (dep_inputs d)) = Some ts;
       verify_bonded_deposit_core E d w (vr_info r) ts = Ok c;
       coin_sub c (to_coin (min_fee_computed (vr_info r))) = Ok amount;
       (case vr_account r of
          Some a \<Rightarrow> deposit amount a
        | None \<Rightarrow> Done (new_init_bonded amount (previous_block_time (vr_info r)) (to_staked_account d) None)) = Done a' \<rbrakk> \<Longrightarrow>
     ideal_accepts E dec m r (min_fee_computed (vr_info r), Some a') m"
| accept_withdraw:
    "\<lbrakk> vr_tx r = EncWithdrawUnbondedStakeTx n w p; dec p = Ok (PlainWithdrawUnbondedStakeTx t);
       withdraw_id E t = obf_txid p; n = of_nat (length (wd_outputs t)); vr_account r = Some a;
       verify_tx_recover_address E w (obf_txid p) = Ok (ss_address a);
       verify_unbonded_withdraw_core t (vr_info r) a = Done (Ok f) \<rbrakk> \<Longrightarrow>
     ideal_accepts E dec m r (f, Some (withdraw a)) (m(withdraw_id E t \<mapsto> StakeWithdraw t))"

inductive_cases ideal_acceptsE: "ideal_accepts E dec m r answer m'"

section \<open>Reading the database\<close>

lemma unseal_loop_sealed:
  "unseal_loop G None False xs = those (map (\<lambda>(i, log). sealed_tx G i log) xs)"
proof (induction xs)
  case (Cons x xs)
  obtain i log where x: "x = (i, log)" by (cases x)
  show ?case
    by (simp add: x Cons.IH sealed_tx_def is_allowed_view_def split: option.splits sum.splits)
qed simp

lemma check_unseal_sealed:
  "check_unseal G None False ids logs = those (map2 (sealed_tx G) ids logs)"
  by (simp add: check_unseal_def unseal_loop_sealed del: unseal_loop.simps)

lemma lookup_unseal:
  "lookup_txids V db ids = Some logs \<Longrightarrow>
   check_unseal (sr_sgx V) None False ids logs = those (map (stored_txs V db) ids)"
  unfolding check_unseal_sealed
proof (induction ids arbitrary: logs)
  case (Cons i ids)
  then obtain log rest where *: "sl_get (sr_sled V) db i = Ok (Some log)"
      "lookup_txids V db ids = Some rest" "logs = log # rest"
    by (auto split: sum.splits option.splits)
  then have "stored_txs V db i = sealed_tx (sr_sgx V) i log" by (simp add: stored_txs_def)
  with * show ?case using Cons.IH [of rest] by (simp split: option.split)
qed simp

lemma sgx_lawsD:
  assumes "sgx_laws G"
  shows "sgx_seal G i m = Ok b \<Longrightarrow> sgx_unseal G b = Some (i, m)"
    and "sgx_seal G i m = Ok b \<Longrightarrow> length b < 4294967295"
    and "sgx_seal G i m \<noteq> Err SGX_SUCCESS"
    and "dec_with_outputs G (enc_with_outputs G t) = Ok t"
    and "dec_intra_request G (enc_intra_request G q) = Ok q"
    and "dec_intra_response G (enc_intra_response G a @ replicate k 0) = Ok a"
  using assms unfolding sgx_laws_def by blast+

lemma sled_lawsD:
  assumes "sled_laws L"
  shows "sl_insert L db k v = (Ok (), db') \<Longrightarrow> sl_get L db' = (sl_get L db)(k := Ok (Some v))"
    and "sl_insert L db k v = (Err (), db') \<Longrightarrow> sl_get L db' = sl_get L db"
    and "sl_flush L db = (r, db') \<Longrightarrow> sl_get L db' = sl_get L db"
  using assms unfolding sled_laws_def by blast+

lemma sealed_tx_seal:
  "sgx_laws G \<Longrightarrow> sgx_seal G i (enc_with_outputs G t) = Ok log \<Longrightarrow> sealed_tx G i log = Some t"
  using sgx_lawsD(1,2) [of G i "enc_with_outputs G t" log] sgx_lawsD(4) [of G t] by (simp add: sealed_tx_def)

lemma stored_txs_insert:
  assumes "server_laws V" "sl_insert (sr_sled V) db i log = (Ok (), db')"
    and "sgx_seal (sr_sgx V) i (enc_with_outputs (sr_sgx V) t) = Ok log"
  shows "stored_txs V db' = (stored_txs V db)(i \<mapsto> t)"
proof -
  have "sealed_tx (sr_sgx V) i log = Some t"
    using assms by (simp add: server_laws_def sealed_tx_seal)
  moreover have "sl_get (sr_sled V) db' = (sl_get (sr_sled V) db)(i := Ok (Some log))"
    using assms(1,2) by (simp add: server_laws_def sled_lawsD(1))
  ultimately show ?thesis by (auto simp: stored_txs_def)
qed

lemma stored_txs_cong: "sl_get (sr_sled V) db' = sl_get (sr_sled V) db \<Longrightarrow> stored_txs V db' = stored_txs V db"
  by (rule ext) (simp add: stored_txs_def)

section \<open>What the enclave answers\<close>

text \<open>The answers the enclave can give to a validation request, in terms of the unsealed inputs.\<close>

inductive enclave_says ::
    "'bv sgx_env \<Rightarrow> verify_tx_request \<Rightarrow> sealed_log list option \<Rightarrow> intra_enclave_response \<Rightarrow> bool"
  for G r where
  say_transfer:
    "\<lbrakk> vr_tx r = EncTransferTx ins n p; decrypt G p = Ok (PlainTransferTx t w);
       tx_id (se_ext (sg_service G)) t = obf_txid p; of_nat (length (tx_outputs t)) = n;
       check_unseal G None False (map txo_id ins) logs = Some ts;
       verify_transfer (se_ext (sg_service G)) t w (vr_info r) ts = Done (Ok f);
       sgx_seal G (obf_txid p) (enc_with_outputs G (Transfer t)) = Ok log \<rbrakk> \<Longrightarrow>
     enclave_says G r (Some logs) (Ok (IntraTxWithOutputs f log))"
| say_deposit:
    "\<lbrakk> vr_tx r = EncDepositStakeTx d p; decrypt G p = Ok (PlainDepositStakeTx w);
       check_unseal G None False (map txo_id (dep_inputs d)) logs = Some ts;
       verify_bonded_deposit_core (se_ext (sg_service G)) d w (vr_info r) ts = Ok c \<rbrakk> \<Longrightarrow>
     enclave_says G r (Some logs) (Ok (IntraDepositStakeTx c))"
| say_withdraw:
    "\<lbrakk> vr_tx r = EncWithdrawUnbondedStakeTx n w p; decrypt G p = Ok (PlainWithdrawUnbondedStakeTx t);
       withdraw_id (se_ext (sg_service G)) t = obf_txid p; n = of_nat (length (wd_outputs t)); vr_account r = Some a;
       verify_tx_recover_address (se_ext (sg_service G)) w (obf_txid p) = Ok (ss_address a);
       verify_unbonded_withdraw_core t (vr_info r) a = Done (Ok f);
       sgx_seal G (obf_txid p) (enc_with_outputs G (StakeWithdraw t)) = Ok log \<rbrakk> \<Longrightarrow>
     enclave_says G r None (Ok (IntraTxWithOutputs f log))"
| say_error: "enclave_says G r logs (Err e)"

lemma ecall_reject_not_success [simp]: "ecall_reject s \<noteq> Done ((SGX_SUCCESS, out), s')"
  by (simp add: ecall_reject_def)

lemma write_back_success:
  "write_back_response G response len = (SGX_SUCCESS, out) \<Longrightarrow> response \<noteq> Err SGX_SUCCESS \<Longrightarrow>
   \<exists>a. response = Ok a \<and> out = enc_intra_response G a"
  by (cases response) (auto simp: write_back_response_def Let_def split: if_splits)

lemma sealed_response_success:
  assumes "sgx_laws G"
    and "run_bind (construct_sealed_response G result i t s) (\<lambda>(response, s').
      Done (write_back_response G response len, s')) = Done ((SGX_SUCCESS, out), s1)"
  shows "(\<exists>e. out = enc_intra_response G (Err e)) \<or>
    (\<exists>f log. result = Ok f \<and> sgx_seal G i (enc_with_outputs G t) = Ok log \<and>
       out = enc_intra_response G (Ok (IntraTxWithOutputs f log)))"
proof (cases result)
  case (Inl e)
  then show ?thesis using assms(2) write_back_success [of G "Ok (Err e)" len out]
    by (auto simp: construct_sealed_response_def)
next
  case (Inr f)
  show ?thesis
  proof (cases "sgx_seal G i (enc_with_outputs G t)")
    case (Inl e)
    then show ?thesis using assms(2) Inr sgx_lawsD(3) [OF assms(1), of i "enc_with_outputs G t"]
        write_back_success [of G "Err e" len out]
      by (auto simp: construct_sealed_response_def)
  next
    case (Inr log)
    then show ?thesis using assms(2) \<open>result = Ok f\<close>
        write_back_success [of G "Ok (Ok (IntraTxWithOutputs f log))" len out]
      by (auto simp: construct_sealed_response_def run_bind_eq_Done)
  qed
qed

lemma validate_transfer_success:
  assumes "sgx_laws G" "vr_tx r = EncTransferTx ins n p"
    and "handle_validate_tx G r sealed len s = Done ((SGX_SUCCESS, out), s')"
  shows "\<exists>a. out = enc_intra_response G a \<and> enclave_says G r sealed a"
proof -
  obtain logs where logs: "sealed = Some logs"
    using assms(2,3) by (cases sealed) (auto simp: handle_validate_tx_def Let_def split: if_splits)
  note unfold = assms(3) [unfolded handle_validate_tx_def Let_def assms(2) logs prod.case option.case tx_enclave_aux.case]
  obtain t w where plain: "decrypt G p = Ok (PlainTransferTx t w)"
    using unfold by (auto split: if_splits sum.splits plain_tx_aux.splits)
  obtain ts where ts: "check_unseal G None False (map txo_id ins) logs = Some ts"
    using unfold by (auto simp: plain split: if_splits option.splits)
  obtain result where ids: "tx_id (se_ext (sg_service G)) t = obf_txid p" "of_nat (length (tx_outputs t)) = n"
    and result: "verify_transfer (se_ext (sg_service G)) t w (vr_info r) ts = Done result"
    and wb: "run_bind (construct_sealed_response G result (obf_txid p) (Transfer t) s) (\<lambda>(response, s').
      Done (write_back_response G response len, s')) = Done ((SGX_SUCCESS, out), s')"
    using unfold by (simp add: plain ts run_bind_eq_Done [where m = "verify_transfer _ _ _ _ _"] split: if_splits) blast
  from sealed_response_success [OF assms(1) wb] show ?thesis
    using say_transfer [OF assms(2) plain ids ts] result say_error [of G r sealed] by (auto simp: logs)
qed

lemma validate_deposit_success:
  assumes "vr_tx r = EncDepositStakeTx d p"
    and "handle_validate_tx G r sealed len s = Done ((SGX_SUCCESS, out), s')"
  shows "\<exists>a. out = enc_intra_response G a \<and> enclave_says G r sealed a"
proof -
  obtain logs where logs: "sealed = Some logs"
    using assms by (cases sealed) (auto simp: handle_validate_tx_def Let_def split: if_splits)
  note unfold = assms(2) [unfolded handle_validate_tx_def Let_def assms(1) logs prod.case option.case tx_enclave_aux.case]
  obtain w where plain: "decrypt G p = Ok (PlainDepositStakeTx w)"
    using unfold by (auto split: if_splits sum.splits plain_tx_aux.splits)
  obtain ts where ts: "check_unseal G None False (map txo_id (dep_inputs d)) logs = Some ts"
    using unfold by (auto simp: plain split: if_splits option.splits)
  define result where "result = verify_bonded_deposit_core (se_ext (sg_service G)) d w (vr_info r) ts"
  have "write_back_response G (construct_simple_response result) len = (SGX_SUCCESS, out)"
    using unfold by (simp add: plain ts result_def split: if_splits)
  then have "\<exists>a. construct_simple_response result = Ok a \<and> out = enc_intra_response G a"
    by (rule write_back_success) (simp add: construct_simple_response_def split: sum.splits)
  then show ?thesis
    using say_deposit [OF assms(1) plain ts] say_error [of G r sealed]
    by (cases result) (auto simp: logs construct_simple_response_def result_def)
qed

lemma validate_withdraw_success:
  assumes "sgx_laws G" "vr_tx r = EncWithdrawUnbondedStakeTx n w p"
    and "handle_validate_tx G r sealed len s = Done ((SGX_SUCCESS, out), s')"
  shows "\<exists>a. out = enc_intra_response G a \<and> enclave_says G r sealed a"
proof -
  have none: "sealed = None"
    using assms(2,3) by (cases sealed) (auto simp: handle_validate_tx_def Let_def split: if_splits)
  note unfold = assms(3) [unfolded handle_validate_tx_def Let_def assms(2) none prod.case option.case tx_enclave_aux.case]
  obtain address where address: "verify_tx_recover_address (se_ext (sg_service G)) w (obf_txid p) = Ok address"
    using unfold by (auto split: if_splits sum.splits)
  obtain t where plain: "decrypt G p = Ok (PlainWithdrawUnbondedStakeTx t)"
    using unfold by (auto simp: address split: if_splits sum.splits plain_tx_aux.splits)
  obtain a where account: "vr_account r = Some a"
    using unfold by (auto simp: address plain split: if_splits option.splits)
  obtain result where ids: "withdraw_id (se_ext (sg_service G)) t = obf_txid p" "n = of_nat (length (wd_outputs t))"
      "address = ss_address a"
    and result: "verify_unbonded_withdraw_core t (vr_info r) a = Done result"
    and wb: "run_bind (construct_sealed_response G result (obf_txid p) (StakeWithdraw t) s) (\<lambda>(response, s').
      Done (write_back_response G response len, s')) = Done ((SGX_SUCCESS, out), s')"
    using unfold by (simp add: plain address account run_bind_eq_Done [where m = "verify_unbonded_withdraw_core _ _ _"]
      split: if_splits) blast
  from sealed_response_success [OF assms(1) wb] show ?thesis
    using say_withdraw [OF assms(2) plain ids(1,2) account] address ids(3) result say_error [of G r sealed]
    by (auto simp: none)
qed

lemma validate_success:
  assumes "sgx_laws G" "handle_validate_tx G r sealed len s = Done ((SGX_SUCCESS, out), s')"
  shows "\<exists>a. out = enc_intra_response G a \<and> enclave_says G r sealed a"
proof (cases "vr_tx r")
  case (EncTransferTx ins n p)
  then show ?thesis using assms by (intro validate_transfer_success)
next
  case (EncDepositStakeTx d p)
  then show ?thesis using assms by (intro validate_deposit_success)
next
  case (EncWithdrawUnbondedStakeTx n w p)
  then show ?thesis using assms by (intro validate_withdraw_success)
qed

section \<open>The server simulates the ideal service\<close>

lemma enclave_call_Some:
  assumes "enclave_call V buf len s = Done (Some resp, s')"
  shows "\<exists>out e. ecall_check_tx (sr_sgx V) buf (of_nat len) (sv_enclave s) = Done ((SGX_SUCCESS, out), e) \<and>
    resp = out @ replicate (len - length out) 0 \<and> s' = s\<lparr>sv_calls := sv_calls s + 1, sv_enclave := e\<rparr>"
  using assms by (auto simp: enclave_call_def run_bind_eq_Done split: if_splits)

lemma enclave_call_txdb: "enclave_call V buf len s = Done (r, s') \<Longrightarrow> sv_txdb s' = sv_txdb s"
  by (auto simp: enclave_call_def run_bind_eq_Done split: if_splits)

text \<open>The answer the server decodes is the answer of the enclave.\<close>

lemma validate_call:
  assumes "sgx_laws (sr_sgx V)"
    and "enclave_call V (enc_intra_request (sr_sgx V) (IntraValidateTx r sealed)) len s = Done (Some resp, s')"
    and "dec_intra_response (sr_sgx V) resp = Ok a"
  shows "enclave_says (sr_sgx V) r sealed a"
proof -
  obtain out e where call: "ecall_check_tx (sr_sgx V) (enc_intra_request (sr_sgx V) (IntraValidateTx r sealed))
      (of_nat len) (sv_enclave s) = Done ((SGX_SUCCESS, out), e)" "resp = out @ replicate (len - length out) 0"
    using enclave_call_Some [OF assms(2)] by blast
  then have "handle_validate_tx (sr_sgx V) r sealed (of_nat len) (sv_enclave s) = Done ((SGX_SUCCESS, out), e)"
    by (simp add: ecall_check_tx_def sgx_lawsD(5) [OF assms(1)])
  then obtain a' where "out = enc_intra_response (sr_sgx V) a'" "enclave_says (sr_sgx V) r sealed a'"
    using validate_success [OF assms(1)] by blast
  then show ?thesis using assms(3) by (simp add: call(2) sgx_lawsD(6) [OF assms(1)])
qed

text \<open>What \<open>check_tx\<close> makes of an answer of the enclave.\<close>

lemma check_tx_cases:
  assumes "check_tx V r sealed s = Done (res, s')"
  obtains (error) e where "res = Err e" "sv_txdb s' = sv_txdb s"
  | (io) log i where "res = Err IoError" "sl_insert (sr_sled V) (sv_txdb s) i log = (Err (), sv_txdb s')"
  | (outputs) s1 buf len f log where
      "enclave_call V (enc_intra_request (sr_sgx V) (IntraValidateTx r sealed)) len s = Done (Some buf, s1)"
      "dec_intra_response (sr_sgx V) buf = Ok (Ok (IntraTxWithOutputs f log))"
      "sl_insert (sr_sled V) (sv_txdb s) (enclave_aux_tx_id (se_ext (sg_service (sr_sgx V))) (vr_tx r)) log =
         (Ok (), sv_txdb s')"
      "res = Ok (f, map_option withdraw (vr_account r))"
  | (stake) s1 buf len c amount a where
      "enclave_call V (enc_intra_request (sr_sgx V) (IntraValidateTx r sealed)) len s = Done (Some buf, s1)"
      "dec_intra_response (sr_sgx V) buf = Ok (Ok (IntraDepositStakeTx c))" "sv_txdb s' = sv_txdb s"
      "coin_sub c (to_coin (min_fee_computed (vr_info r))) = Ok amount"
      "(case (vr_account r, vr_tx r) of (Some a, _) \<Rightarrow> deposit amount a
        | (None, EncDepositStakeTx d p) \<Rightarrow>
            Done (new_init_bonded amount (previous_block_time (vr_info r)) (to_staked_account d) None)
        | _ \<Rightarrow> Panic (''one shouldn'' @ [CHR 0x27] @ ''t call this with other variants'')) = Done a"
      "res = Ok (min_fee_computed (vr_info r), Some a)"
proof -
  define q where "q = enc_intra_request (sr_sgx V) (IntraValidateTx r sealed)"
  define len where "len = sealed_data_size (sr_sgx V) + length q"
  define account where "account amount = (case (vr_account r, vr_tx r) of (Some a, _) \<Rightarrow> deposit amount a
        | (None, EncDepositStakeTx d p) \<Rightarrow>
            Done (new_init_bonded amount (previous_block_time (vr_info r)) (to_staked_account d) None)
        | _ \<Rightarrow> Panic (''one shouldn'' @ [CHR 0x27] @ ''t call this with other variants''))" for amount
  note unfold = assms [unfolded check_tx_def Let_def, folded q_def, folded len_def account_def]
  obtain response s1 where call: "enclave_call V q len s = Done (response, s1)"
    using unfold by (cases "enclave_call V q len s") auto
  have db: "sv_txdb s1 = sv_txdb s" using enclave_call_txdb [OF call] .
  show ?thesis
  proof (cases response)
    case None
    with unfold call db show ?thesis by (intro error) auto
  next
    case (Some buf)
    note call' = call [unfolded Some]
    show ?thesis
    proof (cases "dec_intra_response (sr_sgx V) buf")
      case (Inl e)
      with unfold call' db show ?thesis by (intro error) auto
    next
      case (Inr a)
      show ?thesis
      proof (cases a)
        case (Inl e)
        with unfold call' db \<open>dec_intra_response (sr_sgx V) buf = Ok a\<close> show ?thesis by (intro error) auto
      next
        case (Inr ok)
        note dec = \<open>dec_intra_response (sr_sgx V) buf = Ok a\<close> [unfolded Inr]
        show ?thesis
        proof (cases ok)
          case (IntraTxWithOutputs f log)
          obtain ins db' where ins: "sl_insert (sr_sled V) (sv_txdb s)
              (enclave_aux_tx_id (se_ext (sg_service (sr_sgx V))) (vr_tx r)) log = (ins, db')" by force
          show ?thesis
          proof (cases ins)
            case (Inl u)
            with unfold call' dec ins db IntraTxWithOutputs show ?thesis by (intro io) auto
          next
            case (Inr u)
            with unfold call' dec ins db IntraTxWithOutputs show ?thesis
              by (intro outputs [of len buf s1 f log]) (auto simp: q_def)
          qed
        next
          case (IntraDepositStakeTx c)
          with unfold call' dec db obtain amount acc where
            "coin_sub c (to_coin (min_fee_computed (vr_info r))) = Ok amount" "account amount = Done acc"
            "res = Ok (min_fee_computed (vr_info r), Some acc)" "s' = s1"
            by (auto simp: run_elims)
          with call' dec db IntraDepositStakeTx show ?thesis
            by (intro stake [of len buf s1 c amount acc]) (auto simp: q_def account_def)
        next
          case (IntraEndBlockFilter x)
          with unfold call' dec db show ?thesis by (intro error) auto
        next
          case (IntraEncrypted x)
          with unfold call' dec db show ?thesis by (intro error) auto
        qed
      qed
    qed
  qed
qed

abbreviation server_ext :: "('bv, 'kv) server_env \<Rightarrow> ext" where
  "server_ext V \<equiv> se_ext (sg_service (sr_sgx V))"

abbreviation server_store :: "('bv, 'kv) server_env \<Rightarrow> ('bv, 'kv) server \<Rightarrow> tx_map" where
  "server_store V s \<equiv> stored_txs V (sv_txdb s)"

lemma verify_outputs_simulates:
  assumes "server_laws V" "enclave_says (sr_sgx V) r (server_lookup V (sv_txdb s) (vr_tx r)) (Ok (IntraTxWithOutputs f log))"
    and ins: "sl_insert (sr_sled V) (sv_txdb s) (enclave_aux_tx_id (server_ext V) (vr_tx r)) log = (Ok (), sv_txdb s')"
  shows "ideal_accepts (server_ext V) (decrypt (sr_sgx V)) (server_store V s) r
    (f, map_option withdraw (vr_account r)) (server_store V s')"
  using assms(2)
proof cases
  case (say_transfer ptrs n p t w logs ts)
  have "server_store V s' = (server_store V s)(tx_id (server_ext V) t \<mapsto> Transfer t)"
    using stored_txs_insert [OF assms(1) ins] say_transfer by simp
  moreover have "those (map (server_store V s \<circ> txo_id) ptrs) = Some ts"
    using lookup_unseal [of V "sv_txdb s" "map txo_id ptrs" logs] say_transfer by simp
  ultimately show ?thesis
    using accept_transfer [where dec = "decrypt (sr_sgx V)", OF say_transfer(2-5), of "server_store V s" ts f] say_transfer(7) by simp
next
  case (say_withdraw n w p t a)
  have "server_store V s' = (server_store V s)(withdraw_id (server_ext V) t \<mapsto> StakeWithdraw t)"
    using stored_txs_insert [OF assms(1) ins] say_withdraw by simp
  then show ?thesis using accept_withdraw [where dec = "decrypt (sr_sgx V)", OF say_withdraw(2-8)] say_withdraw(6) by simp
qed

lemma verify_stake_simulates:
  assumes "enclave_says (sr_sgx V) r (server_lookup V (sv_txdb s) (vr_tx r)) (Ok (IntraDepositStakeTx c))"
    and "coin_sub c (to_coin (min_fee_computed (vr_info r))) = Ok amount"
    and "(case (vr_account r, vr_tx r) of (Some a, _) \<Rightarrow> deposit amount a
        | (None, EncDepositStakeTx d p) \<Rightarrow>
            Done (new_init_bonded amount (previous_block_time (vr_info r)) (to_staked_account d) None)
        | _ \<Rightarrow> Panic (''one shouldn'' @ [CHR 0x27] @ ''t call this with other variants'')) = Done a'"
  shows "ideal_accepts (server_ext V) (decrypt (sr_sgx V)) (server_store V s) r
    (min_fee_computed (vr_info r), Some a') (server_store V s)"
  using assms(1)
proof cases
  case (say_deposit d p w logs ts)
  have "those (map (server_store V s \<circ> txo_id) (dep_inputs d)) = Some ts"
    using lookup_unseal [of V "sv_txdb s" "map txo_id (dep_inputs d)" logs] say_deposit by simp
  moreover have "(case vr_account r of Some a \<Rightarrow> deposit amount a
      | None \<Rightarrow> Done (new_init_bonded amount (previous_block_time (vr_info r)) (to_staked_account d) None)) = Done a'"
    using assms(3) say_deposit by (cases "vr_account r") simp_all
  ultimately show ?thesis
    using accept_deposit [where dec = "decrypt (sr_sgx V)", OF say_deposit(2,3), of "server_store V s" ts] say_deposit(5) assms(2) by blast
qed

lemma check_tx_simulates:
  assumes "server_laws V" "check_tx V r (server_lookup V (sv_txdb s) (vr_tx r)) s = Done (res, s')"
  shows "case res of
      Ok answer \<Rightarrow> ideal_accepts (server_ext V) (decrypt (sr_sgx V)) (server_store V s) r answer (server_store V s')
    | Err e \<Rightarrow> server_store V s' = server_store V s"
  using assms(2)
proof (cases rule: check_tx_cases)
  case (io log i)
  have "sl_get (sr_sled V) (sv_txdb s') = sl_get (sr_sled V) (sv_txdb s)"
    using assms(1) by (intro sled_lawsD(2) [OF _ io(2)]) (simp add: server_laws_def)
  from stored_txs_cong [OF this] show ?thesis unfolding io(1) sum.case .
next
  case (outputs s1 buf len f log)
  then have "enclave_says (sr_sgx V) r (server_lookup V (sv_txdb s) (vr_tx r)) (Ok (IntraTxWithOutputs f log))"
    using validate_call [OF _ outputs(1,2)] assms(1) by (simp add: server_laws_def)
  from verify_outputs_simulates [OF assms(1) this outputs(3)] show ?thesis
    unfolding outputs(4) sum.case .
next
  case (stake s1 buf len c amount a)
  then have "enclave_says (sr_sgx V) r (server_lookup V (sv_txdb s) (vr_tx r)) (Ok (IntraDepositStakeTx c))"
    using validate_call [OF _ stake(1,2)] assms(1) by (simp add: server_laws_def)
  from verify_stake_simulates [OF this stake(4,5)] show ?thesis
    unfolding stake(6) sum.case stake(3) .
next
  case (error e)
  show ?thesis unfolding error sum.case ..
qed

lemma encrypt_tx_txdb: "encrypt_tx V q s = Done (r, s') \<Longrightarrow> sv_txdb s' = sv_txdb s"
  by (auto simp: encrypt_tx_def Let_def run_bind_eq_Done dest: enclave_call_txdb)

lemma end_block_call_txdb: "end_block_call V q s = Done (r, s') \<Longrightarrow> sv_txdb s' = sv_txdb s"
  by (auto simp: end_block_call_def run_bind_eq_Done dest: enclave_call_txdb)

lemma flush_all_store:
  assumes "server_laws V" "flush_all V s = (r, s')"
  shows "server_store V s' = server_store V s"
proof (cases "sl_flush (sr_sled V) (sv_txdb s)")
  case (Pair r1 t)
  have laws: "sled_laws (sr_sled V)" using assms(1) by (simp add: server_laws_def)
  obtain r2 m where m: "sl_flush (sr_sled V) (sv_metadb s) = (r2, m)"
    by (cases "sl_flush (sr_sled V) (sv_metadb s)")
  have "sv_txdb s' = t"
    using assms(2) by (cases r1) (auto simp add: flush_all_def Pair m)
  with stored_txs_cong [OF sled_lawsD(3) [OF laws Pair]] show ?thesis by simp
qed

lemma server_simulates:
  assumes "server_laws V" "server_process V q s = Done (response, s')"
  shows "(\<exists>r answer. q = VerifyTx r \<and> response = RespVerifyTx (Ok answer) \<and>
      ideal_accepts (server_ext V) (decrypt (sr_sgx V)) (server_store V s) r answer (server_store V s')) \<or>
    (\<forall>answer. response \<noteq> RespVerifyTx (Ok answer)) \<and> server_store V s' = server_store V s"
proof (cases q)
  case (VerifyTx r)
  show ?thesis
  proof (cases "response = UnknownRequest \<and> s' = s")
    case False
    then obtain res where "check_tx V r (server_lookup V (sv_txdb s) (vr_tx r)) s = Done (res, s')"
        "response = RespVerifyTx res"
      using assms(2) by (auto simp: server_process_def VerifyTx Let_def run_bind_eq_Done split: if_splits)
    then show ?thesis using check_tx_simulates [OF assms(1), of r s res s'] VerifyTx by (cases res) auto
  qed simp
next
  case (CheckChain i h)
  then show ?thesis using assms(2)
    by (auto simp: server_process_def check_initchain_def run_elims split: sum.splits if_splits)
next
  case EndBlock
  then show ?thesis using assms(2)
    by (auto simp: server_process_def run_elims dest: end_block_call_txdb)
next
  case (CommitBlock h info)
  define m where "m = snd (sl_insert (sr_sled V) (snd (sl_insert (sr_sled V) (sv_metadb s) LAST_APP_HASH_KEY h))
    LAST_CHAIN_INFO_KEY (enc_chain_info V info))"
  obtain r1 s1 where fl: "flush_all V (s\<lparr>sv_metadb := m\<rparr>) = (r1, s1)"
    by (cases "flush_all V (s\<lparr>sv_metadb := m\<rparr>)")
  have "server_store V s1 = server_store V s" using flush_all_store [OF assms(1) fl] by simp
  moreover have "sv_txdb s' = sv_txdb s1" "\<forall>answer. response \<noteq> RespVerifyTx (Ok answer)"
    using assms(2) fl by (auto simp: server_process_def CommitBlock Let_def m_def split: sum.splits)
  ultimately show ?thesis by simp
next
  case (GetSealedTxData ids)
  then show ?thesis using assms(2) by (auto simp: server_process_def)
next
  case (EncryptTx e)
  then show ?thesis using assms(2)
    by (auto simp: server_process_def Let_def run_elims split: option.splits dest: encrypt_tx_txdb)
qed

section \<open>The contract of the service and what it gives for every history\<close>

fun process_all ::
    "(enclave_request \<Rightarrow> 'en \<Rightarrow> (enclave_response \<times> 'en) run) \<Rightarrow> enclave_request list \<Rightarrow> 'en \<Rightarrow>
     (enclave_response list \<times> 'en) run" where
  "process_all process [] st = Done ([], st)"
| "process_all process (q # qs) st = run_bind (process q st) (\<lambda>(a, st1).
     run_bind (process_all process qs st1) (\<lambda>(as, st2). Done (a # as, st2)))"

text \<open>
  \<open>ideal_history E dec m xs m'\<close>: the ideal service accepts the requests \<open>xs\<close>, in this
  order, and goes from the transactions \<open>m\<close> to \<open>m'\<close>.
\<close>

inductive ideal_history ::
    "ext \<Rightarrow> (tx_obfuscated \<Rightarrow> unit + plain_tx_aux) \<Rightarrow> tx_map \<Rightarrow>
     (verify_tx_request \<times> fee \<times> staked_state option) list \<Rightarrow> tx_map \<Rightarrow> bool"
  for E dec where
  history_Nil: "ideal_history E dec m [] m"
| history_Cons: "ideal_accepts E dec m r answer m1 \<Longrightarrow> ideal_history E dec m1 xs m' \<Longrightarrow>
    ideal_history E dec m ((r, answer) # xs) m'"

inductive_cases history_NilE: "ideal_history E dec m [] m'"
inductive_cases history_ConsE: "ideal_history E dec m (x # xs) m'"

fun accepted :: "(enclave_request \<times> enclave_response) list \<Rightarrow> (verify_tx_request \<times> fee \<times> staked_state option) list" where
  "accepted ((VerifyTx r, RespVerifyTx (Inr answer)) # xs) = (r, answer) # accepted xs"
| "accepted (x # xs) = accepted xs"
| "accepted [] = []"

lemma accepted_skip:
  assumes "\<forall>answer. a \<noteq> RespVerifyTx (Inr answer)"
  shows "accepted ((q, a) # xs) = accepted xs"
proof (cases a)
  case (RespVerifyTx res)
  then obtain e where "a = RespVerifyTx (Inl e)" using assms by (cases res) auto
  then show ?thesis by (cases q) simp_all
qed (cases q; simp)+

locale validation_service =
  fixes process :: "enclave_request \<Rightarrow> 'en \<Rightarrow> (enclave_response \<times> 'en) run"
    and store :: "'en \<Rightarrow> tx_map"
    and E :: ext and dec :: "tx_obfuscated \<Rightarrow> unit + plain_tx_aux" and lawful :: bool
  assumes simulates: "lawful \<Longrightarrow> process q st = Done (response, st') \<Longrightarrow>
    (\<exists>r answer. q = VerifyTx r \<and> response = RespVerifyTx (Ok answer) \<and>
      ideal_accepts E dec (store st) r answer (store st')) \<or>
    (\<forall>answer. response \<noteq> RespVerifyTx (Ok answer)) \<and> store st' = store st"
begin

lemma runs_simulate:
  "lawful \<Longrightarrow> process_all process qs st = Done (rs, st') \<Longrightarrow>
   ideal_history E dec (store st) (accepted (zip qs rs)) (store st')"
proof (induction qs arbitrary: st rs)
  case Nil
  then show ?case by (simp add: history_Nil)
next
  case (Cons q qs)
  then obtain a st1 as where *: "process q st = Done (a, st1)" "process_all process qs st1 = Done (as, st')" "rs = a # as"
    by (auto simp: run_bind_eq_Done)
  have IH: "ideal_history E dec (store st1) (accepted (zip qs as)) (store st')"
    using Cons.IH [OF Cons.prems(1) *(2)] .
  from simulates [OF Cons.prems(1) *(1)] show ?case
  proof
    assume "\<exists>r answer. q = VerifyTx r \<and> a = RespVerifyTx (Ok answer) \<and>
      ideal_accepts E dec (store st) r answer (store st1)"
    then obtain r answer where q: "q = VerifyTx r" "a = RespVerifyTx (Ok answer)"
        "ideal_accepts E dec (store st) r answer (store st1)" by (elim exE conjE)
    from history_Cons [OF q(3) IH] show ?thesis by (simp add: q(1,2) *(3))
  next
    assume "(\<forall>answer. a \<noteq> RespVerifyTx (Ok answer)) \<and> store st1 = store st"
    then have "accepted (zip (q # qs) rs) = accepted (zip qs as)" "store st1 = store st"
      using accepted_skip by (auto simp only: *(3) zip_Cons_Cons)
    with IH show ?thesis by simp
  qed
qed

lemma answer_accepted:
  assumes "lawful" "process (VerifyTx r) st = Done (RespVerifyTx (Ok answer), st')"
  shows "ideal_accepts E dec (store st) r answer (store st')"
  using simulates [OF assms] by blast

lemma deposit_answer:
  assumes "lawful" "process (VerifyTx r) st = Done (RespVerifyTx (Ok (f, acc)), st')" "vr_tx r = EncDepositStakeTx d p"
  shows "\<exists>a. acc = Some a"
proof -
  have "ideal_accepts E dec (store st) r (f, acc) (store st')"
    using answer_accepted [OF assms(1,2)] .
  then show ?thesis
  proof cases
    case (accept_deposit d' p' w' ts c amount a')
    from accept_deposit(2) show ?thesis by blast
  next
    case (accept_transfer ins n' p' t w' ts)
    from accept_transfer(3) assms(3) show ?thesis by simp
  next
    case (accept_withdraw n' w' p' t a)
    from accept_withdraw(3) assms(3) show ?thesis by simp
  qed
qed

lemma withdraw_answer:
  assumes "lawful" "process (VerifyTx r) st = Done (RespVerifyTx (Ok (f, acc)), st')"
    and "vr_tx r = EncWithdrawUnbondedStakeTx n w p"
  shows "\<exists>a. vr_account r = Some a \<and> acc = Some (withdraw a)"
proof -
  have "ideal_accepts E dec (store st) r (f, acc) (store st')"
    using answer_accepted [OF assms(1,2)] .
  then show ?thesis
  proof cases
    case (accept_withdraw n' w' p' t a)
    from accept_withdraw(1,7) show ?thesis by blast
  next
    case (accept_transfer ins n' p' t w' ts)
    from accept_transfer(3) assms(3) show ?thesis by simp
  next
    case (accept_deposit d p' w' ts c amount a')
    from accept_deposit(4) assms(3) show ?thesis by simp
  qed
qed

end

interpretation server: validation_service "server_process V" "server_store V" "server_ext V" "decrypt (sr_sgx V)" "server_laws V"
  for V :: "('bv, 'kv) server_env"
  by unfold_locales (rule server_simulates)

section \<open>Properties\<close>

text \<open>
  C5: The validation server refines the ideal service.  Whatever requests it is
  sent, in whatever order, the requests it accepts are accepted, in this order and
  with these answers, by a service that keeps the transactions in the clear and
  calls the validation functions on them, and the sealed database afterwards stands
  for the transactions of that service.
\<close>

theorem server_refines_ideal:
  assumes "server_laws V" "process_all (server_process V) qs s = Done (rs, s')"
  shows "ideal_history (server_ext V) (decrypt (sr_sgx V)) (server_store V s) (accepted (zip qs rs)) (server_store V s')"
  using assms by (rule server.runs_simulate)

section \<open>From encryption to validation\<close>

definition cipher_laws :: "'bv sgx_env \<Rightarrow> bool" where
  "cipher_laws G \<longleftrightarrow>
     (\<forall>iv m ad c. aead_encrypt G iv m ad = Some c \<longrightarrow> aead_decrypt G iv c ad = Some m) \<and>
     (\<forall>t. dec_plain_tx_aux (sg_service G) (enc_plain_tx_aux G t) = Ok t)"





section \<open>A concrete run\<close>

lemma sample_laws: "sgx_laws sample_sgx" "sled_laws map_sled" "cipher_laws sample_sgx" "server_laws sample_server_env"
proof -
  show sgx: "sgx_laws sample_sgx"
    using pair_unseal_seal by (simp add: sgx_laws_def pair_seal_def)
  show sled: "sled_laws map_sled" by (auto simp add: sled_laws_def)
  show "cipher_laws sample_sgx" by (simp add: cipher_laws_def)
  show "server_laws sample_server_env" using sgx sled by (simp add: server_laws_def)
qed

lemma sample_id_length: "length (tx_id sample_ext t) = 32"
  by (simp add: tx_id_def txid_hash_def sample_ext_def sample_hash_def)

lemma sample_seal:
  assumes "t = sample_tx \<or> t = sample_prev_tx"
  shows "pair_seal (tx_id sample_ext t) (cnt_encode (Transfer sample_tx) (Transfer sample_prev_tx) (Transfer t)) =
    Ok (sample_sealed t)"
  using assms by (auto simp: pair_seal_def sample_sealed_def cnt_encode_def sample_id_length)

lemma sample_unsealed:
  "check_unseal sample_sgx None False (map txo_id (tx_inputs sample_tx)) [sample_sealed sample_prev_tx] =
   Some [Transfer sample_prev_tx]"
proof -
  have "sealed_tx sample_sgx (tx_id sample_ext sample_prev_tx) (sample_sealed sample_prev_tx) = Some (Transfer sample_prev_tx)"
    by (rule sealed_tx_seal [OF sample_laws(1)]) (simp add: sample_seal)
  then show ?thesis by (simp add: check_unseal_sealed sample_tx_def)
qed

lemma sample_decrypt: "decrypt sample_sgx sample_payload = Ok sample_plain"
  by (simp add: decrypt_def sample_payload_def cnt_decode_def)

lemma sample_sealed_response:
  "construct_sealed_response sample_sgx (Ok (Fee (Coin 3))) (tx_id sample_ext sample_tx) (Transfer sample_tx) e =
   Done (Ok sample_intra_response, e)"
  by (simp add: construct_sealed_response_def sample_seal filter_add_tx_def add_view_keys_def sample_intra_response_def)
    (simp add: sample_tx_def)

lemma sample_validate:
  assumes "1 \<le> len"
  shows "handle_validate_tx sample_sgx sample_request (Some [sample_sealed sample_prev_tx]) len e =
    Done ((SGX_SUCCESS, [1]), e)"
proof -
  have "is_basic_valid_tx_request sample_request (Some [sample_sealed sample_prev_tx]) 1 = Ok ()"
    by (simp add: is_basic_valid_tx_request_def sample_request_def sample_info_def)
  moreover have "vr_tx sample_request = EncTransferTx (tx_inputs sample_tx) 1 sample_payload" "vr_info sample_request = sample_info"
    "obf_txid sample_payload = tx_id sample_ext sample_tx" "length (tx_outputs sample_tx) = 1"
    by (simp_all add: sample_request_def sample_payload_def sample_tx_def)
  ultimately show ?thesis
    using assms by (simp add: handle_validate_tx_def Let_def sample_decrypt sample_plain_def sample_unsealed sample_transfer_ok
      sample_sealed_response write_back_response_def cnt_encode_def)
qed

lemma sample_process:
  "\<exists>s'. server_process sample_server_env (VerifyTx sample_request) sample_server =
    Done (RespVerifyTx (Ok (Fee (Coin 3), None)), s')"
proof -
  have lookup: "server_lookup sample_server_env (sv_txdb sample_server) (vr_tx sample_request) =
      Some [sample_sealed sample_prev_tx]"
    by (simp add: sample_request_def sample_server_def sample_tx_def)
  have call: "\<exists>s'. enclave_call sample_server_env [1] 101 sample_server = Done (Some (1 # replicate 100 0), s')"
  proof -
    have "ecall_check_tx sample_sgx [1] (of_nat 101) (sv_enclave sample_server) =
        Done ((SGX_SUCCESS, [1]), sv_enclave sample_server)"
      by (simp add: ecall_check_tx_def cnt_decode_def sample_intra_request_def sample_validate)
    then show ?thesis by (simp add: enclave_call_def)
  qed
  then obtain s' where call: "enclave_call sample_server_env [1] 101 sample_server = Done (Some (1 # replicate 100 0), s')"
    by (elim exE)
  have "is_basic_valid_tx_request sample_request (Some [sample_sealed sample_prev_tx])
      (info_chain_hex_id (vr_info sample_request)) = Ok ()"
    by (simp add: is_basic_valid_tx_request_def sample_request_def)
  moreover have "cnt_encode sample_intra_request sample_intra_request
      (IntraValidateTx sample_request (Some [sample_sealed sample_prev_tx])) = [1]"
    by (simp add: cnt_encode_def sample_intra_request_def)
  moreover have "vr_account sample_request = None" by (simp add: sample_request_def)
  ultimately show ?thesis
    by (simp add: server_process_def Let_def lookup check_tx_def call cnt_decode_def sample_intra_response_def)
qed

theorem server_refines_ideal_witness:
  "\<exists>s'. process_all (server_process sample_server_env) [VerifyTx sample_request] sample_server =
     Done ([RespVerifyTx (Ok (Fee (Coin 3), None))], s') \<and>
   ideal_history sample_ext (decrypt sample_sgx) (server_store sample_server_env sample_server)
     [(sample_request, Fee (Coin 3), None)] (server_store sample_server_env s')"
proof -
  obtain s' where run: "process_all (server_process sample_server_env) [VerifyTx sample_request] sample_server =
      Done ([RespVerifyTx (Ok (Fee (Coin 3), None))], s')"
    using sample_process by (elim exE) simp
  from server_refines_ideal [OF sample_laws(4) this] run show ?thesis by auto
qed






end
