(* ===== verification/Client_Storage.thy ===== *)
theory Client_Storage
  imports Btree_Map
begin

text \<open>
  The storage layer of the clients (client-common/src): error kinds, the interface
  \<open>Storage\<close>, its implementation in memory, and the encrypted access \<open>SecureStorage\<close>
  built on any storage (storage.rs, storage/memory_storage.rs, error.rs).  Of an
  error only its kind is kept, the message and the source are dropped.  The cipher,
  the hash function and the random numbers are parameters.  The locale
  \<open>key_value_storage\<close> states what the services rely on; the storage in memory
  interprets it.
\<close>

section \<open>Errors and actions\<close>

datatype error_kind =
    InitializationError | ConnectionError | StorageError | RngError | EncryptionError | DecryptionError
  | SerializationError | DeserializationError | InvalidInput | IllegalInput | PermissionDenied
  | ClientIoError | TendermintRpcError | MultiSigError | InternalError | ValidationError | VerifyError

text \<open>
  The adaptors \<open>chain\<close> and \<open>err_kind\<close> replace an error, or a missing value, by an
  error of the given kind.
\<close>

definition err_kind :: "error_kind \<Rightarrow> 'e + 'a \<Rightarrow> error_kind + 'a" where
  "err_kind k r = map_err (\<lambda>_. k) r"

definition opt_kind :: "error_kind \<Rightarrow> 'a option \<Rightarrow> error_kind + 'a" where
  "opt_kind k r = ok_or r k"

lemma err_kind_simps [simp, run_simps]: "err_kind k (Inl e) = Inl k" "err_kind k (Inr v) = Inr v"
  by (simp_all add: err_kind_def)

lemma opt_kind_simps [simp, run_simps]: "opt_kind k None = Inl k" "opt_kind k (Some v) = Inr v"
  by (simp_all add: opt_kind_def)

lemma err_kind_eq_Ok: "err_kind k r = Inr v \<longleftrightarrow> r = Inr v"
  by (cases r) auto

lemma opt_kind_eq_Ok: "opt_kind k r = Inr v \<longleftrightarrow> r = Some v"
  by (cases r) auto

text \<open>
  A method of a service is an action on the state: it returns a result and the next
  state, or panics.
\<close>

type_synonym ('st, 'a) action = "'st \<Rightarrow> ((error_kind + 'a) \<times> 'st) run"

definition act_return :: "'a \<Rightarrow> ('st, 'a) action" where
  "act_return v = (\<lambda>s. Done (Ok v, s))"

definition act_result :: "error_kind + 'a \<Rightarrow> ('st, 'a) action" where
  "act_result r = (\<lambda>s. Done (r, s))"

definition act_bind :: "('st, 'a) action \<Rightarrow> ('a \<Rightarrow> ('st, 'b) action) \<Rightarrow> ('st, 'b) action" where
  "act_bind m f = (\<lambda>s. run_bind (m s) (\<lambda>(r, s'). case r of Inl e \<Rightarrow> Done (Err e, s') | Inr v \<Rightarrow> f v s'))"

definition act_run :: "(error_kind + 'a) run \<Rightarrow> ('st, 'a) action" where
  "act_run r = (\<lambda>s. run_bind r (\<lambda>v. Done (v, s)))"

definition act_map :: "('a \<Rightarrow> 'b) \<Rightarrow> ('st, 'a) action \<Rightarrow> ('st, 'b) action" where
  "act_map g m = act_bind m (\<lambda>v. act_return (g v))"

lemma act_apply [simp]:
  "act_return v s = Done (Ok v, s)" "act_result r s = Done (r, s)" "act_run (Done r) s = Done (r, s)"
  by (simp_all add: act_return_def act_result_def act_run_def)

lemma act_bind_apply [simp]:
  "m s = Done (Ok v, s') \<Longrightarrow> act_bind m f s = f v s'"
  "m s = Done (Err e, s') \<Longrightarrow> act_bind m f s = Done (Err e, s')"
  by (simp_all add: act_bind_def)

lemma act_bind_result [simp]:
  "act_bind (act_return v) f s = f v s" "act_bind (act_result (Inr v)) f s = f v s"
  "act_bind (act_result (Inl e)) f s = Done (Err e, s)"
  by simp_all

lemma act_bind_Ok:
  "act_bind m f s = Done (Ok w, s') \<longleftrightarrow> (\<exists>v s1. m s = Done (Ok v, s1) \<and> f v s1 = Done (Ok w, s'))"
proof (cases "m s")
  case (Done p)
  then show ?thesis by (cases "fst p"; cases p) (auto simp: act_bind_def)
qed (simp add: act_bind_def)

lemma act_map_Ok: "act_map g m s = Done (Ok w, s') \<longleftrightarrow> (\<exists>v. m s = Done (Ok v, s') \<and> w = g v)"
  by (auto simp: act_map_def act_bind_Ok)

lemma act_map_apply [simp]:
  "m s = Done (Ok v, s') \<Longrightarrow> act_map g m s = Done (Ok (g v), s')"
  "m s = Done (Err e, s') \<Longrightarrow> act_map g m s = Done (Err e, s')"
  by (simp_all add: act_map_def)

section \<open>The storage interface\<close>

record 'st storage =
  st_clear :: "bytes \<Rightarrow> ('st, unit) action"
  st_get :: "bytes \<Rightarrow> bytes \<Rightarrow> ('st, bytes option) action"
  st_set :: "bytes \<Rightarrow> bytes \<Rightarrow> bytes \<Rightarrow> ('st, bytes option) action"
  st_delete :: "bytes \<Rightarrow> bytes \<Rightarrow> ('st, bytes option) action"
  st_fetch_and_update :: "bytes \<Rightarrow> bytes \<Rightarrow> (bytes option \<Rightarrow> (error_kind + bytes option) run) \<Rightarrow> ('st, bytes option) action"
  st_keys :: "bytes \<Rightarrow> ('st, bytes list) action"
  st_contains_key :: "bytes \<Rightarrow> bytes \<Rightarrow> ('st, bool) action"
  st_keyspaces :: "('st, bytes list) action"

section \<open>Storage in memory\<close>

text \<open>
  A hash map of hash maps, kept here as ordered maps; the sources leave the order of
  the keys open.  The lock around the map is never poisoned.
\<close>

type_synonym memory = "(bytes, (bytes, bytes) btm) btm"

definition mem_space :: "memory \<Rightarrow> bytes \<Rightarrow> (bytes, bytes) btm" where
  "mem_space m keyspace = (case bm_get m keyspace of Some space \<Rightarrow> space | None \<Rightarrow> bm_new)"

definition mem_clear :: "bytes \<Rightarrow> (memory, unit) action" where
  "mem_clear keyspace m = (case bm_get m keyspace of
     Some space \<Rightarrow> Done (Ok (), bm_insert keyspace bm_new m) | None \<Rightarrow> Done (Ok (), m))"

definition mem_get :: "bytes \<Rightarrow> bytes \<Rightarrow> (memory, bytes option) action" where
  "mem_get keyspace key m = Done (Ok (case bm_get m keyspace of
     Some space \<Rightarrow> bm_get space key | None \<Rightarrow> None), m)"

definition mem_ensure :: "bytes \<Rightarrow> memory \<Rightarrow> memory" where
  "mem_ensure keyspace m = (if bm_contains m keyspace then m else bm_insert keyspace bm_new m)"

definition mem_set :: "bytes \<Rightarrow> bytes \<Rightarrow> bytes \<Rightarrow> (memory, bytes option) action" where
  "mem_set keyspace key v m = (let m1 = mem_ensure keyspace m; space = mem_space m1 keyspace in
     Done (Ok (bm_get space key), bm_insert keyspace (bm_insert key v space) m1))"

definition mem_delete :: "bytes \<Rightarrow> bytes \<Rightarrow> (memory, bytes option) action" where
  "mem_delete keyspace key m = (case bm_get m keyspace of
     Some space \<Rightarrow> Done (Ok (bm_get space key), bm_insert keyspace (bm_remove key space) m)
   | None \<Rightarrow> Done (Ok None, m))"

definition mem_fetch_and_update ::
    "bytes \<Rightarrow> bytes \<Rightarrow> (bytes option \<Rightarrow> (error_kind + bytes option) run) \<Rightarrow> (memory, bytes option) action" where
  "mem_fetch_and_update keyspace key f m =
     (let m1 = mem_ensure keyspace m; space = mem_space m1 keyspace; current = bm_get space key in
      run_bind (f current) (\<lambda>next. case next of
        Inl e \<Rightarrow> Done (Err e, m1)
      | Inr None \<Rightarrow> Done (Ok current, bm_insert keyspace (bm_remove key space) m1)
      | Inr (Some v) \<Rightarrow> Done (Ok current, bm_insert keyspace (bm_insert key v space) m1)))"

definition mem_keys :: "bytes \<Rightarrow> (memory, bytes list) action" where
  "mem_keys keyspace m = Done (Ok (map fst (mem_space m keyspace)), m)"

definition mem_contains_key :: "bytes \<Rightarrow> bytes \<Rightarrow> (memory, bool) action" where
  "mem_contains_key keyspace key m = Done (Ok (case bm_get m keyspace of
     Some space \<Rightarrow> bm_contains space key | None \<Rightarrow> False), m)"

definition mem_keyspaces :: "(memory, bytes list) action" where
  "mem_keyspaces m = Done (Ok (map fst m), m)"

definition memory_storage :: "memory storage" where
  "memory_storage = \<lparr>st_clear = mem_clear, st_get = mem_get, st_set = mem_set, st_delete = mem_delete,
     st_fetch_and_update = mem_fetch_and_update, st_keys = mem_keys, st_contains_key = mem_contains_key,
     st_keyspaces = mem_keyspaces\<rparr>"

section \<open>Encrypted access\<close>

text \<open>
  \<open>cl_random i n\<close> are the \<open>n\<close> bytes of the \<open>i\<close>-th draw from the random number
  generator; the index of the next draw is part of the state.  An update that fails
  before it encrypts skips an index.
\<close>

record 'st client_env =
  cl_storage :: "'st storage"
  cl_hash :: "bytes \<Rightarrow> bytes"
  cl_random :: "nat \<Rightarrow> nat \<Rightarrow> bytes"
  cl_seal :: "bytes \<Rightarrow> bytes \<Rightarrow> bytes \<Rightarrow> bytes \<Rightarrow> bytes option"
  cl_open :: "bytes \<Rightarrow> bytes \<Rightarrow> bytes \<Rightarrow> bytes \<Rightarrow> bytes option"

record 'st world =
  w_store :: 'st
  w_draws :: nat

definition on_store :: "('st, 'a) action \<Rightarrow> ('st world, 'a) action" where
  "on_store m w = run_bind (m (w_store w)) (\<lambda>(r, s). Done (r, w\<lparr>w_store := s\<rparr>))"

definition NONCE_SIZE :: nat where "NONCE_SIZE = 12"

definition get_algo :: "'st client_env \<Rightarrow> bytes \<Rightarrow> bytes" where
  "get_algo C passphrase = cl_hash C passphrase"

definition encrypt_bytes :: "'st client_env \<Rightarrow> bytes \<Rightarrow> bytes \<Rightarrow> bytes \<Rightarrow> nat \<Rightarrow> error_kind + bytes" where
  "encrypt_bytes C key passphrase b draw = (let nonce = cl_random C draw NONCE_SIZE in
     map_err (\<lambda>_. EncryptionError) (map_sum id ((@) nonce)
       (ok_or (cl_seal C (get_algo C passphrase) nonce b key) ())))"

definition decrypt_bytes :: "'st client_env \<Rightarrow> bytes \<Rightarrow> bytes \<Rightarrow> bytes \<Rightarrow> (error_kind + bytes) run" where
  "decrypt_bytes C key passphrase b =
     (if length b < NONCE_SIZE then Panic ''range start index out of range''
      else Done (opt_kind DecryptionError
        (cl_open C (get_algo C passphrase) (take NONCE_SIZE b) (drop NONCE_SIZE b) key)))"

definition decrypt_opt :: "'st client_env \<Rightarrow> bytes \<Rightarrow> bytes \<Rightarrow> bytes option \<Rightarrow> (error_kind + bytes option) run" where
  "decrypt_opt C key passphrase v = (case v of
     None \<Rightarrow> Done (Ok None)
   | Some b \<Rightarrow> run_bind (decrypt_bytes C key passphrase b) (\<lambda>r. Done (map_sum id Some r)))"

definition get_secure :: "'st client_env \<Rightarrow> bytes \<Rightarrow> bytes \<Rightarrow> bytes \<Rightarrow> ('st world, bytes option) action" where
  "get_secure C keyspace key passphrase =
     act_bind (on_store (st_get (cl_storage C) keyspace key)) (\<lambda>v. act_run (decrypt_opt C key passphrase v))"

text \<open>The encryption with a fresh nonce.\<close>

definition encrypt_fresh :: "'st client_env \<Rightarrow> bytes \<Rightarrow> bytes \<Rightarrow> bytes \<Rightarrow> ('st world, bytes) action" where
  "encrypt_fresh C key passphrase b w =
     Done (encrypt_bytes C key passphrase b (w_draws w), w\<lparr>w_draws := w_draws w + 1\<rparr>)"

definition set_secure ::
    "'st client_env \<Rightarrow> bytes \<Rightarrow> bytes \<Rightarrow> bytes \<Rightarrow> bytes \<Rightarrow> ('st world, bytes option) action" where
  "set_secure C keyspace key v passphrase =
     act_bind (get_secure C keyspace key passphrase) (\<lambda>old_value.
     act_bind (encrypt_fresh C key passphrase v) (\<lambda>cipher.
     act_bind (on_store (st_set (cl_storage C) keyspace key cipher)) (\<lambda>_.
     act_return old_value)))"

definition secure_update ::
    "'st client_env \<Rightarrow> bytes \<Rightarrow> bytes \<Rightarrow> (bytes option \<Rightarrow> (error_kind + bytes option) run) \<Rightarrow> nat \<Rightarrow>
     bytes option \<Rightarrow> (error_kind + bytes option) run" where
  "secure_update C key passphrase f draw current =
     try_run (run_bind (decrypt_opt C key passphrase current) (\<lambda>r. Done (err_kind DecryptionError r))) (\<lambda>opened.
     try_run (f opened) (\<lambda>next. case next of
       None \<Rightarrow> Done (Ok None)
     | Some v \<Rightarrow> Done (map_sum id Some (encrypt_bytes C key passphrase v draw))))"

definition fetch_and_update_secure ::
    "'st client_env \<Rightarrow> bytes \<Rightarrow> bytes \<Rightarrow> bytes \<Rightarrow> (bytes option \<Rightarrow> (error_kind + bytes option) run) \<Rightarrow>
     ('st world, bytes option) action" where
  "fetch_and_update_secure C keyspace key passphrase f w =
     on_store (st_fetch_and_update (cl_storage C) keyspace key (secure_update C key passphrase f (w_draws w)))
       (w\<lparr>w_draws := w_draws w + 1\<rparr>)"

text \<open>Loading and saving objects with a codec.\<close>

definition decode_opt :: "(bytes \<Rightarrow> 'e + 'a) \<Rightarrow> bytes option \<Rightarrow> error_kind + 'a option" where
  "decode_opt dec v = (case v of
     None \<Rightarrow> Ok None | Some b \<Rightarrow> map_sum id Some (err_kind DeserializationError (dec b)))"

definition storage_load :: "'st client_env \<Rightarrow> (bytes \<Rightarrow> 'e + 'a) \<Rightarrow> bytes \<Rightarrow> bytes \<Rightarrow> ('st world, 'a option) action" where
  "storage_load C dec keyspace key =
     act_bind (on_store (st_get (cl_storage C) keyspace key)) (\<lambda>v. act_result (decode_opt dec v))"

definition storage_save :: "'st client_env \<Rightarrow> ('a \<Rightarrow> bytes) \<Rightarrow> bytes \<Rightarrow> bytes \<Rightarrow> 'a \<Rightarrow> ('st world, unit) action" where
  "storage_save C enc keyspace key v = act_map (\<lambda>_. ()) (on_store (st_set (cl_storage C) keyspace key (enc v)))"

definition load_secure ::
    "'st client_env \<Rightarrow> (bytes \<Rightarrow> 'e + 'a) \<Rightarrow> bytes \<Rightarrow> bytes \<Rightarrow> bytes \<Rightarrow> ('st world, 'a option) action" where
  "load_secure C dec keyspace key passphrase =
     act_bind (get_secure C keyspace key passphrase) (\<lambda>v. act_result (decode_opt dec v))"

definition save_secure ::
    "'st client_env \<Rightarrow> ('a \<Rightarrow> bytes) \<Rightarrow> bytes \<Rightarrow> bytes \<Rightarrow> bytes \<Rightarrow> 'a \<Rightarrow> ('st world, unit) action" where
  "save_secure C enc keyspace key passphrase v = act_map (\<lambda>_. ()) (set_secure C keyspace key (enc v) passphrase)"

section \<open>The contract of a storage\<close>

type_synonym kv_view = "bytes \<times> bytes \<Rightarrow> bytes option"

locale key_value_storage =
  fixes S :: "'st storage" and view :: "'st \<Rightarrow> kv_view" and inv :: "'st \<Rightarrow> bool"
  assumes get: "inv s \<Longrightarrow> st_get S ks k s = Done (Ok (view s (ks, k)), s)"
    and set: "inv s \<Longrightarrow> \<exists>s'. st_set S ks k v s = Done (Ok (view s (ks, k)), s') \<and> inv s' \<and>
      view s' = (view s)((ks, k) \<mapsto> v)"
    and delete: "inv s \<Longrightarrow> \<exists>s'. st_delete S ks k s = Done (Ok (view s (ks, k)), s') \<and> inv s' \<and>
      view s' = (view s)((ks, k) := None)"
    and update_Ok: "inv s \<Longrightarrow> f (view s (ks, k)) = Done (Ok n) \<Longrightarrow>
      \<exists>s'. st_fetch_and_update S ks k f s = Done (Ok (view s (ks, k)), s') \<and> inv s' \<and> view s' = (view s)((ks, k) := n)"
    and update_Err: "inv s \<Longrightarrow> f (view s (ks, k)) = Done (Err e) \<Longrightarrow>
      \<exists>s'. st_fetch_and_update S ks k f s = Done (Err e, s') \<and> inv s' \<and> view s' = view s"
    and update_Panic: "inv s \<Longrightarrow> f (view s (ks, k)) = Panic m \<Longrightarrow> st_fetch_and_update S ks k f s = Panic m"
    and clear: "inv s \<Longrightarrow> \<exists>s'. st_clear S ks s = Done (Ok (), s') \<and> inv s' \<and>
      view s' = (\<lambda>(ks', k). if ks' = ks then None else view s (ks', k))"
    and contains_key: "inv s \<Longrightarrow> st_contains_key S ks k s = Done (Ok (view s (ks, k) \<noteq> None), s)"
    and keys: "inv s \<Longrightarrow> \<exists>xs. st_keys S ks s = Done (Ok xs, s) \<and> set xs = {k. view s (ks, k) \<noteq> None}"

definition mem_view :: "memory \<Rightarrow> kv_view" where
  "mem_view m = (\<lambda>(ks, k). bm_get (mem_space m ks) k)"

definition mem_inv :: "memory \<Rightarrow> bool" where
  "mem_inv m \<longleftrightarrow> bm_wf m \<and> (\<forall>ks space. bm_get m ks = Some space \<longrightarrow> bm_wf space)"

lemma mem_space_wf: "mem_inv m \<Longrightarrow> bm_wf (mem_space m ks)"
  by (auto simp: mem_inv_def mem_space_def split: option.splits)

lemma mem_insert:
  assumes "mem_inv m" "bm_wf space"
  shows "mem_inv (bm_insert ks space m)"
    and "mem_view (bm_insert ks space m) = (\<lambda>(ks', k). if ks' = ks then bm_get space k else mem_view m (ks', k))"
  using assms by (auto simp: mem_inv_def mem_view_def mem_space_def btm.get_ins btm.inv_ins split: if_splits)

lemma mem_ensure:
  assumes "mem_inv m"
  shows "mem_inv (mem_ensure ks m)" "mem_view (mem_ensure ks m) = mem_view m"
    "mem_space (mem_ensure ks m) = mem_space m"
proof -
  show "mem_inv (mem_ensure ks m)"
    using assms by (simp add: mem_ensure_def mem_insert(1))
  show "mem_space (mem_ensure ks m) = mem_space m"
    using assms by (auto simp: mem_ensure_def mem_space_def mem_inv_def btm.get_ins bm_contains_def split: option.splits)
  then show "mem_view (mem_ensure ks m) = mem_view m" by (simp add: mem_view_def)
qed

lemma mem_put:
  assumes "mem_inv m"
  shows "mem_inv (bm_insert ks (bm_insert k v (mem_space m ks)) m)"
    and "mem_view (bm_insert ks (bm_insert k v (mem_space m ks)) m) = (mem_view m)((ks, k) \<mapsto> v)"
    and "mem_inv (bm_insert ks (bm_remove k (mem_space m ks)) m)"
    and "mem_view (bm_insert ks (bm_remove k (mem_space m ks)) m) = (mem_view m)((ks, k) := None)"
  using mem_space_wf [OF assms, of ks]
  by (auto simp: mem_insert [OF assms] btm.inv_ins btm.inv_del btm.get_ins btm.get_del fun_eq_iff, simp_all add: mem_view_def)

interpretation mem: key_value_storage memory_storage mem_view mem_inv
proof
  fix s :: memory and ks k v :: bytes and f :: "bytes option \<Rightarrow> (error_kind + bytes option) run" and n e m
  assume inv: "mem_inv s"
  note ens = mem_ensure [OF inv, of ks] and put = mem_put [OF mem_ensure(1) [OF inv, of ks], of ks, unfolded mem_ensure(2,3) [OF inv]]
  have view: "bm_get (mem_space s ks) k = mem_view s (ks, k)" by (simp add: mem_view_def)
  show "st_get memory_storage ks k s = Done (Ok (mem_view s (ks, k)), s)"
    by (simp add: memory_storage_def mem_get_def mem_view_def mem_space_def split: option.splits)
  show "\<exists>s'. st_set memory_storage ks k v s = Done (Ok (mem_view s (ks, k)), s') \<and> mem_inv s' \<and>
      mem_view s' = (mem_view s)((ks, k) \<mapsto> v)"
    by (simp add: memory_storage_def mem_set_def Let_def ens(3) view put)
  show "\<exists>s'. st_delete memory_storage ks k s = Done (Ok (mem_view s (ks, k)), s') \<and> mem_inv s' \<and>
      mem_view s' = (mem_view s)((ks, k) := None)"
  proof (cases "bm_get s ks")
    case None
    then show ?thesis using inv by (simp add: memory_storage_def mem_delete_def mem_view_def mem_space_def fun_eq_iff)
  next
    case (Some space)
    then have "mem_space s ks = space" by (simp add: mem_space_def)
    with Some view mem_put(3,4) [OF inv, of ks k] show ?thesis by (simp add: memory_storage_def mem_delete_def)
  qed
  show "f (mem_view s (ks, k)) = Done (Ok n) \<Longrightarrow>
      \<exists>s'. st_fetch_and_update memory_storage ks k f s = Done (Ok (mem_view s (ks, k)), s') \<and> mem_inv s' \<and>
        mem_view s' = (mem_view s)((ks, k) := n)"
    by (cases n) (simp_all add: memory_storage_def mem_fetch_and_update_def Let_def ens(3) view put)
  show "f (mem_view s (ks, k)) = Done (Err e) \<Longrightarrow>
      \<exists>s'. st_fetch_and_update memory_storage ks k f s = Done (Err e, s') \<and> mem_inv s' \<and> mem_view s' = mem_view s"
    by (simp add: memory_storage_def mem_fetch_and_update_def Let_def ens view)
  show "f (mem_view s (ks, k)) = Panic m \<Longrightarrow> st_fetch_and_update memory_storage ks k f s = Panic m"
    by (simp add: memory_storage_def mem_fetch_and_update_def Let_def ens view)
  show "\<exists>s'. st_clear memory_storage ks s = Done (Ok (), s') \<and> mem_inv s' \<and>
      mem_view s' = (\<lambda>(ks', k). if ks' = ks then None else mem_view s (ks', k))"
    using inv mem_insert [OF inv, of bm_new ks]
    by (auto simp: memory_storage_def mem_clear_def mem_view_def mem_space_def fun_eq_iff split: option.splits)
  show "st_contains_key memory_storage ks k s = Done (Ok (mem_view s (ks, k) \<noteq> None), s)"
    by (simp add: memory_storage_def mem_contains_key_def mem_view_def mem_space_def bm_contains_def split: option.splits)
  show "\<exists>xs. st_keys memory_storage ks s = Done (Ok xs, s) \<and> set xs = {k. mem_view s (ks, k) \<noteq> None}"
    using bm_contains_keys [of "mem_space s ks"]
    by (simp add: memory_storage_def mem_keys_def mem_view_def bm_contains_def set_eq_iff)
qed

section \<open>The contract of encrypted access\<close>

text \<open>
  What is relied on in the cipher: a sealed message opens to itself under the same
  key, nonce and additional data, and does not open under another key; nonces have
  the requested length.
\<close>

definition cipher_ok :: "'st client_env \<Rightarrow> bool" where
  "cipher_ok C \<longleftrightarrow>
     (\<forall>k n m a c. cl_seal C k n m a = Some c \<longrightarrow> cl_open C k n c a = Some m \<and>
        (\<forall>k'. k' \<noteq> k \<longrightarrow> cl_open C k' n c a = None)) \<and>
     (\<forall>i n. length (cl_random C i n) = n)"

text \<open>The value stored under a key, if it was sealed with the given passphrase.\<close>

definition sealed_as :: "'st client_env \<Rightarrow> bytes \<Rightarrow> bytes \<Rightarrow> bytes \<Rightarrow> bytes \<Rightarrow> bool" where
  "sealed_as C key passphrase v b \<longleftrightarrow> (\<exists>n c. cl_seal C (get_algo C passphrase) n v key = Some c \<and>
     length n = NONCE_SIZE \<and> b = n @ c)"

lemma encrypt_sealed:
  assumes "cipher_ok C" "encrypt_bytes C key passphrase v i = Ok b"
  shows "sealed_as C key passphrase v b"
proof -
  from assms(2) obtain c where "cl_seal C (get_algo C passphrase) (cl_random C i NONCE_SIZE) v key = Some c"
      "b = cl_random C i NONCE_SIZE @ c"
    by (cases "cl_seal C (get_algo C passphrase) (cl_random C i NONCE_SIZE) v key")
      (auto simp: encrypt_bytes_def Let_def)
  moreover have "length (cl_random C i NONCE_SIZE) = NONCE_SIZE" using assms(1) unfolding cipher_ok_def by blast
  ultimately show ?thesis unfolding sealed_as_def by blast
qed

lemma decrypt_sealed:
  assumes "cipher_ok C" "sealed_as C key passphrase v b"
  shows "decrypt_bytes C key passphrase b = Done (Ok v)"
    and "get_algo C passphrase' \<noteq> get_algo C passphrase \<Longrightarrow>
      decrypt_bytes C key passphrase' b = Done (Err DecryptionError)"
proof -
  obtain n c where c: "cl_seal C (get_algo C passphrase) n v key = Some c" "length n = NONCE_SIZE" "b = n @ c"
    using assms(2) by (auto simp: sealed_as_def)
  have "cl_open C (get_algo C passphrase) n c key = Some v"
    using assms(1) c(1) unfolding cipher_ok_def by blast
  then show "decrypt_bytes C key passphrase b = Done (Ok v)" by (simp add: decrypt_bytes_def c)
  assume "get_algo C passphrase' \<noteq> get_algo C passphrase"
  then have "cl_open C (get_algo C passphrase') n c key = None"
    using assms(1) c(1) unfolding cipher_ok_def by blast
  then show "decrypt_bytes C key passphrase' b = Done (Err DecryptionError)" by (simp add: decrypt_bytes_def c)
qed

text \<open>The plain content: the value under a key when it was sealed with the passphrase.\<close>

definition holds ::
    "'st client_env \<Rightarrow> ('st \<Rightarrow> kv_view) \<Rightarrow> ('st \<Rightarrow> bool) \<Rightarrow> 'st world \<Rightarrow> bytes \<Rightarrow> bytes \<Rightarrow> bytes \<Rightarrow> bytes option \<Rightarrow> bool" where
  "holds C view ok w passphrase ks k v \<longleftrightarrow> ok (w_store w) \<and> (case v of
     None \<Rightarrow> view (w_store w) (ks, k) = None
   | Some x \<Rightarrow> \<exists>b. view (w_store w) (ks, k) = Some b \<and> sealed_as C k passphrase x b)"

locale secure_storage = key_value_storage S view inv
  for S :: "'st storage" and view :: "'st \<Rightarrow> kv_view" and inv :: "'st \<Rightarrow> bool" +
  fixes C :: "'st client_env" and lawful :: bool
  assumes storage_of: "lawful \<Longrightarrow> cl_storage C = S" and cipher: "lawful \<Longrightarrow> cipher_ok C"
begin

abbreviation has :: "'st world \<Rightarrow> bytes \<Rightarrow> bytes \<Rightarrow> bytes \<Rightarrow> bytes option \<Rightarrow> bool" where
  "has \<equiv> holds C view inv"

lemma get_secure_holds:
  assumes "lawful" "has w passphrase ks k v"
  shows "get_secure C ks k passphrase w = Done (Ok v, w)"
proof -
  have get: "on_store (st_get (cl_storage C) ks k) w = Done (Ok (view (w_store w) (ks, k)), w)"
    using assms by (simp add: on_store_def storage_of get holds_def)
  show ?thesis
  proof (cases v)
    case None
    then show ?thesis using assms by (simp add: get_secure_def get holds_def decrypt_opt_def)
  next
    case (Some x)
    then obtain b where "view (w_store w) (ks, k) = Some b" "sealed_as C k passphrase x b"
      using assms(2) by (auto simp: holds_def)
    then show ?thesis
      using decrypt_sealed(1) [OF cipher [OF assms(1)]] by (simp add: get_secure_def get decrypt_opt_def Some)
  qed
qed

lemma set_secure_holds:
  assumes "lawful" "has w passphrase ks k old" "encrypt_bytes C k passphrase v (w_draws w) = Ok b"
  shows "\<exists>w'. set_secure C ks k v passphrase w = Done (Ok old, w') \<and> has w' passphrase ks k (Some v) \<and>
    view (w_store w') = (view (w_store w))((ks, k) \<mapsto> b)"
proof -
  have inv: "inv (w_store w)" using assms(2) by (simp add: holds_def)
  obtain s' where s': "st_set S ks k b (w_store w) = Done (Ok (view (w_store w) (ks, k)), s')" "inv s'"
      "view s' = (view (w_store w))((ks, k) \<mapsto> b)"
    using set [OF inv] by blast
  let ?w = "w\<lparr>w_draws := w_draws w + 1, w_store := s'\<rparr>"
  have "set_secure C ks k v passphrase w = Done (Ok old, ?w)"
    by (simp add: set_secure_def act_bind_apply(1) [where m = "get_secure C ks k passphrase",
        OF get_secure_holds [OF assms(1,2)]])
      (simp add: act_bind_def encrypt_fresh_def assms(3) on_store_def storage_of [OF assms(1)] s'(1))
  moreover have "has ?w passphrase ks k (Some v)"
    using s' encrypt_sealed [OF cipher [OF assms(1)] assms(3)] by (auto simp: holds_def)
  ultimately show ?thesis using s'(3) by (intro exI [of _ ?w]) simp
qed

lemma set_secure_other:
  assumes "has w passphrase ks k v" "view (w_store w') = (view (w_store w))((ks', k') := b)" "inv (w_store w')"
    and "(ks', k') \<noteq> (ks, k)"
  shows "has w' passphrase ks k v"
  using assms by (cases v) (auto simp: holds_def)

text \<open>Another passphrase gives access neither for reading nor for writing.\<close>

lemma wrong_passphrase:
  assumes "lawful" "has w passphrase ks k (Some v)" "get_algo C passphrase' \<noteq> get_algo C passphrase"
  shows "get_secure C ks k passphrase' w = Done (Err DecryptionError, w)"
    and "set_secure C ks k x passphrase' w = Done (Err DecryptionError, w)"
    and "\<exists>w'. fetch_and_update_secure C ks k passphrase' f w = Done (Err DecryptionError, w') \<and>
      view (w_store w') = view (w_store w)"
proof -
  obtain b where b: "view (w_store w) (ks, k) = Some b" "sealed_as C k passphrase v b" and inv: "inv (w_store w)"
    using assms(2) by (auto simp: holds_def)
  note dec = decrypt_sealed(2) [OF cipher [OF assms(1)] b(2) assms(3)]
  have "on_store (st_get (cl_storage C) ks k) w = Done (Ok (Some b), w)"
    using inv by (simp add: on_store_def storage_of [OF assms(1)] get b(1))
  then show get: "get_secure C ks k passphrase' w = Done (Err DecryptionError, w)"
    by (simp add: get_secure_def decrypt_opt_def dec)
  then show "set_secure C ks k x passphrase' w = Done (Err DecryptionError, w)"
    by (simp add: set_secure_def)
  have "secure_update C k passphrase' f (w_draws w) (view (w_store w) (ks, k)) = Done (Err DecryptionError)"
    by (simp add: secure_update_def b(1) decrypt_opt_def dec)
  from update_Err [where f = "secure_update C k passphrase' f (w_draws w)", OF inv this] obtain s' where
    "st_fetch_and_update S ks k (secure_update C k passphrase' f (w_draws w)) (w_store w) = Done (Err DecryptionError, s')"
    "view s' = view (w_store w)" by (elim exE conjE)
  then show "\<exists>w'. fetch_and_update_secure C ks k passphrase' f w = Done (Err DecryptionError, w') \<and>
      view (w_store w') = view (w_store w)"
    by (simp add: fetch_and_update_secure_def on_store_def storage_of [OF assms(1)])
qed

text \<open>An update sees the plain value; its result is sealed again.\<close>

lemma secure_update_holds:
  assumes "lawful" "has w passphrase ks k v"
  shows "secure_update C k passphrase f i (view (w_store w) (ks, k)) =
    try_run (f v) (\<lambda>next. case next of None \<Rightarrow> Done (Ok None)
      | Some x \<Rightarrow> Done (map_sum id Some (encrypt_bytes C k passphrase x i)))"
proof (cases v)
  case None
  then show ?thesis using assms(2) by (simp add: secure_update_def holds_def decrypt_opt_def)
next
  case (Some x)
  then obtain b where "view (w_store w) (ks, k) = Some b" "sealed_as C k passphrase x b"
    using assms(2) by (auto simp: holds_def)
  then show ?thesis using decrypt_sealed(1) [OF cipher [OF assms(1)]]
    by (simp add: secure_update_def decrypt_opt_def Some)
qed

lemma update_secure_Ok:
  assumes "lawful" "has w passphrase ks k v" "f v = Done (Ok (Some x))"
    and "encrypt_bytes C k passphrase x (w_draws w) = Ok b"
  shows "\<exists>w'. fetch_and_update_secure C ks k passphrase f w = Done (Ok (view (w_store w) (ks, k)), w') \<and>
    has w' passphrase ks k (Some x) \<and> view (w_store w') = (view (w_store w))((ks, k) \<mapsto> b)"
proof -
  have inv: "inv (w_store w)" using assms(2) by (simp add: holds_def)
  have "secure_update C k passphrase f (w_draws w) (view (w_store w) (ks, k)) = Done (Ok (Some b))"
    using secure_update_holds [OF assms(1,2)] by (simp add: assms(3,4))
  from update_Ok [where f = "secure_update C k passphrase f (w_draws w)", OF inv this] obtain s' where s':
    "st_fetch_and_update S ks k (secure_update C k passphrase f (w_draws w)) (w_store w) =
      Done (Ok (view (w_store w) (ks, k)), s')" "inv s'" "view s' = (view (w_store w))((ks, k) := Some b)"
    by (elim exE conjE)
  then show ?thesis
    using encrypt_sealed [OF cipher [OF assms(1)] assms(4)]
    by (intro exI [of _ "w\<lparr>w_draws := w_draws w + 1, w_store := s'\<rparr>"])
      (auto simp: fetch_and_update_secure_def on_store_def storage_of [OF assms(1)] holds_def)
qed

lemma update_secure_Err:
  assumes "lawful" "has w passphrase ks k v" "f v = Done (Err e)"
  shows "\<exists>w'. fetch_and_update_secure C ks k passphrase f w = Done (Err e, w') \<and>
    inv (w_store w') \<and> view (w_store w') = view (w_store w)"
proof -
  have inv: "inv (w_store w)" using assms(2) by (simp add: holds_def)
  have "secure_update C k passphrase f (w_draws w) (view (w_store w) (ks, k)) = Done (Err e)"
    using secure_update_holds [OF assms(1,2)] by (simp add: assms(3))
  from update_Err [where f = "secure_update C k passphrase f (w_draws w)", OF inv this] obtain s' where
    "st_fetch_and_update S ks k (secure_update C k passphrase f (w_draws w)) (w_store w) = Done (Err e, s')"
    "inv s'" "view s' = view (w_store w)" by (elim exE conjE)
  then show ?thesis
    by (intro exI [of _ "w\<lparr>w_draws := w_draws w + 1, w_store := s'\<rparr>"])
      (simp add: fetch_and_update_secure_def on_store_def storage_of [OF assms(1)])
qed

end

interpretation mem_secure: secure_storage memory_storage mem_view mem_inv C
  "cl_storage C = memory_storage \<and> cipher_ok C" for C
  by unfold_locales simp_all

text \<open>
  C23: Encrypted storage keeps a value for the holder of the passphrase.  After a
  value was stored under a key that was free or stored with the same passphrase, it
  is read back with that passphrase; with a passphrase of another hash, reading it,
  overwriting it and updating it fail with a decryption error, and nothing stored
  changes.
\<close>

theorem secure_storage_protects:
  assumes "cl_storage C = memory_storage" "cipher_ok C" "holds C mem_view mem_inv w p ks k old"
    and "encrypt_bytes C k p v (w_draws w) = Ok b"
  shows "\<exists>w'. set_secure C ks k v p w = Done (Ok old, w') \<and> get_secure C ks k p w' = Done (Ok (Some v), w') \<and>
    mem_view (w_store w') = (mem_view (w_store w))((ks, k) \<mapsto> b) \<and>
    (\<forall>p'. get_algo C p' \<noteq> get_algo C p \<longrightarrow>
       get_secure C ks k p' w' = Done (Err DecryptionError, w') \<and>
       set_secure C ks k x p' w' = Done (Err DecryptionError, w') \<and>
       (\<exists>w''. fetch_and_update_secure C ks k p' f w' = Done (Err DecryptionError, w'') \<and>
          mem_view (w_store w'') = mem_view (w_store w')))"
proof -
  have laws: "cl_storage C = memory_storage \<and> cipher_ok C" using assms(1,2) by blast
  from mem_secure.set_secure_holds [OF laws assms(3,4)] obtain w' where w':
    "set_secure C ks k v p w = Done (Ok old, w')" "holds C mem_view mem_inv w' p ks k (Some v)"
    "mem_view (w_store w') = (mem_view (w_store w))((ks, k) \<mapsto> b)" by (elim exE conjE)
  note wrong = mem_secure.wrong_passphrase [OF laws w'(2)]
  show ?thesis
    using w'(1,3) mem_secure.get_secure_holds [OF laws w'(2)] wrong by (intro exI [of _ w']) simp
qed

section \<open>A concrete cipher\<close>

definition pair_code :: "bytes \<Rightarrow> bytes \<Rightarrow> bytes" where
  "pair_code k m = replicate (length k) 1 @ [0] @ k @ m"

definition pair_decode :: "bytes \<Rightarrow> bytes \<times> bytes" where
  "pair_decode b = (let n = length (takeWhile ((=) 1) b); rest = drop (n + 1) b in (take n rest, drop n rest))"

lemma pair_decode_code [simp]: "pair_decode (pair_code k m) = (k, m)"
proof -
  have "takeWhile ((=) 1) (replicate n 1 @ 0 # ys) = replicate n (1 :: u8)" for n ys by (induction n) simp_all
  then show ?thesis by (simp add: pair_code_def pair_decode_def Let_def)
qed

definition sample_client_env :: "memory client_env" where
  "sample_client_env = \<lparr>cl_storage = memory_storage, cl_hash = (\<lambda>b. b), cl_random = (\<lambda>i n. replicate n 0),
     cl_seal = (\<lambda>k n m a. Some (pair_code k m)),
     cl_open = (\<lambda>k n c a. if fst (pair_decode c) = k then Some (snd (pair_decode c)) else None)\<rparr>"

definition sample_world :: "memory world" where
  "sample_world = \<lparr>w_store = [], w_draws = 0\<rparr>"

lemma sample_client: "cl_storage sample_client_env = memory_storage" "cipher_ok sample_client_env"
  "get_algo sample_client_env p = p" "mem_inv []"
  by (auto simp: sample_client_env_def cipher_ok_def get_algo_def mem_inv_def bm_wf_def bm_get_def)

lemma sample_world_holds: "holds sample_client_env mem_view mem_inv sample_world p ks k None"
  using sample_client(4) by (simp add: holds_def sample_world_def mem_view_def mem_space_def bm_get_def bm_new_def)

lemma sample_encrypts: "\<exists>b. encrypt_bytes sample_client_env k p v i = Ok b"
  by (simp add: encrypt_bytes_def sample_client_env_def)

theorem secure_storage_protects_witness:
  "\<exists>w'. set_secure sample_client_env [1] [2] [3] [4] sample_world = Done (Ok None, w') \<and>
    get_secure sample_client_env [1] [2] [4] w' = Done (Ok (Some [3]), w') \<and>
    get_secure sample_client_env [1] [2] [5] w' = Done (Err DecryptionError, w')"
proof -
  obtain b where "encrypt_bytes sample_client_env [2] [4] [3] (w_draws sample_world) = Ok b"
    using sample_encrypts by blast
  from secure_storage_protects [where x = "[]" and f = "\<lambda>v. Done (Ok v)",
      OF sample_client(1,2) sample_world_holds this, of "[1]"] show ?thesis
    by (elim exE) (auto simp: sample_client(3))
qed

end
