(* ===== verification/HD_Wallet.thy ===== *)
theory HD_Wallet
  imports Decimal_Text Client_Storage
begin

text \<open>
  Hierarchical deterministic keys (client-core/src/hd_wallet and hd_seed.rs, and the
  network types of chain-core/src/init/network.rs): key indices, the textual key
  paths, the derivation of private and public child keys, and the key pair of an
  address.  HMAC-SHA512 and the arithmetic of secp256k1 are parameters.  Strings are
  the bytes of their UTF-8 encoding.
\<close>

section \<open>Networks\<close>

datatype network = Mainnet | Testnet | Devnet

fun get_bip44_coin_type_from_network :: "network \<Rightarrow> u32" where
  "get_bip44_coin_type_from_network Mainnet = 394"
| "get_bip44_coin_type_from_network Testnet = 1"
| "get_bip44_coin_type_from_network Devnet = 1"

fun get_bech32_human_part_from_network :: "network \<Rightarrow> string" where
  "get_bech32_human_part_from_network Mainnet = ''cro''"
| "get_bech32_human_part_from_network Testnet = ''tcro''"
| "get_bech32_human_part_from_network Devnet = ''dcro''"

datatype address_type = TransferAddress | StakingAddress

section \<open>Key indices\<close>

datatype key_index = Normal u32 | Hardened u32

datatype chain_path_error = PathInvalid | PathBlank | PathIndexOutOfRange

datatype hd_error = KeyIndexOutOfRange | ChainPathError chain_path_error | SecpError

definition HARDENED_KEY_START_INDEX :: u32 where "HARDENED_KEY_START_INDEX = 2147483648"

fun raw_index :: "key_index \<Rightarrow> u32" where
  "raw_index (Normal i) = i"
| "raw_index (Hardened i) = i"

fun normalize_index :: "key_index \<Rightarrow> u32" where
  "normalize_index (Normal i) = i"
| "normalize_index (Hardened i) = i - HARDENED_KEY_START_INDEX"

fun key_index_valid :: "key_index \<Rightarrow> bool" where
  "key_index_valid (Normal i) \<longleftrightarrow> i < HARDENED_KEY_START_INDEX"
| "key_index_valid (Hardened i) \<longleftrightarrow> i \<ge> HARDENED_KEY_START_INDEX"

definition hardened_from_normalize_index :: "u32 \<Rightarrow> hd_error + key_index" where
  "hardened_from_normalize_index i =
     (if i < HARDENED_KEY_START_INDEX then Ok (Hardened (HARDENED_KEY_START_INDEX + i)) else Ok (Hardened i))"

definition from_index :: "u32 \<Rightarrow> hd_error + key_index" where
  "from_index i = (if i < HARDENED_KEY_START_INDEX then Ok (Normal i) else Ok (Hardened i))"

section \<open>Key paths\<close>

datatype sub_path = Root | Child key_index

text \<open>\<open>str::parse::<u32>\<close> and \<open>str::split_terminator\<close>.\<close>

definition parse_u32 :: "string \<Rightarrow> u32 option" where
  "parse_u32 s = (let ds = (case s of [] \<Rightarrow> [] | c # cs \<Rightarrow> if c = CHR ''+'' then cs else s) in
     if ds = [] \<or> \<not> list_all is_digit ds then None
     else if digits_val ds < 2 ^ 32 then Some (of_nat (digits_val ds)) else None)"

definition split_terminator :: "char \<Rightarrow> string \<Rightarrow> string list" where
  "split_terminator c s = (let ps = split_on c s in if last ps = [] then butlast ps else ps)"

text \<open>
  One part of a path.  Taking the last byte of a part as a string panics when it is
  not a character of its own.
\<close>

definition parse_sub_path :: "string \<Rightarrow> (chain_path_error + sub_path) run" where
  "parse_sub_path p =
     (if p = ''m'' then Done (Ok Root)
      else if p = [] then Done (Err PathBlank)
      else if (of_char (last p) :: nat) \<ge> 128 then Panic ''byte index is not a char boundary''
      else if last p = CHR ''H'' \<or> last p = CHR 0x27
        then Done (and_then (ok_or (parse_u32 (butlast p)) PathInvalid) (\<lambda>i.
          and_then (map_err (\<lambda>_. PathIndexOutOfRange) (hardened_from_normalize_index i)) (\<lambda>k. Ok (Child k))))
        else Done (and_then (ok_or (parse_u32 p) PathInvalid) (\<lambda>i.
          and_then (map_err (\<lambda>_. PathIndexOutOfRange) (from_index i)) (\<lambda>k. Ok (Child k)))))"

section \<open>Extended keys\<close>

record hd_ext =
  hmac_sha512 :: "bytes \<Rightarrow> bytes \<Rightarrow> bytes"
  sk_from_slice :: "bytes \<Rightarrow> bytes option"
  sk_add :: "bytes \<Rightarrow> bytes \<Rightarrow> bytes option"
  pk_of_sk :: "bytes \<Rightarrow> bytes"
  pk_compressed :: "bytes \<Rightarrow> bytes"
  hd_pk_from_slice :: "bytes \<Rightarrow> bytes option"
  pk_add_exp :: "bytes \<Rightarrow> bytes \<Rightarrow> bytes option"

record extended_priv_key =
  private_key :: bytes
  priv_chain_code :: bytes

record extended_pub_key =
  hd_public_key :: bytes
  pub_chain_code :: bytes

definition u32_be_bytes :: "u32 \<Rightarrow> bytes" where
  "u32_be_bytes w = [ucast (drop_bit 24 w), ucast (drop_bit 16 w), ucast (drop_bit 8 w), ucast w]"

definition split_half :: "bytes \<Rightarrow> bytes \<times> bytes" where
  "split_half b = (take (length b div 2) b, drop (length b div 2) b)"

definition with_seed :: "hd_ext \<Rightarrow> bytes \<Rightarrow> hd_error + extended_priv_key" where
  "with_seed H seed = (case split_half (hmac_sha512 H (map of_char ''Bitcoin seed'') seed) of (key, chain_code) \<Rightarrow>
     and_then (ok_or (sk_from_slice H key) SecpError) (\<lambda>sk.
     Ok \<lparr>private_key = sk, priv_chain_code = chain_code\<rparr>))"

definition sign_hardended_key :: "hd_ext \<Rightarrow> extended_priv_key \<Rightarrow> u32 \<Rightarrow> bytes" where
  "sign_hardended_key H k i = hmac_sha512 H (priv_chain_code k) ([0] @ private_key k @ u32_be_bytes i)"

definition sign_normal_key :: "hd_ext \<Rightarrow> extended_priv_key \<Rightarrow> u32 \<Rightarrow> bytes" where
  "sign_normal_key H k i =
     hmac_sha512 H (priv_chain_code k) (pk_compressed H (pk_of_sk H (private_key k)) @ u32_be_bytes i)"

definition derive_private_key :: "hd_ext \<Rightarrow> extended_priv_key \<Rightarrow> key_index \<Rightarrow> hd_error + extended_priv_key" where
  "derive_private_key H k ix =
     (if \<not> key_index_valid ix then Err KeyIndexOutOfRange
      else (case split_half (case ix of Hardened i \<Rightarrow> sign_hardended_key H k i | Normal i \<Rightarrow> sign_normal_key H k i) of
        (key, chain_code) \<Rightarrow>
          and_then (ok_or (sk_from_slice H key) SecpError) (\<lambda>sk.
          and_then (ok_or (sk_add H sk (private_key k)) SecpError) (\<lambda>child.
          Ok \<lparr>private_key = child, priv_chain_code = chain_code\<rparr>))))"

definition derive_public_key :: "hd_ext \<Rightarrow> extended_pub_key \<Rightarrow> key_index \<Rightarrow> hd_error + extended_pub_key" where
  "derive_public_key H k ix =
     (if \<not> key_index_valid ix then Err KeyIndexOutOfRange
      else (case ix of
        Hardened i \<Rightarrow> Err KeyIndexOutOfRange
      | Normal i \<Rightarrow> (case split_half (hmac_sha512 H (pub_chain_code k)
            (pk_compressed H (hd_public_key k) @ u32_be_bytes i)) of (key, chain_code) \<Rightarrow>
          and_then (ok_or (sk_from_slice H key) SecpError) (\<lambda>sk.
          and_then (ok_or (pk_add_exp H (hd_public_key k) sk) SecpError) (\<lambda>child.
          Ok \<lparr>hd_public_key = child, pub_chain_code = chain_code\<rparr>)))))"

definition from_private_key :: "hd_ext \<Rightarrow> extended_priv_key \<Rightarrow> extended_pub_key" where
  "from_private_key H k = \<lparr>hd_public_key = pk_of_sk H (private_key k), pub_chain_code = priv_chain_code k\<rparr>"

definition priv_serialize :: "extended_priv_key \<Rightarrow> bytes" where
  "priv_serialize k = private_key k @ priv_chain_code k"

definition priv_deserialize :: "hd_ext \<Rightarrow> bytes \<Rightarrow> (hd_error + extended_priv_key) run" where
  "priv_deserialize H b =
     (if length b < 32 then Panic ''range end index out of range''
      else Done (and_then (ok_or (sk_from_slice H (take 32 b)) SecpError) (\<lambda>sk.
        Ok \<lparr>private_key = sk, priv_chain_code = drop 32 b\<rparr>)))"

definition pub_serialize :: "hd_ext \<Rightarrow> extended_pub_key \<Rightarrow> bytes" where
  "pub_serialize H k = pk_compressed H (hd_public_key k) @ pub_chain_code k"

definition pub_deserialize :: "hd_ext \<Rightarrow> bytes \<Rightarrow> (hd_error + extended_pub_key) run" where
  "pub_deserialize H b =
     (if length b < 33 then Panic ''range end index out of range''
      else Done (and_then (ok_or (hd_pk_from_slice H (take 33 b)) SecpError) (\<lambda>pk.
        Ok \<lparr>hd_public_key = pk, pub_chain_code = drop 33 b\<rparr>)))"

section \<open>Key chains\<close>

record derivation =
  depth :: u8
  parent_key :: "extended_priv_key option"
  dv_key_index :: "key_index option"

definition derivation_master :: derivation where
  "derivation_master = \<lparr>depth = 0, parent_key = None, dv_key_index = None\<rparr>"

fun derive_loop ::
    "hd_ext \<Rightarrow> string list \<Rightarrow> extended_priv_key \<times> derivation \<Rightarrow> (hd_error + extended_priv_key \<times> derivation) run" where
  "derive_loop H [] (key, d) = Done (Ok (key, d))"
| "derive_loop H (p # ps) (key, d) =
     try_run (run_bind (parse_sub_path p) (\<lambda>r. Done (map_err ChainPathError r))) (\<lambda>sub.
     case sub of
       Root \<Rightarrow> Done (Err (ChainPathError PathInvalid))
     | Child ix \<Rightarrow> (case derive_private_key H key ix of
         Inl e \<Rightarrow> Done (Err e)
       | Inr child \<Rightarrow> derive_loop H ps
           (child, \<lparr>depth = depth d + 1, parent_key = Some key, dv_key_index = Some ix\<rparr>)))"

definition chain_derive :: "hd_ext \<Rightarrow> extended_priv_key \<Rightarrow> string \<Rightarrow> (hd_error + extended_priv_key \<times> derivation) run" where
  "chain_derive H master_key path = (case split_terminator (CHR ''/'') path of
     [] \<Rightarrow> Done (Err (ChainPathError PathInvalid))
   | p # ps \<Rightarrow> run_bind (parse_sub_path p) (\<lambda>r.
       if r \<noteq> Ok Root then Done (Err (ChainPathError PathInvalid))
       else derive_loop H ps (master_key, derivation_master)))"

fun account_index :: "address_type \<Rightarrow> u32" where
  "account_index TransferAddress = 0"
| "account_index StakingAddress = 1"

definition hd_path :: "network \<Rightarrow> address_type \<Rightarrow> u32 \<Rightarrow> string" where
  "hd_path network ty index =
     ''m/44'' @ [CHR 0x27] @ ''/'' @ dec_str (unat (get_bip44_coin_type_from_network network)) @ [CHR 0x27] @ ''/'' @
     dec_str (unat (account_index ty)) @ [CHR 0x27] @ ''/0/'' @ dec_str (unat index)"

definition derive_key_pair ::
    "hd_ext \<Rightarrow> bytes \<Rightarrow> network \<Rightarrow> address_type \<Rightarrow> u32 \<Rightarrow> (error_kind + bytes \<times> bytes) run" where
  "derive_key_pair H seed network ty index =
     (case with_seed H seed of
        Inl e \<Rightarrow> Done (Err InternalError)
      | Inr master \<Rightarrow> run_bind (chain_derive H master (hd_path network ty index)) (\<lambda>r.
          Done (case r of
            Inl e \<Rightarrow> Err InternalError
          | Inr (key, d) \<Rightarrow> Ok (pk_of_sk H (private_key key), private_key key))))"

section \<open>Properties of paths\<close>

lemma parse_u32_dec_str [simp]: "parse_u32 (dec_str (unat w)) = Some w"
proof -
  obtain c cs where s: "dec_str (unat w) = c # cs" by (cases "dec_str (unat w)") auto
  then have "c \<noteq> CHR ''+''"
    using all_digits_dec_str [of "unat w"] is_digit_not_plus [of c] by simp
  then show ?thesis
    using s unat_bound [of w] all_digits_dec_str [of "unat w"] digits_val_dec_str [of "unat w"]
    by (simp add: parse_u32_def del: all_digits_dec_str digits_val_dec_str)
qed

lemma last_dec_str: "is_digit (last (dec_str n))"
  using all_digits_dec_str [of n] dec_str_not_Nil [of n] by (metis last_in_set list_all_iff)

lemma is_digit_plain:
  "is_digit c \<Longrightarrow> c \<noteq> CHR ''H'' \<and> c \<noteq> CHR 0x27 \<and> c \<noteq> CHR ''m'' \<and> c \<noteq> CHR ''/'' \<and> (of_char c :: nat) < 128"
  by (auto simp: is_digit_def)

lemma dec_str_not_m: "dec_str n \<noteq> ''m''"
  using last_dec_str [of n] is_digit_plain [of "CHR ''m''"] by auto

lemma parse_normal: "parse_sub_path (dec_str (unat i)) = Done (map_sum (\<lambda>_. PathIndexOutOfRange) Child (from_index i))"
  using last_dec_str [of "unat i"] is_digit_plain [of "last (dec_str (unat i))"]
  by (auto simp: parse_sub_path_def dec_str_not_m from_index_def)

lemma parse_hardened:
  "parse_sub_path (dec_str (unat i) @ [CHR 0x27]) =
   Done (map_sum (\<lambda>_. PathIndexOutOfRange) Child (hardened_from_normalize_index i))"
proof -
  have "dec_str (unat i) @ [CHR 0x27] \<noteq> ''m''" by (auto simp: append_eq_Cons_conv)
  then show ?thesis by (simp add: parse_sub_path_def hardened_from_normalize_index_def)
qed

lemma split_on_cons: "c \<notin> set p \<Longrightarrow> split_on c (p @ c # rest) = p # split_on c rest"
  by (induction p) (auto split: list.splits)

lemma no_slash: "CHR ''/'' \<notin> set (dec_str n)"
  using all_digits_dec_str [of n] is_digit_plain by (auto simp: list_all_iff)

lemma hd_path_parts:
  "split_terminator (CHR ''/'') (hd_path network ty index) =
   [''m'', dec_str (unat (44 :: u32)) @ [CHR 0x27],
    dec_str (unat (get_bip44_coin_type_from_network network)) @ [CHR 0x27],
    dec_str (unat (account_index ty)) @ [CHR 0x27],
    dec_str (unat (0 :: u32)), dec_str (unat index)]"
proof -
  have digits: "dec_str 44 = ''44''" "dec_str 0 = ''0''"
    by (simp_all add: dec_str.simps digit_char_def char_of_def bit_iff_odd)
  define coin where "coin = dec_str (unat (get_bip44_coin_type_from_network network))"
  define account where "account = dec_str (unat (account_index ty))"
  have no: "CHR ''/'' \<notin> set coin" "CHR ''/'' \<notin> set account"
    by (simp_all add: coin_def account_def no_slash)
  have "hd_path network ty index = ''m'' @ CHR ''/'' # (''44'' @ [CHR 0x27]) @ CHR ''/'' # (coin @ [CHR 0x27]) @
      CHR ''/'' # (account @ [CHR 0x27]) @ CHR ''/'' # ''0'' @ CHR ''/'' # dec_str (unat index)"
    by (simp add: hd_path_def coin_def account_def)
  moreover have "split_on (CHR ''/'') \<dots> = [''m'', ''44'' @ [CHR 0x27], coin @ [CHR 0x27], account @ [CHR 0x27], ''0'', dec_str (unat index)]"
    by (subst split_on_cons, use no in \<open>simp; fail\<close>)+ (simp add: split_on_none no_slash)
  ultimately show ?thesis by (simp add: split_terminator_def Let_def digits coin_def account_def)
qed


text \<open>The derivation along a list of key indices.\<close>

fun derive_indices :: "hd_ext \<Rightarrow> key_index list \<Rightarrow> extended_priv_key \<Rightarrow> hd_error + extended_priv_key" where
  "derive_indices H [] k = Ok k"
| "derive_indices H (ix # ixs) k = and_then (derive_private_key H k ix) (derive_indices H ixs)"

lemma derive_loop_indices:
  "map parse_sub_path ps = map (\<lambda>ix. Done (Ok (Child ix))) ixs \<Longrightarrow>
   run_bind (derive_loop H ps (k, d)) (\<lambda>r. Done (map_sum id fst r)) = Done (derive_indices H ixs k)"
proof (induction ixs arbitrary: ps k d)
  case Nil
  then show ?case by simp
next
  case (Cons ix ixs)
  then obtain p qs where ps: "ps = p # qs" "parse_sub_path p = Done (Ok (Child ix))"
    "map parse_sub_path qs = map (\<lambda>ix. Done (Ok (Child ix))) ixs" by auto
  show ?case
  proof (cases "derive_private_key H k ix")
    case (Inl e)
    then show ?thesis using ps by (simp add: try_run_def)
  next
    case (Inr child)
    then show ?thesis using ps Cons.IH [OF ps(3)] by (simp add: try_run_def)
  qed
qed

definition bip44_indices :: "network \<Rightarrow> address_type \<Rightarrow> u32 \<Rightarrow> key_index list" where
  "bip44_indices network ty index =
     [Hardened (2 ^ 31 + 44), Hardened (2 ^ 31 + get_bip44_coin_type_from_network network),
      Hardened (2 ^ 31 + account_index ty), Normal 0,
      if index < 2 ^ 31 then Normal index else Hardened index]"

lemma hd_path_indices:
  "map parse_sub_path (tl (split_terminator (CHR ''/'') (hd_path network ty index))) =
   map (\<lambda>ix. Done (Ok (Child ix))) (bip44_indices network ty index)"
proof -
  have small: "get_bip44_coin_type_from_network network < HARDENED_KEY_START_INDEX"
    "account_index ty < HARDENED_KEY_START_INDEX"
    by (cases network; simp add: HARDENED_KEY_START_INDEX_def) (cases ty; simp add: HARDENED_KEY_START_INDEX_def)
  show ?thesis
    using small unfolding hd_path_parts bip44_indices_def
    by (simp only: list.sel list.map parse_normal parse_hardened)
      (simp add: from_index_def hardened_from_normalize_index_def HARDENED_KEY_START_INDEX_def)
qed

lemma derive_key_pair_eq:
  "derive_key_pair H seed network ty index =
   Done (map_sum (\<lambda>_. InternalError) (\<lambda>k. (pk_of_sk H (private_key k), private_key k))
     (and_then (with_seed H seed) (derive_indices H (bip44_indices network ty index))))"
proof (cases "with_seed H seed")
  case (Inl e)
  then show ?thesis by (simp add: derive_key_pair_def)
next
  case (Inr master)
  define ps where "ps = tl (split_terminator (CHR ''/'') (hd_path network ty index))"
  have parts: "split_terminator (CHR ''/'') (hd_path network ty index) = ''m'' # ps"
    by (simp add: ps_def hd_path_parts)
  have "chain_derive H master (hd_path network ty index) = derive_loop H ps (master, derivation_master)"
    by (simp add: chain_derive_def parts parse_sub_path_def)
  moreover have "run_bind (derive_loop H ps (master, derivation_master)) (\<lambda>r. Done (map_sum id fst r)) =
      Done (derive_indices H (bip44_indices network ty index) master)"
    unfolding ps_def by (rule derive_loop_indices [OF hd_path_indices])
  then obtain r where r: "derive_loop H ps (master, derivation_master) = Done r"
      "map_sum id fst r = derive_indices H (bip44_indices network ty index) master"
    by (cases "derive_loop H ps (master, derivation_master)") auto
  ultimately show ?thesis
    using Inr by (cases r) (auto simp: derive_key_pair_def simp flip: r(2))
qed

text \<open>
  C27: the key pair of an address is the pair at the BIP-44 path of its network,
  account and index: the path that \<open>derive_key_pair\<close> prints is parsed back without a
  panic or a path error, so that the key is derived along the hardened purpose 44,
  coin type and account, the normal change index 0 and the address index, an error of
  a derivation step being an internal error.  An address index of 2^31 or more is
  derived as a hardened key.
\<close>

theorem derive_key_pair_bip44:
  "derive_key_pair H seed network ty index =
   Done (map_sum (\<lambda>_. InternalError) (\<lambda>k. (pk_of_sk H (private_key k), private_key k))
     (and_then (with_seed H seed) (derive_indices H (bip44_indices network ty index))))"
  by (rule derive_key_pair_eq)

lemma derive_key_pair_returns: "\<exists>r. derive_key_pair H seed network ty index = Done r"
  by (simp add: derive_key_pair_eq)

section \<open>Properties of extended keys\<close>

text \<open>
  C26: deriving a child of the public key gives the public key of the derived private
  child, for every normal index, when adding to a public key is the image of adding to
  its secret key; no public child is derived for a hardened index.
\<close>

theorem public_derivation_commutes:
  assumes "\<And>p s. pk_add_exp H (pk_of_sk H p) s = map_option (pk_of_sk H) (sk_add H s p)"
  shows "derive_public_key H (from_private_key H k) (Normal i) =
           map_sum id (from_private_key H) (derive_private_key H k (Normal i)) \<and>
         derive_public_key H (from_private_key H k) (Hardened i) = Err KeyIndexOutOfRange"
  using assms
  by (auto simp: derive_public_key_def derive_private_key_def from_private_key_def sign_normal_key_def
      ok_or_def and_then_def split: prod.split option.split)

definition sample_hd :: hd_ext where
  "sample_hd = \<lparr>hmac_sha512 = (\<lambda>k m. k @ m), sk_from_slice = Some, sk_add = (\<lambda>s p. if s = p then None else Some (s @ p)),
     pk_of_sk = (\<lambda>s. s), pk_compressed = (\<lambda>p. p), hd_pk_from_slice = Some,
     pk_add_exp = (\<lambda>p s. if s = p then None else Some (s @ p))\<rparr>"

theorem public_derivation_commutes_witness:
  "derive_public_key sample_hd (from_private_key sample_hd \<lparr>private_key = [1], priv_chain_code = [2]\<rparr>) (Normal 3) =
     Ok \<lparr>hd_public_key = [2, 1, 0, 1], pub_chain_code = [0, 0, 3]\<rparr> \<and>
   derive_public_key sample_hd (from_private_key sample_hd \<lparr>private_key = [1], priv_chain_code = [2]\<rparr>)
     (Hardened 2147483649) = Err KeyIndexOutOfRange"
  using public_derivation_commutes [of sample_hd "\<lparr>private_key = [1], priv_chain_code = [2]\<rparr>" 3]
    public_derivation_commutes [of sample_hd "\<lparr>private_key = [1], priv_chain_code = [2]\<rparr>" 2147483649]
  by (simp add: sample_hd_def derive_private_key_def from_private_key_def sign_normal_key_def split_half_def
      u32_be_bytes_def HARDENED_KEY_START_INDEX_def)

lemma priv_serialize_roundtrip:
  "length (private_key k) = 32 \<Longrightarrow> sk_from_slice H (private_key k) = Some (private_key k) \<Longrightarrow>
   priv_deserialize H (priv_serialize k) = Done (Ok k)"
  by (simp add: priv_serialize_def priv_deserialize_def)

lemma pub_serialize_roundtrip:
  "length (pk_compressed H (hd_public_key k)) = 33 \<Longrightarrow>
   hd_pk_from_slice H (pk_compressed H (hd_public_key k)) = Some (hd_public_key k) \<Longrightarrow>
   pub_deserialize H (pub_serialize H k) = Done (Ok k)"
  by (simp add: pub_serialize_def pub_deserialize_def)

lemma normalize_hardened:
  "i < HARDENED_KEY_START_INDEX \<Longrightarrow> map_sum id normalize_index (hardened_from_normalize_index i) = Ok i"
  by (simp add: hardened_from_normalize_index_def)

lemma key_indices_valid:
  "hardened_from_normalize_index i = Ok ix \<Longrightarrow> key_index_valid ix"
  "from_index i = Ok ix \<Longrightarrow> key_index_valid ix"
  by (auto simp: hardened_from_normalize_index_def from_index_def HARDENED_KEY_START_INDEX_def word_le_nat_alt
      word_less_nat_alt unat_word_ariths split: if_splits)

end
