(* ===== verification/Wallet_Service.thy ===== *)
theory Wallet_Service
  imports HD_Wallet Tx_Types "HOL-Library.Countable"
begin

text \<open>
  The services that keep the keys of the wallets of a client in the encrypted storage
  (client-core/src/service): the wallets themselves (wallet_service.rs), the private
  keys (key_service.rs), the seeds and indices of deterministic wallets
  (hd_key_service.rs) and the synchronisation state (sync_state_service.rs).  A
  \<open>BTreeSet\<close> is an ordered map to the unit type.  The codec derived for a stored type
  is a parameter.
\<close>

section \<open>Types\<close>

instantiation extended_addr :: linorder
begin

fun less_eq_extended_addr :: "extended_addr \<Rightarrow> extended_addr \<Rightarrow> bool" where
  "less_eq_extended_addr (OrTree a) (OrTree b) \<longleftrightarrow> a \<le> b"

fun less_extended_addr :: "extended_addr \<Rightarrow> extended_addr \<Rightarrow> bool" where
  "less_extended_addr (OrTree a) (OrTree b) \<longleftrightarrow> a < b"

instance
proof
  fix x y z :: extended_addr
  show "(x < y) = (x \<le> y \<and> \<not> y \<le> x)" by (cases x; cases y) auto
  show "x \<le> x" by (cases x) auto
  show "x \<le> y \<Longrightarrow> y \<le> z \<Longrightarrow> x \<le> z" by (cases x; cases y; cases z) auto
  show "x \<le> y \<Longrightarrow> y \<le> x \<Longrightarrow> x = y" by (cases x; cases y) auto
  show "x \<le> y \<or> y \<le> x" by (cases x; cases y) auto
qed

end

record 'a codec =
  enc_of :: "'a \<Rightarrow> bytes"
  dec_of :: "bytes \<Rightarrow> 'a option"

definition codec_ok :: "'a codec \<Rightarrow> bool" where
  "codec_ok D \<longleftrightarrow> (\<forall>x. dec_of D (enc_of D x) = Some x)"

type_synonym 'k btset = "('k, unit) btm"

record wallet =
  wl_view_key :: public_key
  public_keys :: "public_key btset"
  staking_keys :: "public_key btset"
  root_hashes :: "h256 btset"

definition str_bytes :: "string \<Rightarrow> bytes" where
  "str_bytes s = map of_char s"

section \<open>Wallets\<close>

definition WALLET_KEYSPACE :: bytes where "WALLET_KEYSPACE = str_bytes ''core_wallet''"

definition wallet_new :: "public_key \<Rightarrow> wallet" where
  "wallet_new vk = \<lparr>wl_view_key = vk, public_keys = bm_new, staking_keys = bm_new, root_hashes = bm_new\<rparr>"

definition wallet_staking_addresses :: "ext \<Rightarrow> wallet \<Rightarrow> staked_address btset" where
  "wallet_staking_addresses E w =
     bm_of_list (map (\<lambda>pk. (BasicRedeem (redeem_address_of_pk E pk), ())) (map fst (staking_keys w)))"

definition wallet_transfer_addresses :: "wallet \<Rightarrow> extended_addr btset" where
  "wallet_transfer_addresses w = bm_of_list (map (\<lambda>h. (OrTree h, ())) (map fst (root_hashes w)))"

definition wallet_find_staking_key :: "ext \<Rightarrow> wallet \<Rightarrow> bytes \<Rightarrow> public_key option" where
  "wallet_find_staking_key E w redeem = find (\<lambda>pk. redeem_address_of_pk E pk = redeem) (map fst (staking_keys w))"

definition wallet_find_root_hash :: "wallet \<Rightarrow> extended_addr \<Rightarrow> h256 option" where
  "wallet_find_root_hash w address = (case address of
     OrTree root \<Rightarrow> find (\<lambda>h. h = root) (map fst (root_hashes w)))"

definition dec_result :: "'a codec \<Rightarrow> bytes \<Rightarrow> unit + 'a" where
  "dec_result D b = ok_or (dec_of D b) ()"

definition load_wallet :: "'st client_env \<Rightarrow> wallet codec \<Rightarrow> bytes \<Rightarrow> bytes \<Rightarrow> ('st world, wallet option) action" where
  "load_wallet C D name passphrase = load_secure C (dec_result D) WALLET_KEYSPACE name passphrase"

definition save_wallet :: "'st client_env \<Rightarrow> wallet codec \<Rightarrow> bytes \<Rightarrow> bytes \<Rightarrow> wallet \<Rightarrow> ('st world, unit) action" where
  "save_wallet C D name passphrase w = save_secure C (enc_of D) WALLET_KEYSPACE name passphrase w"

definition get_wallet :: "'st client_env \<Rightarrow> wallet codec \<Rightarrow> bytes \<Rightarrow> bytes \<Rightarrow> ('st world, wallet) action" where
  "get_wallet C D name passphrase =
     act_bind (load_wallet C D name passphrase) (\<lambda>w. act_result (opt_kind InvalidInput w))"

definition set_wallet :: "'st client_env \<Rightarrow> wallet codec \<Rightarrow> bytes \<Rightarrow> bytes \<Rightarrow> wallet \<Rightarrow> ('st world, unit) action" where
  "set_wallet C D name passphrase w = save_wallet C D name passphrase w"

definition ws_find_staking_key ::
    "'st client_env \<Rightarrow> wallet codec \<Rightarrow> ext \<Rightarrow> bytes \<Rightarrow> bytes \<Rightarrow> bytes \<Rightarrow> ('st world, public_key option) action" where
  "ws_find_staking_key C D E name passphrase redeem =
     act_map (\<lambda>w. wallet_find_staking_key E w redeem) (get_wallet C D name passphrase)"

definition ws_find_root_hash ::
    "'st client_env \<Rightarrow> wallet codec \<Rightarrow> bytes \<Rightarrow> bytes \<Rightarrow> extended_addr \<Rightarrow> ('st world, h256 option) action" where
  "ws_find_root_hash C D name passphrase address =
     act_map (\<lambda>w. wallet_find_root_hash w address) (get_wallet C D name passphrase)"

definition wallet_create :: "'st client_env \<Rightarrow> wallet codec \<Rightarrow> bytes \<Rightarrow> bytes \<Rightarrow> public_key \<Rightarrow> ('st world, unit) action" where
  "wallet_create C D name passphrase vk =
     act_bind (on_store (st_contains_key (cl_storage C) WALLET_KEYSPACE name)) (\<lambda>exists.
     if exists then act_result (Err InvalidInput) else set_wallet C D name passphrase (wallet_new vk))"

definition ws_view_key :: "'st client_env \<Rightarrow> wallet codec \<Rightarrow> bytes \<Rightarrow> bytes \<Rightarrow> ('st world, public_key) action" where
  "ws_view_key C D name passphrase = act_map wl_view_key (get_wallet C D name passphrase)"

definition ws_public_keys :: "'st client_env \<Rightarrow> wallet codec \<Rightarrow> bytes \<Rightarrow> bytes \<Rightarrow> ('st world, public_key btset) action" where
  "ws_public_keys C D name passphrase = act_map public_keys (get_wallet C D name passphrase)"

definition ws_staking_keys :: "'st client_env \<Rightarrow> wallet codec \<Rightarrow> bytes \<Rightarrow> bytes \<Rightarrow> ('st world, public_key btset) action" where
  "ws_staking_keys C D name passphrase = act_map staking_keys (get_wallet C D name passphrase)"

definition ws_root_hashes :: "'st client_env \<Rightarrow> wallet codec \<Rightarrow> bytes \<Rightarrow> bytes \<Rightarrow> ('st world, h256 btset) action" where
  "ws_root_hashes C D name passphrase = act_map root_hashes (get_wallet C D name passphrase)"

definition ws_staking_addresses ::
    "'st client_env \<Rightarrow> wallet codec \<Rightarrow> ext \<Rightarrow> bytes \<Rightarrow> bytes \<Rightarrow> ('st world, staked_address btset) action" where
  "ws_staking_addresses C D E name passphrase = act_map (wallet_staking_addresses E) (get_wallet C D name passphrase)"

definition ws_transfer_addresses ::
    "'st client_env \<Rightarrow> wallet codec \<Rightarrow> bytes \<Rightarrow> bytes \<Rightarrow> ('st world, extended_addr btset) action" where
  "ws_transfer_addresses C D name passphrase = act_map wallet_transfer_addresses (get_wallet C D name passphrase)"

definition wallet_modifier :: "wallet codec \<Rightarrow> (wallet \<Rightarrow> wallet) \<Rightarrow> bytes option \<Rightarrow> (error_kind + bytes option) run" where
  "wallet_modifier D f value = Done (and_then (opt_kind InvalidInput value) (\<lambda>b.
     and_then (opt_kind DeserializationError (dec_of D b)) (\<lambda>w. Ok (Some (enc_of D (f w))))))"

definition modify_wallet ::
    "'st client_env \<Rightarrow> wallet codec \<Rightarrow> bytes \<Rightarrow> bytes \<Rightarrow> (wallet \<Rightarrow> wallet) \<Rightarrow> ('st world, unit) action" where
  "modify_wallet C D name passphrase f =
     act_map (\<lambda>_. ()) (fetch_and_update_secure C WALLET_KEYSPACE name passphrase (wallet_modifier D f))"

definition add_public_key :: "'st client_env \<Rightarrow> wallet codec \<Rightarrow> bytes \<Rightarrow> bytes \<Rightarrow> public_key \<Rightarrow> ('st world, unit) action" where
  "add_public_key C D name passphrase pk =
     modify_wallet C D name passphrase (\<lambda>w. w\<lparr>public_keys := bm_insert pk () (public_keys w)\<rparr>)"

definition add_staking_key :: "'st client_env \<Rightarrow> wallet codec \<Rightarrow> bytes \<Rightarrow> bytes \<Rightarrow> public_key \<Rightarrow> ('st world, unit) action" where
  "add_staking_key C D name passphrase pk =
     modify_wallet C D name passphrase (\<lambda>w. w\<lparr>staking_keys := bm_insert pk () (staking_keys w)\<rparr>)"

definition add_root_hash :: "'st client_env \<Rightarrow> wallet codec \<Rightarrow> bytes \<Rightarrow> bytes \<Rightarrow> h256 \<Rightarrow> ('st world, unit) action" where
  "add_root_hash C D name passphrase h =
     modify_wallet C D name passphrase (\<lambda>w. w\<lparr>root_hashes := bm_insert h () (root_hashes w)\<rparr>)"

text \<open>A name is kept as the bytes of its encoding, which always decode.\<close>

definition wallet_names :: "'st client_env \<Rightarrow> ('st world, bytes list) action" where
  "wallet_names C = on_store (st_keys (cl_storage C) WALLET_KEYSPACE)"

definition wallet_clear :: "'st client_env \<Rightarrow> ('st world, unit) action" where
  "wallet_clear C = on_store (st_clear (cl_storage C) WALLET_KEYSPACE)"

section \<open>Private keys\<close>

definition KEY_KEYSPACE :: bytes where "KEY_KEYSPACE = str_bytes ''core_key''"

definition add_keypair :: "'st client_env \<Rightarrow> ext \<Rightarrow> bytes \<Rightarrow> public_key \<Rightarrow> bytes \<Rightarrow> ('st world, unit) action" where
  "add_keypair C E sk pk passphrase =
     act_map (\<lambda>_. ()) (set_secure C KEY_KEYSPACE (pk_uncompressed E pk) sk passphrase)"

definition private_key_of ::
    "'st client_env \<Rightarrow> ext \<Rightarrow> hd_ext \<Rightarrow> public_key \<Rightarrow> bytes \<Rightarrow> ('st world, bytes option) action" where
  "private_key_of C E H pk passphrase =
     act_bind (get_secure C KEY_KEYSPACE (pk_uncompressed E pk) passphrase) (\<lambda>v. act_result (case v of
       None \<Rightarrow> Ok None | Some b \<Rightarrow> map_sum id Some (opt_kind DeserializationError (sk_from_slice H b))))"

definition key_clear :: "'st client_env \<Rightarrow> ('st world, unit) action" where
  "key_clear C = on_store (st_clear (cl_storage C) KEY_KEYSPACE)"

section \<open>Deterministic wallets\<close>

definition HD_KEYSPACE :: bytes where "HD_KEYSPACE = str_bytes ''core_hd_key''"

record hd_key =
  staking_index :: u32
  transfer_index :: u32
  hd_seed :: bytes

definition hd_has_wallet :: "'st client_env \<Rightarrow> bytes \<Rightarrow> ('st world, bool) action" where
  "hd_has_wallet C name = on_store (st_contains_key (cl_storage C) HD_KEYSPACE name)"

definition add_mnemonic :: "'st client_env \<Rightarrow> hd_key codec \<Rightarrow> bytes \<Rightarrow> bytes \<Rightarrow> bytes \<Rightarrow> ('st world, unit) action" where
  "add_mnemonic C D name seed passphrase =
     act_bind (on_store (st_get (cl_storage C) HD_KEYSPACE name)) (\<lambda>v.
     if v \<noteq> None then act_result (Err InvalidInput)
     else act_map (\<lambda>_. ()) (set_secure C HD_KEYSPACE name
       (enc_of D \<lparr>staking_index = 0, transfer_index = 0, hd_seed = seed\<rparr>) passphrase))"

fun hd_index :: "address_type \<Rightarrow> hd_key \<Rightarrow> u32" where
  "hd_index TransferAddress k = transfer_index k"
| "hd_index StakingAddress k = staking_index k"

fun hd_advance :: "address_type \<Rightarrow> hd_key \<Rightarrow> hd_key" where
  "hd_advance StakingAddress k = k\<lparr>staking_index := staking_index k + 1\<rparr>"
| "hd_advance TransferAddress k = k\<lparr>transfer_index := transfer_index k + 1\<rparr>"

definition hd_modifier :: "hd_key codec \<Rightarrow> address_type \<Rightarrow> bytes option \<Rightarrow> (error_kind + bytes option) run" where
  "hd_modifier D ty value = Done (and_then (opt_kind InvalidInput value) (\<lambda>b.
     and_then (opt_kind DeserializationError (dec_of D b)) (\<lambda>k. Ok (Some (enc_of D (hd_advance ty k))))))"

definition generate_keypair ::
    "'st client_env \<Rightarrow> hd_key codec \<Rightarrow> hd_ext \<Rightarrow> network \<Rightarrow> bytes \<Rightarrow> bytes \<Rightarrow> address_type \<Rightarrow>
     ('st world, bytes \<times> bytes) action" where
  "generate_keypair C D H network name passphrase ty =
     act_bind (fetch_and_update_secure C HD_KEYSPACE name passphrase (hd_modifier D ty)) (\<lambda>old.
     act_bind (act_result (opt_kind InvalidInput old)) (\<lambda>b.
     act_bind (act_run (decrypt_bytes C name passphrase b)) (\<lambda>hd_key_bytes.
     act_bind (act_result (opt_kind DeserializationError (dec_of D hd_key_bytes))) (\<lambda>k.
     act_run (derive_key_pair H (hd_seed k) network ty (hd_index ty k))))))"

definition hd_clear :: "'st client_env \<Rightarrow> ('st world, unit) action" where
  "hd_clear C = on_store (st_clear (cl_storage C) HD_KEYSPACE)"

section \<open>Synchronisation state\<close>

definition SYNC_KEYSPACE :: bytes where "SYNC_KEYSPACE = str_bytes ''core_wallet_sync''"

record 'lite sync_state =
  last_block_height :: u64
  last_app_hash :: string
  trusted_state :: 'lite

definition sync_genesis :: "('vs \<Rightarrow> 'lite) \<Rightarrow> 'vs \<Rightarrow> 'lite sync_state" where
  "sync_genesis lite_genesis vs = \<lparr>last_block_height = 0, last_app_hash = '''', trusted_state = lite_genesis vs\<rparr>"

definition load_sync_state ::
    "'st client_env \<Rightarrow> 'lite sync_state codec \<Rightarrow> bytes \<Rightarrow> ('st world, 'lite sync_state option) action" where
  "load_sync_state C D name = storage_load C (dec_result D) SYNC_KEYSPACE name"

definition save_sync_state ::
    "'st client_env \<Rightarrow> 'lite sync_state codec \<Rightarrow> bytes \<Rightarrow> 'lite sync_state \<Rightarrow> ('st world, unit) action" where
  "save_sync_state C D name s = storage_save C (enc_of D) SYNC_KEYSPACE name s"

definition delete_sync_state :: "'st client_env \<Rightarrow> bytes \<Rightarrow> ('st world, unit) action" where
  "delete_sync_state C name = act_map (\<lambda>_. ()) (on_store (st_delete (cl_storage C) SYNC_KEYSPACE name))"

definition save_global_state ::
    "'st client_env \<Rightarrow> 'lite sync_state codec \<Rightarrow> bytes \<Rightarrow> 'lite sync_state \<Rightarrow> ('st world, unit) action" where
  "save_global_state C D name s = act_map (\<lambda>_. ()) (on_store (st_set (cl_storage C) SYNC_KEYSPACE name (enc_of D s)))"

definition delete_global_state :: "'st client_env \<Rightarrow> bytes \<Rightarrow> ('st world, unit) action" where
  "delete_global_state C name = act_map (\<lambda>_. ()) (on_store (st_delete (cl_storage C) SYNC_KEYSPACE name))"

definition get_global_state ::
    "'st client_env \<Rightarrow> 'lite sync_state codec \<Rightarrow> bytes \<Rightarrow> ('st world, 'lite sync_state option) action" where
  "get_global_state C D name =
     act_bind (on_store (st_get (cl_storage C) SYNC_KEYSPACE name)) (\<lambda>v. act_result (case v of
       None \<Rightarrow> Ok None | Some b \<Rightarrow> map_sum id Some (opt_kind DeserializationError (dec_of D b))))"

definition sync_clear :: "'st client_env \<Rightarrow> ('st world, unit) action" where
  "sync_clear C = on_store (st_clear (cl_storage C) SYNC_KEYSPACE)"

section \<open>What the services keep\<close>

text \<open>Encryption does not fail.\<close>

definition encrypts :: "'st client_env \<Rightarrow> bool" where
  "encrypts C \<longleftrightarrow> (\<forall>key p v i. \<exists>b. encrypt_bytes C key p v i = Ok b)"

lemma codec_okD [simp]: "codec_ok D \<Longrightarrow> dec_of D (enc_of D x) = Some x"
  by (simp add: codec_ok_def)

lemma encryptsE:
  assumes "encrypts C" obtains b where "encrypt_bytes C key p v i = Ok b"
  using assms unfolding encrypts_def by blast

context secure_storage
begin

lemma update_secure_value:
  assumes "lawful" "encrypts C" "has w p ks k v" "f v = Done (Ok (Some x))"
  shows "\<exists>w'. fetch_and_update_secure C ks k p f w = Done (Ok (view (w_store w) (ks, k)), w') \<and>
    has w' p ks k (Some x) \<and> (\<forall>q. q \<noteq> (ks, k) \<longrightarrow> view (w_store w') q = view (w_store w) q)"
proof -
  obtain b where "encrypt_bytes C k p x (w_draws w) = Ok b" using assms(2) by (rule encryptsE)
  from update_secure_Ok [where f = f, OF assms(1,3,4) this] show ?thesis by (elim exE conjE) auto
qed

lemma set_secure_value:
  assumes "lawful" "encrypts C" "has w p ks k old"
  shows "\<exists>w'. set_secure C ks k v p w = Done (Ok old, w') \<and> has w' p ks k (Some v) \<and>
    (\<forall>q. q \<noteq> (ks, k) \<longrightarrow> view (w_store w') q = view (w_store w) q)"
proof -
  obtain b where "encrypt_bytes C k p v (w_draws w) = Ok b" using assms(2) by (rule encryptsE)
  from set_secure_holds [OF assms(1,3) this] show ?thesis by (elim exE conjE) auto
qed

lemma get_wallet_has:
  assumes "lawful" "codec_ok D" "has w p WALLET_KEYSPACE name v" "v = map_option (enc_of D) wal"
  shows "get_wallet C D name p w = Done (opt_kind InvalidInput wal, w)"
  using get_secure_holds [OF assms(1,3)] assms(2,4)
  by (cases wal) (simp_all add: get_wallet_def load_wallet_def load_secure_def decode_opt_def dec_result_def)

lemma modify_wallet_has:
  assumes "lawful" "encrypts C" "codec_ok D" "has w p WALLET_KEYSPACE name (Some (enc_of D wal))"
  shows "\<exists>w'. modify_wallet C D name p f w = Done (Ok (), w') \<and>
    has w' p WALLET_KEYSPACE name (Some (enc_of D (f wal))) \<and>
    (\<forall>q. q \<noteq> (WALLET_KEYSPACE, name) \<longrightarrow> view (w_store w') q = view (w_store w) q)"
proof -
  have "wallet_modifier D f (Some (enc_of D wal)) = Done (Ok (Some (enc_of D (f wal))))"
    using assms(3) by (simp add: wallet_modifier_def)
  from update_secure_value [where f = "wallet_modifier D f", OF assms(1,2,4) this] show ?thesis
    by (elim exE conjE) (simp add: modify_wallet_def)
qed

lemma wallet_create_free:
  assumes "lawful" "encrypts C" "has w p WALLET_KEYSPACE name None"
  shows "\<exists>w'. wallet_create C D name p vk w = Done (Ok (), w') \<and>
    has w' p WALLET_KEYSPACE name (Some (enc_of D (wallet_new vk))) \<and>
    (\<forall>q. q \<noteq> (WALLET_KEYSPACE, name) \<longrightarrow> view (w_store w') q = view (w_store w) q)"
proof -
  have "on_store (st_contains_key (cl_storage C) WALLET_KEYSPACE name) w = Done (Ok False, w)"
    using assms by (simp add: on_store_def storage_of contains_key holds_def)
  then have "wallet_create C D name p vk w = act_map (\<lambda>_. ()) (set_secure C WALLET_KEYSPACE name (enc_of D (wallet_new vk)) p) w"
    by (simp add: wallet_create_def act_bind_def set_wallet_def save_wallet_def save_secure_def)
  with set_secure_value [OF assms, of "enc_of D (wallet_new vk)"] show ?thesis
    by (elim exE conjE) simp
qed

lemma wallet_create_taken:
  assumes "lawful" "has w p WALLET_KEYSPACE name (Some v)"
  shows "wallet_create C D name p' vk w = Done (Err InvalidInput, w)"
proof -
  have "on_store (st_contains_key (cl_storage C) WALLET_KEYSPACE name) w = Done (Ok True, w)"
    using assms by (auto simp: on_store_def storage_of contains_key holds_def)
  then show ?thesis by (simp add: wallet_create_def)
qed

lemma generate_keypair_has:
  assumes "lawful" "encrypts C" "codec_ok D" "has w p HD_KEYSPACE name (Some (enc_of D k))"
  shows "\<exists>r w'. generate_keypair C D H network name p ty w = Done (r, w') \<and>
    derive_key_pair H (hd_seed k) network ty (hd_index ty k) = Done r \<and>
    has w' p HD_KEYSPACE name (Some (enc_of D (hd_advance ty k)))"
proof -
  obtain r where r: "derive_key_pair H (hd_seed k) network ty (hd_index ty k) = Done r"
    using derive_key_pair_returns by blast
  obtain b where b: "view (w_store w) (HD_KEYSPACE, name) = Some b" "sealed_as C name p (enc_of D k) b"
    using assms(4) by (auto simp: holds_def)
  have "hd_modifier D ty (Some (enc_of D k)) = Done (Ok (Some (enc_of D (hd_advance ty k))))"
    using assms(3) by (simp add: hd_modifier_def)
  from update_secure_value [where f = "hd_modifier D ty", OF assms(1,2,4) this] obtain w' where w':
    "fetch_and_update_secure C HD_KEYSPACE name p (hd_modifier D ty) w = Done (Ok (Some b), w')"
    "has w' p HD_KEYSPACE name (Some (enc_of D (hd_advance ty k)))" unfolding b(1) by (elim exE conjE)
  have "generate_keypair C D H network name p ty w = Done (r, w')"
    using decrypt_sealed(1) [OF cipher [OF assms(1)] b(2)] assms(3)
    by (simp add: generate_keypair_def w'(1) r)
  then show ?thesis using r w'(2) by blast
qed

lemma add_mnemonic_free:
  assumes "lawful" "encrypts C" "has w p HD_KEYSPACE name None"
  shows "\<exists>w'. add_mnemonic C D name seed p w = Done (Ok (), w') \<and>
    has w' p HD_KEYSPACE name (Some (enc_of D \<lparr>staking_index = 0, transfer_index = 0, hd_seed = seed\<rparr>))"
proof -
  have "on_store (st_get (cl_storage C) HD_KEYSPACE name) w = Done (Ok None, w)"
    using assms by (simp add: on_store_def storage_of get holds_def)
  then have "add_mnemonic C D name seed p w = act_map (\<lambda>_. ()) (set_secure C HD_KEYSPACE name
      (enc_of D \<lparr>staking_index = 0, transfer_index = 0, hd_seed = seed\<rparr>) p) w"
    by (simp add: add_mnemonic_def)
  with set_secure_value [OF assms, of "enc_of D \<lparr>staking_index = 0, transfer_index = 0, hd_seed = seed\<rparr>"]
  show ?thesis by (elim exE conjE) simp
qed

end

text \<open>The additions to a wallet, one after the other.\<close>

datatype wallet_op = AddPublicKey public_key | AddStakingKey public_key | AddRootHash h256

fun run_wallet_op :: "'st client_env \<Rightarrow> wallet codec \<Rightarrow> bytes \<Rightarrow> bytes \<Rightarrow> wallet_op \<Rightarrow> ('st world, unit) action" where
  "run_wallet_op C D name p (AddPublicKey pk) = add_public_key C D name p pk"
| "run_wallet_op C D name p (AddStakingKey pk) = add_staking_key C D name p pk"
| "run_wallet_op C D name p (AddRootHash h) = add_root_hash C D name p h"

fun run_wallet_ops :: "'st client_env \<Rightarrow> wallet codec \<Rightarrow> bytes \<Rightarrow> bytes \<Rightarrow> wallet_op list \<Rightarrow> ('st world, unit) action" where
  "run_wallet_ops C D name p [] = act_return ()"
| "run_wallet_ops C D name p (x # xs) = act_bind (run_wallet_op C D name p x) (\<lambda>_. run_wallet_ops C D name p xs)"

fun wallet_effect :: "wallet_op \<Rightarrow> wallet \<Rightarrow> wallet" where
  "wallet_effect (AddPublicKey pk) w = w\<lparr>public_keys := bm_insert pk () (public_keys w)\<rparr>"
| "wallet_effect (AddStakingKey pk) w = w\<lparr>staking_keys := bm_insert pk () (staking_keys w)\<rparr>"
| "wallet_effect (AddRootHash h) w = w\<lparr>root_hashes := bm_insert h () (root_hashes w)\<rparr>"

lemma run_wallet_op_modifies: "run_wallet_op C D name p x = modify_wallet C D name p (wallet_effect x)"
  by (cases x) (simp_all add: add_public_key_def add_staking_key_def add_root_hash_def fun_eq_iff [of "wallet_effect _"]
      flip: wallet_effect.simps)

context secure_storage
begin

lemma run_wallet_ops_has:
  assumes "lawful" "encrypts C" "codec_ok D"
  shows "has w p WALLET_KEYSPACE name (Some (enc_of D wal)) \<Longrightarrow>
    \<exists>w'. run_wallet_ops C D name p xs w = Done (Ok (), w') \<and>
      has w' p WALLET_KEYSPACE name (Some (enc_of D (fold wallet_effect xs wal))) \<and>
      (\<forall>q. q \<noteq> (WALLET_KEYSPACE, name) \<longrightarrow> view (w_store w') q = view (w_store w) q)"
proof (induction xs arbitrary: w wal)
  case Nil
  then show ?case by simp
next
  case (Cons x xs)
  from modify_wallet_has [OF assms Cons.prems, of "wallet_effect x"] obtain w1 where w1:
    "modify_wallet C D name p (wallet_effect x) w = Done (Ok (), w1)"
    "has w1 p WALLET_KEYSPACE name (Some (enc_of D (wallet_effect x wal)))"
    "\<forall>q. q \<noteq> (WALLET_KEYSPACE, name) \<longrightarrow> view (w_store w1) q = view (w_store w) q" by (elim exE conjE)
  from Cons.IH [OF w1(2)] show ?case
    by (elim exE conjE) (simp add: run_wallet_op_modifies w1(1,3))
qed

end

definition bs_elems :: "'k btset \<Rightarrow> 'k set" where
  "bs_elems s = set (map fst s)"

lemma bs_insert: "bm_wf s \<Longrightarrow> bs_elems (bm_insert k () s) = insert k (bs_elems s) \<and> bm_wf (bm_insert k () s)"
  by (simp add: set_eq_iff bs_elems_def btm.inv_ins bm_contains_def btm.get_ins flip: bm_contains_keys)

lemma wallet_effects:
  "bm_wf (public_keys w) \<Longrightarrow> bm_wf (staking_keys w) \<Longrightarrow> bm_wf (root_hashes w) \<Longrightarrow>
   wl_view_key (fold wallet_effect xs w) = wl_view_key w \<and>
   bs_elems (public_keys (fold wallet_effect xs w)) = bs_elems (public_keys w) \<union> {pk. AddPublicKey pk \<in> set xs} \<and>
   bs_elems (staking_keys (fold wallet_effect xs w)) = bs_elems (staking_keys w) \<union> {pk. AddStakingKey pk \<in> set xs} \<and>
   bs_elems (root_hashes (fold wallet_effect xs w)) = bs_elems (root_hashes w) \<union> {h. AddRootHash h \<in> set xs}"
proof (induction xs arbitrary: w)
  case Nil
  then show ?case by simp
next
  case (Cons x xs)
  have wf: "bm_wf (public_keys (wallet_effect x w))" "bm_wf (staking_keys (wallet_effect x w))"
    "bm_wf (root_hashes (wallet_effect x w))"
    using Cons.prems by (cases x; simp add: bs_insert)+
  show ?case
    unfolding fold_simps by (insert Cons.IH [OF wf] Cons.prems) (cases x; auto simp: bs_insert)
qed

text \<open>A concrete codec for countable types, for the examples.\<close>

definition sample_codec :: "'a::countable codec" where
  "sample_codec = \<lparr>enc_of = (\<lambda>x. replicate (to_nat x) 0), dec_of = (\<lambda>b. Some (from_nat (length b)))\<rparr>"

lemma sample_codec_ok: "codec_ok sample_codec"
  by (simp add: codec_ok_def sample_codec_def)

instance wallet_ext :: (countable) countable
  by (rule countable_classI [of "\<lambda>r. to_nat (wl_view_key r, public_keys r, staking_keys r, root_hashes r, wallet.more r)"])
    (simp add: wallet.equality)

instance hd_key_ext :: (countable) countable
  by (rule countable_classI [of "\<lambda>r. to_nat (staking_index r, transfer_index r, hd_seed r, hd_key.more r)"])
    (simp add: hd_key.equality)

lemma sample_encrypts_all: "encrypts sample_client_env"
  unfolding encrypts_def using sample_encrypts by blast

text \<open>
  C25: a wallet keeps what is added to it.  On an encrypted storage in memory whose
  cipher works and with a faithful codec, creating a wallet under a free name and then
  adding any sequence of keys and root hashes succeeds; the wallet read back with the
  same passphrase has the view key it was created with and exactly the added public
  keys, staking keys and root hashes; a second creation under the name is refused
  with any passphrase; nothing else in the storage changes.
\<close>

theorem wallet_keeps_additions:
  assumes "cl_storage C = memory_storage" "cipher_ok C" "encrypts C" "codec_ok D"
    and "holds C mem_view mem_inv w p WALLET_KEYSPACE name None"
  shows "\<exists>w' wal. act_bind (wallet_create C D name p vk) (\<lambda>_. run_wallet_ops C D name p xs) w = Done (Ok (), w') \<and>
    get_wallet C D name p w' = Done (Ok wal, w') \<and> wl_view_key wal = vk \<and>
    bs_elems (public_keys wal) = {pk. AddPublicKey pk \<in> set xs} \<and>
    bs_elems (staking_keys wal) = {pk. AddStakingKey pk \<in> set xs} \<and>
    bs_elems (root_hashes wal) = {h. AddRootHash h \<in> set xs} \<and>
    wallet_create C D name p' vk' w' = Done (Err InvalidInput, w') \<and>
    (\<forall>q. q \<noteq> (WALLET_KEYSPACE, name) \<longrightarrow> mem_view (w_store w') q = mem_view (w_store w) q)"
proof -
  have laws: "cl_storage C = memory_storage \<and> cipher_ok C" using assms(1,2) by blast
  from mem_secure.wallet_create_free [OF laws assms(3,5), of D vk] obtain w1 where w1:
    "wallet_create C D name p vk w = Done (Ok (), w1)"
    "holds C mem_view mem_inv w1 p WALLET_KEYSPACE name (Some (enc_of D (wallet_new vk)))"
    "\<forall>q. q \<noteq> (WALLET_KEYSPACE, name) \<longrightarrow> mem_view (w_store w1) q = mem_view (w_store w) q" by (elim exE conjE)
  let ?wal = "fold wallet_effect xs (wallet_new vk)"
  from mem_secure.run_wallet_ops_has [OF laws assms(3,4) w1(2), of xs] obtain w2 where w2:
    "run_wallet_ops C D name p xs w1 = Done (Ok (), w2)"
    "holds C mem_view mem_inv w2 p WALLET_KEYSPACE name (Some (enc_of D ?wal))"
    "\<forall>q. q \<noteq> (WALLET_KEYSPACE, name) \<longrightarrow> mem_view (w_store w2) q = mem_view (w_store w1) q" by (elim exE conjE)
  have "get_wallet C D name p w2 = Done (Ok ?wal, w2)"
    using mem_secure.get_wallet_has [OF laws assms(4) w2(2), of "Some ?wal"] by simp
  then show ?thesis
    using wallet_effects [of "wallet_new vk" xs] mem_secure.wallet_create_taken [OF laws w2(2)] w1(1,3) w2(1,3)
    by (intro exI [of _ w2] exI [of _ ?wal]) (simp add: wallet_new_def bm_wf_def bm_new_def bs_elems_def)
qed

theorem wallet_keeps_additions_witness:
  "\<exists>w' wal. act_bind (wallet_create sample_client_env sample_codec [1] [2] [3]) (\<lambda>_.
      run_wallet_ops sample_client_env sample_codec [1] [2] [AddStakingKey [4], AddRootHash [5]]) sample_world = Done (Ok (), w') \<and>
    get_wallet sample_client_env sample_codec [1] [2] w' = Done (Ok wal, w') \<and> wl_view_key wal = [3] \<and>
    bs_elems (public_keys wal) = {} \<and> bs_elems (staking_keys wal) = {[4]} \<and> bs_elems (root_hashes wal) = {[5]} \<and>
    wallet_create sample_client_env sample_codec [1] [9] [3] w' = Done (Err InvalidInput, w')"
  using wallet_keeps_additions [OF sample_client(1,2) sample_encrypts_all sample_codec_ok sample_world_holds,
      of "[1]" "[2]" "[3]" "[AddStakingKey [4], AddRootHash [5]]" "[9]" "[3]"]
  by (elim exE) (auto simp: Collect_disj_eq)

text \<open>Generating key pairs one after the other; a failed derivation does not stop the sequence.\<close>

fun generate_all ::
    "'st client_env \<Rightarrow> hd_key codec \<Rightarrow> hd_ext \<Rightarrow> network \<Rightarrow> bytes \<Rightarrow> bytes \<Rightarrow> address_type list \<Rightarrow>
     'st world \<Rightarrow> ((error_kind + bytes \<times> bytes) list \<times> 'st world) run" where
  "generate_all C D H network name p [] w = Done ([], w)"
| "generate_all C D H network name p (ty # tys) w =
     run_bind (generate_keypair C D H network name p ty w) (\<lambda>(r, w').
     run_bind (generate_all C D H network name p tys w') (\<lambda>(rs, w''). Done (r # rs, w'')))"

lemma hd_index_advance: "hd_index ty (hd_advance ty' k) = hd_index ty k + (if ty' = ty then 1 else 0)"
  "hd_seed (hd_advance ty k) = hd_seed k"
  by (cases ty; cases ty'; simp) (cases ty; simp)

context secure_storage
begin

lemma generate_all_has:
  assumes "lawful" "encrypts C" "codec_ok D"
  shows "has w p HD_KEYSPACE name (Some (enc_of D k)) \<Longrightarrow>
    \<exists>rs w'. generate_all C D H network name p tys w = Done (rs, w') \<and> length rs = length tys \<and>
      (\<forall>i < length tys. derive_key_pair H (hd_seed k) network (tys ! i)
        (hd_index (tys ! i) k + of_nat (count_list (take i tys) (tys ! i))) = Done (rs ! i))"
proof (induction tys arbitrary: w k)
  case Nil
  then show ?case by simp
next
  case (Cons ty tys)
  from generate_keypair_has [OF assms Cons.prems, of H network ty] obtain r w1 where w1:
    "generate_keypair C D H network name p ty w = Done (r, w1)"
    "derive_key_pair H (hd_seed k) network ty (hd_index ty k) = Done r"
    "has w1 p HD_KEYSPACE name (Some (enc_of D (hd_advance ty k)))" by (elim exE conjE)
  from Cons.IH [OF w1(3)] obtain rs w2 where w2:
    "generate_all C D H network name p tys w1 = Done (rs, w2)" "length rs = length tys"
    "\<forall>i < length tys. derive_key_pair H (hd_seed k) network (tys ! i)
        (hd_index (tys ! i) k + (if ty = tys ! i then 1 else 0) + of_nat (count_list (take i tys) (tys ! i))) = Done (rs ! i)"
    unfolding hd_index_advance by (elim exE conjE)
  have "derive_key_pair H (hd_seed k) network ((ty # tys) ! i)
      (hd_index ((ty # tys) ! i) k + of_nat (count_list (take i (ty # tys)) ((ty # tys) ! i))) = Done ((r # rs) ! i)"
    if "i < length (ty # tys)" for i
    using that w1(2) w2(3) by (cases i) (auto simp: algebra_simps)
  then show ?case using w1(1) w2(1,2) by (intro exI [of _ "r # rs"] exI [of _ w2]) simp
qed

end

text \<open>
  C24: the addresses of a deterministic wallet.  After the seed was stored under a free
  name, generating key pairs for any sequence of address types never panics, and the
  result of each request is the derivation at the next unused index of its type,
  counted from zero, whether or not an earlier derivation failed.
\<close>

theorem generated_keypairs_consecutive:
  assumes "cl_storage C = memory_storage" "cipher_ok C" "encrypts C" "codec_ok D"
    and "holds C mem_view mem_inv w p HD_KEYSPACE name None"
  shows "\<exists>w1 rs w2. add_mnemonic C D name seed p w = Done (Ok (), w1) \<and>
    generate_all C D H network name p tys w1 = Done (rs, w2) \<and> length rs = length tys \<and>
    (\<forall>i < length tys. derive_key_pair H seed network (tys ! i) (of_nat (count_list (take i tys) (tys ! i))) = Done (rs ! i))"
proof -
  have laws: "cl_storage C = memory_storage \<and> cipher_ok C" using assms(1,2) by blast
  let ?k = "\<lparr>staking_index = 0, transfer_index = 0, hd_seed = seed\<rparr>"
  from mem_secure.add_mnemonic_free [OF laws assms(3,5), of D seed] obtain w1 where w1:
    "add_mnemonic C D name seed p w = Done (Ok (), w1)"
    "holds C mem_view mem_inv w1 p HD_KEYSPACE name (Some (enc_of D ?k))" by (elim exE conjE)
  have zero: "hd_index ty ?k = 0" for ty by (cases ty) simp_all
  from mem_secure.generate_all_has [OF laws assms(3,4) w1(2), of H network tys] w1(1) show ?thesis
    by (auto simp: zero)
qed

theorem generated_keypairs_consecutive_witness:
  "\<exists>w1 rs w2. add_mnemonic sample_client_env sample_codec [1] [7] [2] sample_world = Done (Ok (), w1) \<and>
    generate_all sample_client_env sample_codec sample_hd Devnet [1] [2] [TransferAddress, StakingAddress, TransferAddress] w1 =
      Done (rs, w2) \<and> length rs = 3 \<and>
    derive_key_pair sample_hd [7] Devnet TransferAddress 0 = Done (rs ! 0) \<and>
    derive_key_pair sample_hd [7] Devnet StakingAddress 0 = Done (rs ! 1) \<and>
    derive_key_pair sample_hd [7] Devnet TransferAddress 1 = Done (rs ! 2)"
proof -
  have three: "(\<forall>i < 3. P i) \<longleftrightarrow> P 0 \<and> P 1 \<and> P (2 :: nat)" for P
    by (auto simp: numeral_3_eq_3 numeral_2_eq_2 less_Suc_eq)
  from generated_keypairs_consecutive [OF sample_client(1,2) sample_encrypts_all sample_codec_ok sample_world_holds,
      of "[1]" "[7]" "[2]" sample_hd Devnet "[TransferAddress, StakingAddress, TransferAddress]"]
  show ?thesis by (elim exE conjE) (simp add: three flip: numeral_3_eq_3)
qed

end
