(* ===== verification/Wallet_State.thy ===== *)
theory Wallet_State
  imports Wallet_Service
begin

text \<open>
  The view a wallet has of the chain: the transactions it knows, its unspent outputs
  and its balance (client-common/src/transaction.rs, client-core/src/types/
  transaction_change.rs, service/wallet_state_service.rs), and the effect of a batch
  of blocks on it (wallet/syncer_logic.rs).  The main result is that the balance is
  the sum of the unspent outputs as long as no transaction of a batch spends an output
  created in the same batch, and an example where it is not.
\<close>

section \<open>Transactions\<close>

instantiation txo_pointer_ext :: (linorder) linorder
begin

definition less_eq_txo_pointer_ext :: "('a::linorder) txo_pointer_scheme \<Rightarrow> 'a txo_pointer_scheme \<Rightarrow> bool" where
  "less_eq_txo_pointer_ext p q \<longleftrightarrow>
     (txo_id p, txo_index p, txo_pointer.more p) \<le> (txo_id q, txo_index q, txo_pointer.more q)"

definition less_txo_pointer_ext :: "('a::linorder) txo_pointer_scheme \<Rightarrow> 'a txo_pointer_scheme \<Rightarrow> bool" where
  "less_txo_pointer_ext p q \<longleftrightarrow>
     (txo_id p, txo_index p, txo_pointer.more p) < (txo_id q, txo_index q, txo_pointer.more q)"

instance
proof
  fix x y z :: "'a txo_pointer_scheme"
  note defs = less_eq_txo_pointer_ext_def less_txo_pointer_ext_def
  show "(x < y) = (x \<le> y \<and> \<not> y \<le> x)" unfolding defs by (rule less_le_not_le)
  show "x \<le> x" unfolding defs by (rule order_refl)
  show "x \<le> y \<Longrightarrow> y \<le> z \<Longrightarrow> x \<le> z" unfolding defs by (rule order_trans)
  show "x \<le> y \<Longrightarrow> y \<le> x \<Longrightarrow> x = y" unfolding defs by (drule (1) order_antisym) (simp add: txo_pointer.equality)
  show "x \<le> y \<or> y \<le> x" unfolding defs by (rule linear)
qed

end

datatype transaction =
    TransferTransaction tx
  | DepositStakeTransaction deposit_bond_tx
  | UnbondStakeTransaction unbond_tx
  | WithdrawUnbondedStakeTransaction withdraw_unbonded_tx

fun tr_inputs :: "transaction \<Rightarrow> txo_pointer list" where
  "tr_inputs (TransferTransaction t) = tx_inputs t"
| "tr_inputs (DepositStakeTransaction t) = dep_inputs t"
| "tr_inputs (UnbondStakeTransaction t) = []"
| "tr_inputs (WithdrawUnbondedStakeTransaction t) = []"

fun tr_outputs :: "transaction \<Rightarrow> tx_out list" where
  "tr_outputs (TransferTransaction t) = tx_outputs t"
| "tr_outputs (WithdrawUnbondedStakeTransaction t) = wd_outputs t"
| "tr_outputs (UnbondStakeTransaction t) = []"
| "tr_outputs (DepositStakeTransaction t) = []"

fun tr_id :: "ext \<Rightarrow> transaction \<Rightarrow> txid" where
  "tr_id E (TransferTransaction t) = tx_id E t"
| "tr_id E (DepositStakeTransaction t) = deposit_id E t"
| "tr_id E (UnbondStakeTransaction t) = unbond_id E t"
| "tr_id E (WithdrawUnbondedStakeTransaction t) = withdraw_id E t"

datatype signed_transaction =
    SignedTransfer tx tx_witness
  | SignedDepositStake deposit_bond_tx tx_witness
  | SignedWithdrawUnbondedStake withdraw_unbonded_tx staked_state op_witness

fun signed_id :: "ext \<Rightarrow> signed_transaction \<Rightarrow> txid" where
  "signed_id E (SignedTransfer t w) = tx_id E t"
| "signed_id E (SignedDepositStake t w) = deposit_id E t"
| "signed_id E (SignedWithdrawUnbondedStake t s w) = withdraw_id E t"

section \<open>Balance changes\<close>

record transaction_input =
  in_pointer :: txo_pointer
  in_output :: "tx_out option"

datatype transaction_type = TransferType | WithdrawType | UnbondType | DepositType

datatype balance_change = Incoming coin | Outgoing coin coin | NoChange

text \<open>The time of a block is kept as the text it is stored as.\<close>

record transaction_change =
  tc_id :: txid
  tc_inputs :: "transaction_input list"
  tc_outputs :: "tx_out list"
  tc_balance_change :: balance_change
  tc_type :: transaction_type
  tc_block_height :: u64
  tc_block_time :: string

fun coin_add_change :: "coin \<Rightarrow> balance_change \<Rightarrow> error_kind + coin" where
  "coin_add_change c (Incoming v) = err_kind IllegalInput (coin_add c v)"
| "coin_add_change c (Outgoing v fee) =
     and_then (err_kind IllegalInput (coin_sub c v)) (\<lambda>n. err_kind IllegalInput (coin_sub n fee))"
| "coin_add_change c NoChange = Ok c"

fun transaction_type_of :: "transaction \<Rightarrow> transaction_type" where
  "transaction_type_of (TransferTransaction t) = TransferType"
| "transaction_type_of (WithdrawUnbondedStakeTransaction t) = WithdrawType"
| "transaction_type_of (UnbondStakeTransaction t) = UnbondType"
| "transaction_type_of (DepositStakeTransaction t) = DepositType"

section \<open>Wallet states\<close>

record wallet_state =
  unspent_transactions :: "(txo_pointer, tx_out) btm"
  transaction_history :: "(txid, transaction_change) btm"
  balance :: coin

definition wallet_state_default :: wallet_state where
  "wallet_state_default = \<lparr>unspent_transactions = bm_new, transaction_history = bm_new, balance = coin_zero\<rparr>"

datatype memento_operation =
    AddTransactionChange txid transaction_change
  | AddUnspentTransaction txo_pointer tx_out
  | RemoveUnspentTransaction txo_pointer

type_synonym memento = "memento_operation list"

definition add_transaction_change :: "memento \<Rightarrow> transaction_change \<Rightarrow> memento" where
  "add_transaction_change m c = m @ [AddTransactionChange (tc_id c) c]"

definition add_unspent_transaction :: "memento \<Rightarrow> txo_pointer \<Rightarrow> tx_out \<Rightarrow> memento" where
  "add_unspent_transaction m input out = m @ [AddUnspentTransaction input out]"

definition remove_unspent_transaction :: "memento \<Rightarrow> txo_pointer \<Rightarrow> memento" where
  "remove_unspent_transaction m input = m @ [RemoveUnspentTransaction input]"

fun apply_memento_operation :: "wallet_state \<Rightarrow> memento_operation \<Rightarrow> error_kind + wallet_state" where
  "apply_memento_operation s (AddTransactionChange i c) =
     (if bm_contains (transaction_history s) i then Ok s
      else and_then (coin_add_change (balance s) (tc_balance_change c)) (\<lambda>b.
        Ok (s\<lparr>balance := b, transaction_history := bm_insert i c (transaction_history s)\<rparr>)))"
| "apply_memento_operation s (AddUnspentTransaction input out) =
     Ok (s\<lparr>unspent_transactions := bm_insert input out (unspent_transactions s)\<rparr>)"
| "apply_memento_operation s (RemoveUnspentTransaction input) =
     Ok (s\<lparr>unspent_transactions := bm_remove input (unspent_transactions s)\<rparr>)"

fun apply_memento :: "memento \<Rightarrow> wallet_state \<Rightarrow> error_kind + wallet_state" where
  "apply_memento [] s = Ok s"
| "apply_memento (x # xs) s = and_then (apply_memento_operation s x) (apply_memento xs)"

definition get_transaction_change :: "wallet_state \<Rightarrow> txid \<Rightarrow> transaction_change option" where
  "get_transaction_change s i = bm_get (transaction_history s) i"

definition get_output :: "wallet_state \<Rightarrow> txo_pointer \<Rightarrow> error_kind + tx_out option" where
  "get_output s input = (case get_transaction_change s (txo_id input) of
     Some change \<Rightarrow>
       if length (tc_outputs change) > unat (txo_index input)
       then Ok (Some (tc_outputs change ! unat (txo_index input))) else Err InvalidInput
   | None \<Rightarrow> Ok None)"

section \<open>The wallet state service\<close>

definition STATE_KEYSPACE :: bytes where "STATE_KEYSPACE = str_bytes ''core_wallet_state''"

definition parse_wallet_state :: "wallet_state codec \<Rightarrow> bytes option \<Rightarrow> error_kind + wallet_state" where
  "parse_wallet_state D v = (case v of
     None \<Rightarrow> Ok wallet_state_default | Some b \<Rightarrow> opt_kind DeserializationError (dec_of D b))"

definition load_wallet_state ::
    "'st client_env \<Rightarrow> wallet_state codec \<Rightarrow> bytes \<Rightarrow> bytes \<Rightarrow> ('st world, wallet_state option) action" where
  "load_wallet_state C D name passphrase = load_secure C (dec_result D) STATE_KEYSPACE name passphrase"

definition save_wallet_state ::
    "'st client_env \<Rightarrow> wallet_state codec \<Rightarrow> bytes \<Rightarrow> bytes \<Rightarrow> wallet_state \<Rightarrow> ('st world, unit) action" where
  "save_wallet_state C D name passphrase s = save_secure C (enc_of D) STATE_KEYSPACE name passphrase s"

definition state_modifier ::
    "wallet_state codec \<Rightarrow> (wallet_state \<Rightarrow> error_kind + wallet_state) \<Rightarrow> bytes option \<Rightarrow> (error_kind + bytes option) run" where
  "state_modifier D f v = Done (and_then (parse_wallet_state D v) (\<lambda>s.
     and_then (f s) (\<lambda>s'. Ok (Some (enc_of D s')))))"

definition modify_wallet_state ::
    "'st client_env \<Rightarrow> wallet_state codec \<Rightarrow> bytes \<Rightarrow> bytes \<Rightarrow> (wallet_state \<Rightarrow> error_kind + wallet_state) \<Rightarrow>
     ('st world, wallet_state) action" where
  "modify_wallet_state C D name passphrase f =
     act_bind (fetch_and_update_secure C STATE_KEYSPACE name passphrase (state_modifier D f)) (\<lambda>_.
     act_bind (load_wallet_state C D name passphrase) (\<lambda>s.
     act_run (case s of Some s' \<Rightarrow> Done (Ok s') | None \<Rightarrow> Panic ''called unwrap on None'')))"

definition delete_wallet_state :: "'st client_env \<Rightarrow> bytes \<Rightarrow> ('st world, unit) action" where
  "delete_wallet_state C name = act_map (\<lambda>_. ()) (on_store (st_delete (cl_storage C) STATE_KEYSPACE name))"

definition get_wallet_state ::
    "'st client_env \<Rightarrow> wallet_state codec \<Rightarrow> bytes \<Rightarrow> bytes \<Rightarrow> ('st world, wallet_state) action" where
  "get_wallet_state C D name passphrase =
     act_map (\<lambda>s. case s of Some s' \<Rightarrow> s' | None \<Rightarrow> wallet_state_default) (load_wallet_state C D name passphrase)"

definition wss_modify_state ::
    "'st client_env \<Rightarrow> wallet_state codec \<Rightarrow> bytes \<Rightarrow> bytes \<Rightarrow> (wallet_state \<Rightarrow> error_kind + wallet_state) \<Rightarrow>
     ('st world, unit) action" where
  "wss_modify_state C D name passphrase f =
     act_map (\<lambda>_. ()) (fetch_and_update_secure C STATE_KEYSPACE name passphrase (state_modifier D f))"

definition wss_apply_memento ::
    "'st client_env \<Rightarrow> wallet_state codec \<Rightarrow> bytes \<Rightarrow> bytes \<Rightarrow> memento \<Rightarrow> ('st world, unit) action" where
  "wss_apply_memento C D name passphrase m = wss_modify_state C D name passphrase (apply_memento m)"

definition wss_delete_wallet_state ::
    "'st client_env \<Rightarrow> wallet_state codec \<Rightarrow> bytes \<Rightarrow> bytes \<Rightarrow> ('st world, unit) action" where
  "wss_delete_wallet_state C D name passphrase =
     act_bind (get_wallet_state C D name passphrase) (\<lambda>_. delete_wallet_state C name)"

definition has_unspent_transactions ::
    "'st client_env \<Rightarrow> wallet_state codec \<Rightarrow> bytes \<Rightarrow> bytes \<Rightarrow> txo_pointer list \<Rightarrow> ('st world, bool) action" where
  "has_unspent_transactions C D name passphrase inputs =
     act_map (\<lambda>s. list_all (bm_contains (unspent_transactions s)) inputs) (get_wallet_state C D name passphrase)"

definition get_unspent_transactions ::
    "'st client_env \<Rightarrow> wallet_state codec \<Rightarrow> bytes \<Rightarrow> bytes \<Rightarrow> ('st world, (txo_pointer, tx_out) btm) action" where
  "get_unspent_transactions C D name passphrase = act_map unspent_transactions (get_wallet_state C D name passphrase)"

definition get_transaction_history ::
    "'st client_env \<Rightarrow> wallet_state codec \<Rightarrow> bytes \<Rightarrow> bytes \<Rightarrow> ('st world, (txid, transaction_change) btm) action" where
  "get_transaction_history C D name passphrase = act_map transaction_history (get_wallet_state C D name passphrase)"

definition wss_get_transaction_change ::
    "'st client_env \<Rightarrow> wallet_state codec \<Rightarrow> bytes \<Rightarrow> bytes \<Rightarrow> txid \<Rightarrow> ('st world, transaction_change option) action" where
  "wss_get_transaction_change C D name passphrase i =
     act_map (\<lambda>s. get_transaction_change s i) (get_wallet_state C D name passphrase)"

definition wss_get_output ::
    "'st client_env \<Rightarrow> wallet_state codec \<Rightarrow> bytes \<Rightarrow> bytes \<Rightarrow> txo_pointer \<Rightarrow> ('st world, tx_out option) action" where
  "wss_get_output C D name passphrase input =
     act_bind (get_wallet_state C D name passphrase) (\<lambda>s. act_result (get_output s input))"

definition wss_get_balance ::
    "'st client_env \<Rightarrow> wallet_state codec \<Rightarrow> bytes \<Rightarrow> bytes \<Rightarrow> ('st world, coin) action" where
  "wss_get_balance C D name passphrase = act_map balance (get_wallet_state C D name passphrase)"

definition wss_clear :: "'st client_env \<Rightarrow> ('st world, unit) action" where
  "wss_clear C = on_store (st_clear (cl_storage C) STATE_KEYSPACE)"

section \<open>The effect of blocks\<close>

datatype syncer_logic_error =
    TotalInputOutOfBound txid
  | TotalOutputOutOfBound txid
  | InputIndexInvalid txid u16
  | InputFromMultipleWallets txid
  | OutputGreaterThanInput txid

record 'f filtered_block =
  fb_app_hash :: string
  fb_block_height :: u64
  fb_block_time :: string
  valid_transaction_ids :: "txid list"
  enclave_transaction_ids :: "txid list"
  fb_block_filter :: 'f
  staking_transactions :: "transaction list"

fun decorate_inputs :: "wallet_state \<Rightarrow> txo_pointer list \<Rightarrow> txid \<Rightarrow> syncer_logic_error + transaction_input list" where
  "decorate_inputs s [] i = Ok []"
| "decorate_inputs s (p # ps) i =
     and_then (map_err (\<lambda>_. InputIndexInvalid i (txo_index p)) (get_output s p)) (\<lambda>out.
     and_then (decorate_inputs s ps i) (\<lambda>rest. Ok (\<lparr>in_pointer = p, in_output = out\<rparr> # rest)))"

definition sum_outputs :: "tx_out list \<Rightarrow> coin_error + coin" where
  "sum_outputs os = sum_coins (map out_value os)"

definition our_output :: "extended_addr btset \<Rightarrow> transaction_input \<Rightarrow> tx_out option" where
  "our_output addrs input = (case in_output input of
     None \<Rightarrow> None | Some out \<Rightarrow> if bm_contains addrs (out_address out) then Some out else None)"

text \<open>\<open>collect::<Option<Vec<_>>>()\<close>: all values, or nothing if one is missing.\<close>

fun collect_options :: "'a option list \<Rightarrow> 'a list option" where
  "collect_options [] = Some []"
| "collect_options (x # xs) = (case x of None \<Rightarrow> None | Some v \<Rightarrow> map_option ((#) v) (collect_options xs))"

definition non_empty :: "'a list \<Rightarrow> 'a list option" where
  "non_empty xs = (if xs = [] then None else Some xs)"

definition calculate_balance_change ::
    "wallet \<Rightarrow> txid \<Rightarrow> transaction_input list \<Rightarrow> tx_out list \<Rightarrow> (syncer_logic_error + balance_change) run" where
  "calculate_balance_change w i inputs outs =
     (let addrs = wallet_transfer_addresses w;
          spent_outputs = Option.bind (collect_options (map (our_output addrs) inputs)) non_empty in
      try_run (Done (map_err (\<lambda>_. TotalOutputOutOfBound i) (sum_outputs outs))) (\<lambda>total_output.
      try_run (Done (map_err (\<lambda>_. TotalOutputOutOfBound i)
        (sum_outputs (filter (\<lambda>out. bm_contains addrs (out_address out)) outs)))) (\<lambda>total_output_ours.
      case spent_outputs of
        None \<Rightarrow>
          if list_ex (\<lambda>input. our_output addrs input \<noteq> None) inputs then Done (Err (InputFromMultipleWallets i))
          else Done (Ok (if total_output_ours = coin_zero then NoChange else Incoming total_output_ours))
      | Some spent \<Rightarrow>
          try_run (Done (map_err (\<lambda>_. TotalInputOutOfBound i) (sum_outputs spent))) (\<lambda>total_input.
          try_run (Done (map_err (\<lambda>_. OutputGreaterThanInput i) (coin_sub total_input total_output))) (\<lambda>fee.
          run_bind (expect (coin_sub total_output total_output_ours) ''impossible'') (\<lambda>v.
          Done (Ok (Outgoing v fee))))))))"

definition on_transaction_change :: "wallet \<Rightarrow> memento \<Rightarrow> transaction_change \<Rightarrow> memento" where
  "on_transaction_change w m change =
     (let m1 = foldl (\<lambda>m input. remove_unspent_transaction m (in_pointer input)) m (tc_inputs change);
          addrs = wallet_transfer_addresses w;
          m2 = foldl (\<lambda>m (i, out). if bm_contains addrs (out_address out)
                then add_unspent_transaction m (txo_pointer_new (tc_id change) i) out else m) m1 (enumerate 0 (tc_outputs change))
      in add_transaction_change m2 change)"

definition handle_transaction ::
    "ext \<Rightarrow> wallet \<Rightarrow> wallet_state \<Rightarrow> memento \<Rightarrow> transaction \<Rightarrow> u64 \<Rightarrow> string \<Rightarrow> (syncer_logic_error + memento) run" where
  "handle_transaction E w s m t height time =
     try_run (Done (decorate_inputs s (tr_inputs t) (tr_id E t))) (\<lambda>inputs.
      try_run (calculate_balance_change w (tr_id E t) inputs (tr_outputs t)) (\<lambda>change.
      Done (Ok (on_transaction_change w m \<lparr>tc_id = tr_id E t, tc_inputs = inputs, tc_outputs = tr_outputs t,
        tc_balance_change = change, tc_type = transaction_type_of t, tc_block_height = height, tc_block_time = time\<rparr>))))"

fun handle_staking ::
    "ext \<Rightarrow> wallet \<Rightarrow> wallet_state \<Rightarrow> 'f filtered_block \<Rightarrow> transaction list \<Rightarrow> memento \<Rightarrow> (syncer_logic_error + memento) run" where
  "handle_staking E w s block [] m = Done (Ok m)"
| "handle_staking E w s block (t # ts) m =
     (if tr_id E t \<in> set (valid_transaction_ids block)
      then try_run (handle_transaction E w s m t (fb_block_height block) (fb_block_time block)) (handle_staking E w s block ts)
      else handle_staking E w s block ts m)"

fun handle_enclave ::
    "ext \<Rightarrow> wallet \<Rightarrow> wallet_state \<Rightarrow> (txid \<rightharpoonup> transaction) \<Rightarrow> 'f filtered_block \<Rightarrow> txid list \<Rightarrow> memento \<Rightarrow>
     (syncer_logic_error + memento) run" where
  "handle_enclave E w s txs block [] m = Done (Ok m)"
| "handle_enclave E w s txs block (i # is) m = (case txs i of
     Some t \<Rightarrow> try_run (handle_transaction E w s m t (fb_block_height block) (fb_block_time block))
       (handle_enclave E w s txs block is)
   | None \<Rightarrow> handle_enclave E w s txs block is m)"

fun handle_each ::
    "ext \<Rightarrow> wallet \<Rightarrow> wallet_state \<Rightarrow> (txid \<rightharpoonup> transaction) \<Rightarrow> 'f filtered_block list \<Rightarrow> memento \<Rightarrow>
     (syncer_logic_error + memento) run" where
  "handle_each E w s txs [] m = Done (Ok m)"
| "handle_each E w s txs (block # blocks) m =
     try_run (handle_staking E w s block (staking_transactions block) m) (\<lambda>m1.
     try_run (handle_enclave E w s txs block (enclave_transaction_ids block) m1) (\<lambda>m2.
     handle_each E w s txs blocks m2))"

text \<open>Of transactions with the same identifier, the hash map keeps the last one.\<close>

definition handle_blocks ::
    "ext \<Rightarrow> wallet \<Rightarrow> wallet_state \<Rightarrow> 'f filtered_block list \<Rightarrow> transaction list \<Rightarrow> (syncer_logic_error + memento) run" where
  "handle_blocks E w s blocks enclave_transactions =
     handle_each E w s (map_of (rev (map (\<lambda>t. (tr_id E t, t)) enclave_transactions))) blocks []"

section \<open>The batch as a sequence of transactions\<close>

text \<open>The transactions a batch of blocks makes the wallet handle, in order, with their block.\<close>

fun handled_enclave :: "(txid \<rightharpoonup> transaction) \<Rightarrow> txid list \<Rightarrow> transaction list" where
  "handled_enclave txs [] = []"
| "handled_enclave txs (i # ids) = (case txs i of Some t \<Rightarrow> [t] | None \<Rightarrow> []) @ handled_enclave txs ids"

definition handled_block :: "ext \<Rightarrow> (txid \<rightharpoonup> transaction) \<Rightarrow> 'f filtered_block \<Rightarrow> (transaction \<times> u64 \<times> string) list" where
  "handled_block E txs block = map (\<lambda>t. (t, fb_block_height block, fb_block_time block))
     (filter (\<lambda>t. tr_id E t \<in> set (valid_transaction_ids block)) (staking_transactions block) @
      handled_enclave txs (enclave_transaction_ids block))"

definition enclave_map :: "ext \<Rightarrow> transaction list \<Rightarrow> txid \<rightharpoonup> transaction" where
  "enclave_map E ts = map_of (rev (map (\<lambda>t. (tr_id E t, t)) ts))"

definition handled :: "ext \<Rightarrow> 'f filtered_block list \<Rightarrow> transaction list \<Rightarrow> (transaction \<times> u64 \<times> string) list" where
  "handled E blocks ts = concat (map (handled_block E (enclave_map E ts)) blocks)"

fun handle_all ::
    "ext \<Rightarrow> wallet \<Rightarrow> wallet_state \<Rightarrow> (transaction \<times> u64 \<times> string) list \<Rightarrow> memento \<Rightarrow> (syncer_logic_error + memento) run" where
  "handle_all E w s [] m = Done (Ok m)"
| "handle_all E w s ((t, height, time) # ts) m = try_run (handle_transaction E w s m t height time) (handle_all E w s ts)"

lemma try_run_assoc: "try_run (try_run r f) g = try_run r (\<lambda>x. try_run (f x) g)"
  by (cases r) (auto simp: try_run_def split: sum.split)

lemma handle_all_append: "handle_all E w s (xs @ ys) = (\<lambda>m. try_run (handle_all E w s xs m) (handle_all E w s ys))"
proof (induction xs)
  case (Cons x xs)
  then show ?case by (intro ext, cases x) (simp add: try_run_assoc)
qed (simp add: fun_eq_iff)

lemma handle_staking_all:
  "handle_staking E w s block ts = handle_all E w s (map (\<lambda>t. (t, fb_block_height block, fb_block_time block))
     (filter (\<lambda>t. tr_id E t \<in> set (valid_transaction_ids block)) ts))"
proof (induction ts)
  case (Cons t ts)
  then show ?case by (intro ext) simp
qed (simp add: fun_eq_iff)

lemma handle_enclave_all:
  "handle_enclave E w s txs block ids =
   handle_all E w s (map (\<lambda>t. (t, fb_block_height block, fb_block_time block)) (handled_enclave txs ids))"
proof (induction ids)
  case (Cons i ids)
  then show ?case by (intro ext) (simp split: option.split)
qed (simp add: fun_eq_iff)

lemma handle_each_all:
  "handle_each E w s txs blocks = handle_all E w s (concat (map (handled_block E txs) blocks))"
proof (induction blocks)
  case (Cons b blocks)
  then show ?case
    by (intro ext) (simp add: handle_staking_all handle_enclave_all handled_block_def handle_all_append try_run_assoc)
qed (simp add: fun_eq_iff)

lemma handle_blocks_all: "handle_blocks E w s blocks ts = handle_all E w s (handled E blocks ts) []"
  by (simp add: handle_blocks_def handle_each_all handled_def enclave_map_def)

section \<open>The memento of a transaction\<close>

definition own :: "wallet \<Rightarrow> tx_out \<Rightarrow> bool" where
  "own w out \<longleftrightarrow> bm_contains (wallet_transfer_addresses w) (out_address out)"

definition added_outputs :: "wallet \<Rightarrow> txid \<Rightarrow> tx_out list \<Rightarrow> (txo_pointer \<times> tx_out) list" where
  "added_outputs w i outs = map (\<lambda>(k, out). (txo_pointer_new i k, out)) (filter (\<lambda>(k, out). own w out) (enumerate 0 outs))"

definition change_memento :: "wallet \<Rightarrow> transaction_change \<Rightarrow> memento" where
  "change_memento w c = map (\<lambda>x. RemoveUnspentTransaction (in_pointer x)) (tc_inputs c) @
     map (\<lambda>(p, out). AddUnspentTransaction p out) (added_outputs w (tc_id c) (tc_outputs c)) @ [AddTransactionChange (tc_id c) c]"

lemma foldl_snoc: "foldl (\<lambda>m x. m @ [f x]) m xs = m @ map f xs"
  by (induction xs arbitrary: m) simp_all

lemma on_transaction_change_eq: "on_transaction_change w m c = m @ change_memento w c"
proof -
  have "foldl (\<lambda>m (i, out). if bm_contains (wallet_transfer_addresses w) (out_address out)
      then add_unspent_transaction m (txo_pointer_new (tc_id c) i) out else m) m1 xs =
    m1 @ map (\<lambda>(i, out). AddUnspentTransaction (txo_pointer_new (tc_id c) i) out) (filter (\<lambda>(i, out). own w out) xs)" for m1 xs
    by (induction xs arbitrary: m1) (auto simp: own_def add_unspent_transaction_def)
  then show ?thesis
    by (simp add: on_transaction_change_def change_memento_def Let_def remove_unspent_transaction_def foldl_snoc
        add_transaction_change_def added_outputs_def comp_def case_prod_unfold)
qed

lemma apply_memento_append: "apply_memento (xs @ ys) s = and_then (apply_memento xs s) (apply_memento ys)"
  by (induction xs s rule: apply_memento.induct) (auto simp: and_then_def split: sum.split)

lemma apply_removals:
  "apply_memento (map (\<lambda>x. RemoveUnspentTransaction (f x)) xs) s =
   Ok (s\<lparr>unspent_transactions := fold (\<lambda>x. bm_remove (f x)) xs (unspent_transactions s)\<rparr>)"
  by (induction xs arbitrary: s) simp_all

lemma apply_additions:
  "apply_memento (map (\<lambda>(p, out). AddUnspentTransaction p out) xs) s =
   Ok (s\<lparr>unspent_transactions := fold (\<lambda>(p, out). bm_insert p out) xs (unspent_transactions s)\<rparr>)"
  by (induction xs arbitrary: s) auto

text \<open>The unspent outputs after a transaction.\<close>

definition next_unspent :: "wallet \<Rightarrow> transaction_change \<Rightarrow> (txo_pointer, tx_out) btm \<Rightarrow> (txo_pointer, tx_out) btm" where
  "next_unspent w c u = fold (\<lambda>(p, out). bm_insert p out) (added_outputs w (tc_id c) (tc_outputs c))
     (fold (\<lambda>x. bm_remove (in_pointer x)) (tc_inputs c) u)"

lemma apply_change_memento:
  assumes "\<not> bm_contains (transaction_history s) (tc_id c)"
  shows "apply_memento (change_memento w c) s = and_then (coin_add_change (balance s) (tc_balance_change c)) (\<lambda>b.
     Ok (s\<lparr>unspent_transactions := next_unspent w c (unspent_transactions s), balance := b,
       transaction_history := bm_insert (tc_id c) c (transaction_history s)\<rparr>))"
  using assms
  by (simp add: change_memento_def apply_memento_append apply_removals apply_additions next_unspent_def and_then_def
      split: sum.split)

section \<open>Sums over the unspent outputs\<close>

definition total_unspent :: "(txo_pointer, tx_out) btm \<Rightarrow> nat" where
  "total_unspent u = sum_list (map (\<lambda>(p, out). coin_val (out_value out)) u)"

lemma total_insert: "bm_get u p = None \<Longrightarrow> total_unspent (bm_insert p out u) = coin_val (out_value out) + total_unspent u"
  by (induction p out u rule: bm_insert.induct) (auto simp: total_unspent_def bm_get_def split: if_splits)

lemma total_remove:
  "bm_wf u \<Longrightarrow> total_unspent u = (case bm_get u p of None \<Rightarrow> 0 | Some out \<Rightarrow> coin_val (out_value out)) + total_unspent (bm_remove p u)"
proof (induction u)
  case Nil
  then show ?case by (simp add: total_unspent_def bm_get_def bm_remove_def)
next
  case (Cons a u)
  obtain q out where a: "a = (q, out)" by (cases a)
  have wf: "bm_wf u" and not: "q \<notin> fst ` set u" using Cons.prems by (auto simp: bm_wf_def a)
  show ?case
  proof (cases "q = p")
    case True
    have "filter (\<lambda>x. fst x \<noteq> p) u = u" using not True by (auto simp: filter_id_conv)
    then show ?thesis by (simp add: a True total_unspent_def bm_get_def bm_remove_def)
  next
    case False
    then show ?thesis using Cons.IH [OF wf] by (simp add: a total_unspent_def bm_get_def bm_remove_def)
  qed
qed

lemma total_remove_all:
  assumes "bm_wf u" "distinct (map in_pointer xs)"
  shows "total_unspent u = (\<Sum>x \<leftarrow> xs. case bm_get u (in_pointer x) of None \<Rightarrow> 0 | Some out \<Rightarrow> coin_val (out_value out)) +
    total_unspent (fold (\<lambda>x. bm_remove (in_pointer x)) xs u)"
  using assms
proof (induction xs arbitrary: u)
  case Nil
  then show ?case by simp
next
  case (Cons x xs)
  have wf: "bm_wf (bm_remove (in_pointer x) u)" using Cons.prems by (simp add: btm.inv_del)
  have "(\<Sum>y \<leftarrow> xs. case bm_get (bm_remove (in_pointer x) u) (in_pointer y) of None \<Rightarrow> 0 | Some out \<Rightarrow> coin_val (out_value out)) =
      (\<Sum>y \<leftarrow> xs. case bm_get u (in_pointer y) of None \<Rightarrow> 0 | Some out \<Rightarrow> coin_val (out_value out))"
    using Cons.prems(2) by (intro arg_cong [of _ _ sum_list] map_cong refl) (metis bm_get_remove distinct.simps(2) image_eqI list.set_map list.simps(9))
  then show ?case using Cons.IH [OF wf] Cons.prems total_remove [OF Cons.prems(1), of "in_pointer x"] by simp
qed

lemma total_insert_all:
  assumes "bm_wf u" "distinct (map fst xs)" "\<forall>p \<in> fst ` set xs. bm_get u p = None"
  shows "total_unspent (fold (\<lambda>(p, out). bm_insert p out) xs u) =
    (\<Sum>(p, out) \<leftarrow> xs. coin_val (out_value out)) + total_unspent u"
  using assms
proof (induction xs arbitrary: u)
  case Nil
  then show ?case by simp
next
  case (Cons a xs)
  obtain p out where a: "a = (p, out)" by (cases a)
  have "\<forall>q \<in> fst ` set xs. bm_get (bm_insert p out u) q = None"
    using Cons.prems by (auto simp: a btm.get_ins)
  with Cons.IH [of "bm_insert p out u"] Cons.prems show ?case by (simp add: a btm.inv_ins total_insert)
qed

section \<open>The balance of a wallet\<close>

definition state_ok :: "wallet \<Rightarrow> wallet_state \<Rightarrow> bool" where
  "state_ok w s \<longleftrightarrow> bm_wf (unspent_transactions s) \<and> bm_wf (transaction_history s) \<and>
     coin_val (balance s) = total_unspent (unspent_transactions s) \<and>
     (\<forall>p out. bm_get (unspent_transactions s) p = Some out \<longrightarrow> get_output s p = Ok (Some out) \<and> own w out)"

definition value_of :: "tx_out option \<Rightarrow> nat" where
  "value_of out = (case out of None \<Rightarrow> 0 | Some out \<Rightarrow> coin_val (out_value out))"

lemma value_of_simps [simp]: "value_of None = 0" "value_of (Some out) = coin_val (out_value out)"
  by (simp_all add: value_of_def)

lemma collect_options_Some: "collect_options xs = Some ys \<Longrightarrow> xs = map Some ys"
  by (induction xs arbitrary: ys) (auto split: option.splits)

lemma calculate_Outgoing:
  assumes "calculate_balance_change w i inputs outs = Done (Ok (Outgoing v fee))"
  shows "coin_val v + coin_val fee + (\<Sum>out \<leftarrow> filter (own w) outs. coin_val (out_value out)) =
    (\<Sum>x \<leftarrow> inputs. value_of (our_output (wallet_transfer_addresses w) x))"
proof -
  let ?addrs = "wallet_transfer_addresses w"
  from assms obtain tot ours spent input where c: "sum_outputs outs = Ok tot" "sum_outputs (filter (own w) outs) = Ok ours"
      "Option.bind (collect_options (map (our_output ?addrs) inputs)) non_empty = Some spent"
      "sum_outputs spent = Ok input" "coin_sub input tot = Ok fee" "coin_sub tot ours = Ok v"
    by (auto simp: calculate_balance_change_def Let_def own_def [abs_def] run_elims map_err_eq_Ok split: option.splits if_splits)
  then have spent: "map (our_output ?addrs) inputs = map Some spent"
    by (auto simp: bind_eq_Some_conv non_empty_def collect_options_Some split: if_splits)
  have "(\<Sum>x \<leftarrow> inputs. value_of (our_output ?addrs x)) = sum_list (map value_of (map (our_output ?addrs) inputs))"
    by (simp add: comp_def)
  also have "\<dots> = coin_val input"
    unfolding spent using c(4) by (simp add: sum_outputs_def sum_coins_eq_Ok comp_def)
  finally show ?thesis
    using c(2,5,6) by (simp add: sum_outputs_def sum_coins_eq_Ok coin_sub_eq_Ok comp_def)
qed

lemma calculate_other:
  assumes "calculate_balance_change w i inputs outs = Done (Ok change)" "\<forall>v fee. change \<noteq> Outgoing v fee"
  shows "(\<Sum>x \<leftarrow> inputs. value_of (our_output (wallet_transfer_addresses w) x)) = 0"
    and "\<exists>ours. coin_val ours = (\<Sum>out \<leftarrow> filter (own w) outs. coin_val (out_value out)) \<and>
      change = (if ours = coin_zero then NoChange else Incoming ours)"
proof -
  from assms obtain ours where c: "sum_outputs (filter (own w) outs) = Ok ours"
      "\<forall>x \<in> set inputs. our_output (wallet_transfer_addresses w) x = None"
      "change = (if ours = coin_zero then NoChange else Incoming ours)"
    by (auto simp: calculate_balance_change_def Let_def own_def [abs_def] run_elims map_err_eq_Ok list_ex_iff
        split: option.splits if_splits)
  then show "(\<Sum>x \<leftarrow> inputs. value_of (our_output (wallet_transfer_addresses w) x)) = 0" by simp
  show "\<exists>ours. coin_val ours = (\<Sum>out \<leftarrow> filter (own w) outs. coin_val (out_value out)) \<and>
      change = (if ours = coin_zero then NoChange else Incoming ours)"
    using c(1,3) by (intro exI [of _ ours]) (simp add: sum_outputs_def sum_coins_eq_Ok comp_def)
qed

lemma balance_change_value:
  assumes "calculate_balance_change w i inputs outs = Done (Ok change)" "coin_add_change b change = Ok b'"
  shows "coin_val b' + (\<Sum>x \<leftarrow> inputs. value_of (our_output (wallet_transfer_addresses w) x)) =
    coin_val b + (\<Sum>out \<leftarrow> filter (own w) outs. coin_val (out_value out))"
proof (cases change)
  case (Outgoing v fee)
  then show ?thesis
    using calculate_Outgoing [of w i inputs outs v fee] assms by (auto simp: run_elims err_kind_eq_Ok coin_sub_eq_Ok)
next
  case (Incoming v)
  then show ?thesis
    using calculate_other [OF assms(1)] assms(2) by (auto simp: err_kind_eq_Ok coin_add_eq_Ok split: if_splits)
next
  case NoChange
  then have "\<exists>ours. coin_val ours = (\<Sum>out \<leftarrow> filter (own w) outs. coin_val (out_value out)) \<and> ours = coin_zero"
    using calculate_other(2) [OF assms(1)] by (auto split: if_splits)
  then have zero: "(\<Sum>out \<leftarrow> filter (own w) outs. coin_val (out_value out)) = 0" by (metis coin_val_consts(1))
  have spent: "(\<Sum>x \<leftarrow> inputs. value_of (our_output (wallet_transfer_addresses w) x)) = 0"
    by (rule calculate_other(1) [OF assms(1)]) (simp add: NoChange)
  show ?thesis unfolding zero spent using assms(2) NoChange by simp
qed

text \<open>A transaction that the wallet state is ready for.\<close>

definition fresh_for :: "ext \<Rightarrow> wallet \<Rightarrow> wallet_state \<Rightarrow> transaction \<Rightarrow> bool" where
  "fresh_for E w s t \<longleftrightarrow> \<not> bm_contains (transaction_history s) (tr_id E t) \<and> distinct (tr_inputs t) \<and>
     length (tr_outputs t) \<le> 65536 \<and>
     (\<forall>p \<in> set (tr_inputs t). \<forall>out. get_output s p = Ok (Some out) \<and> own w out \<longrightarrow>
        bm_get (unspent_transactions s) p = Some out)"

lemma decorate_inputs_Ok:
  "decorate_inputs s ps i = Ok xs \<longleftrightarrow>
     map in_pointer xs = ps \<and> (\<forall>x \<in> set xs. get_output s (in_pointer x) = Ok (in_output x))"
proof (induction ps arbitrary: xs)
  case Nil
  then show ?case by auto
next
  case (Cons p ps)
  show ?case
    by (cases xs) (auto simp: run_elims map_err_eq_Ok Cons.IH)
qed

lemma handle_transaction_Ok:
  assumes "handle_transaction E w s m t height time = Done (Ok m')"
  obtains c where "m' = m @ change_memento w c" "tc_id c = tr_id E t" "tc_outputs c = tr_outputs t"
    "map in_pointer (tc_inputs c) = tr_inputs t" "\<forall>x \<in> set (tc_inputs c). get_output s (in_pointer x) = Ok (in_output x)"
    "calculate_balance_change w (tr_id E t) (tc_inputs c) (tr_outputs t) = Done (Ok (tc_balance_change c))"
  using assms
  by (auto simp: handle_transaction_def run_elims decorate_inputs_Ok on_transaction_change_eq)

lemma added_pointers:
  assumes "length outs \<le> 65536"
  shows "distinct (map fst (added_outputs w i outs))"
    and "(p, out) \<in> set (added_outputs w i outs) \<longleftrightarrow>
      txo_id p = i \<and> unat (txo_index p) < length outs \<and> outs ! unat (txo_index p) = out \<and> own w out"
proof -
  have un: "k < length outs \<Longrightarrow> unat (of_nat k :: u16) = k" for k
    using assms by (simp add: unat_of_nat)
  have "distinct (filter (\<lambda>(k, out). own w out) (enumerate 0 outs))" by simp
  moreover have "inj_on (\<lambda>(k, out). txo_pointer_new i k) (set (filter (\<lambda>(k, out). own w out) (enumerate 0 outs)))"
    by (intro inj_onI) (auto simp: txo_pointer_new_def in_set_enumerate_eq, (metis un)+)
  ultimately show "distinct (map fst (added_outputs w i outs))"
    by (simp add: added_outputs_def distinct_map comp_def case_prod_unfold)
  show "(p, out) \<in> set (added_outputs w i outs) \<longleftrightarrow>
      txo_id p = i \<and> unat (txo_index p) < length outs \<and> outs ! unat (txo_index p) = out \<and> own w out"
  proof
    assume "(p, out) \<in> set (added_outputs w i outs)"
    then show "txo_id p = i \<and> unat (txo_index p) < length outs \<and> outs ! unat (txo_index p) = out \<and> own w out"
      by (auto simp: added_outputs_def txo_pointer_new_def in_set_enumerate_eq un)
  next
    assume r: "txo_id p = i \<and> unat (txo_index p) < length outs \<and> outs ! unat (txo_index p) = out \<and> own w out"
    then have "p = txo_pointer_new i (unat (txo_index p))" by (simp add: txo_pointer_new_def)
    with r show "(p, out) \<in> set (added_outputs w i outs)"
      by (force simp: added_outputs_def in_set_enumerate_eq)
  qed
qed

lemma added_value:
  "(\<Sum>(p, out) \<leftarrow> added_outputs w i outs. coin_val (out_value out)) = (\<Sum>out \<leftarrow> filter (own w) outs. coin_val (out_value out))"
proof -
  have "map snd (filter (\<lambda>(k, out). own w out) (enumerate n outs)) = filter (own w) outs" for n
    by (induction outs arbitrary: n) auto
  from this [of 0, symmetric] show ?thesis
    by (simp add: added_outputs_def comp_def case_prod_unfold)
qed

lemma next_unspent_get:
  assumes "bm_wf u" "length (tc_outputs c) \<le> 65536"
  shows "bm_wf (next_unspent w c u)"
    and "bm_get (next_unspent w c u) p = (if \<exists>out. (p, out) \<in> set (added_outputs w (tc_id c) (tc_outputs c))
      then Some (tc_outputs c ! unat (txo_index p))
      else if p \<in> in_pointer ` set (tc_inputs c) then None else bm_get u p)"
proof -
  have rem: "fold (\<lambda>x. bm_remove (in_pointer x)) (tc_inputs c) u = fold bm_remove (map in_pointer (tc_inputs c)) u"
    by (simp add: fold_map comp_def)
  have wf: "bm_wf (fold bm_remove (map in_pointer (tc_inputs c)) u)" by (rule btm.inv_fold_del [OF assms(1)])
  show "bm_wf (next_unspent w c u)" unfolding next_unspent_def rem by (rule btm.inv_fold_ins [OF wf])
  let ?added = "added_outputs w (tc_id c) (tc_outputs c)"
  have get: "bm_get (next_unspent w c u) p = (case map_of (rev ?added) p of
      None \<Rightarrow> if p \<in> in_pointer ` set (tc_inputs c) then None else bm_get u p | Some v \<Rightarrow> Some v)"
    unfolding next_unspent_def rem btm.get_fold_ins [OF wf] btm.get_fold_del [OF assms(1)] by simp
  show "bm_get (next_unspent w c u) p = (if \<exists>out. (p, out) \<in> set ?added then Some (tc_outputs c ! unat (txo_index p))
      else if p \<in> in_pointer ` set (tc_inputs c) then None else bm_get u p)"
  proof (cases "map_of (rev ?added) p")
    case None
    then have "\<not> (\<exists>out. (p, out) \<in> set ?added)" by (force simp: map_of_eq_None_iff)
    then show ?thesis using get None by simp
  next
    case (Some out)
    then have "(p, out) \<in> set ?added" by (auto dest: map_of_SomeD)
    moreover from this have "tc_outputs c ! unat (txo_index p) = out" by (simp add: added_pointers(2) [OF assms(2)])
    ultimately show ?thesis using get Some by auto
  qed
qed

text \<open>The sum of the unspent outputs after a transaction.\<close>

lemma total_next_unspent:
  assumes wf: "bm_wf u" and len: "length (tc_outputs c) \<le> 65536" and dist: "distinct (map in_pointer (tc_inputs c))"
    and old: "\<And>p out. bm_get u p = Some out \<Longrightarrow> txo_id p \<noteq> tc_id c"
  shows "total_unspent (next_unspent w c u) + (\<Sum>x \<leftarrow> tc_inputs c. value_of (bm_get u (in_pointer x))) =
    total_unspent u + (\<Sum>out \<leftarrow> filter (own w) (tc_outputs c). coin_val (out_value out))"
proof -
  let ?u1 = "fold (\<lambda>x. bm_remove (in_pointer x)) (tc_inputs c) u"
  have u1: "?u1 = fold bm_remove (map in_pointer (tc_inputs c)) u" by (simp add: fold_map comp_def)
  have none: "\<forall>q \<in> fst ` set (added_outputs w (tc_id c) (tc_outputs c)). bm_get ?u1 q = None"
    using old unfolding u1 btm.get_fold_del [OF wf] by (fastforce simp: added_pointers(2) [OF len])
  have "total_unspent (next_unspent w c u) =
      (\<Sum>out \<leftarrow> filter (own w) (tc_outputs c). coin_val (out_value out)) + total_unspent ?u1"
    unfolding next_unspent_def
    by (subst total_insert_all [OF _ added_pointers(1) [OF len] none]) (simp_all add: added_value u1 btm.inv_fold_del wf)
  then show ?thesis using total_remove_all [OF wf dist] by (simp add: value_of_def)
qed

lemma spent_value:
  assumes "state_ok w s" "fresh_for E w s t" "in_pointer x \<in> set (tr_inputs t)" "get_output s (in_pointer x) = Ok (in_output x)"
  shows "bm_get (unspent_transactions s) (in_pointer x) = our_output (wallet_transfer_addresses w) x"
proof (cases "our_output (wallet_transfer_addresses w) x")
  case None
  then show ?thesis
    using assms(1,4) by (cases "bm_get (unspent_transactions s) (in_pointer x)")
      (auto simp: state_ok_def our_output_def own_def split: option.splits if_splits)
next
  case (Some out)
  then have "in_output x = Some out" "own w out" by (auto simp: our_output_def own_def split: option.splits if_splits)
  then show ?thesis using assms Some by (auto simp: fresh_for_def)
qed

text \<open>What a handled transaction records.\<close>

definition records :: "ext \<Rightarrow> wallet \<Rightarrow> wallet_state \<Rightarrow> transaction \<Rightarrow> transaction_change \<Rightarrow> bool" where
  "records E w s t c \<longleftrightarrow> tc_id c = tr_id E t \<and> tc_outputs c = tr_outputs t \<and> map in_pointer (tc_inputs c) = tr_inputs t \<and>
     (\<forall>x \<in> set (tc_inputs c). get_output s (in_pointer x) = Ok (in_output x)) \<and>
     calculate_balance_change w (tr_id E t) (tc_inputs c) (tr_outputs t) = Done (Ok (tc_balance_change c))"

definition own_total :: "wallet \<Rightarrow> transaction \<Rightarrow> nat" where
  "own_total w t = (\<Sum>out \<leftarrow> filter (own w) (tr_outputs t). coin_val (out_value out))"

lemma total_step:
  assumes ok: "state_ok w s" and fresh: "fresh_for E w s t" and c: "records E w s t c"
  shows "total_unspent (next_unspent w c (unspent_transactions s)) +
      (\<Sum>x \<leftarrow> tc_inputs c. value_of (our_output (wallet_transfer_addresses w) x)) =
    coin_val (balance s) + own_total w t"
proof -
  have "in_pointer ` set (tc_inputs c) = set (tr_inputs t)" using c by (metis records_def list.set_map)
  then have "(\<Sum>x \<leftarrow> tc_inputs c. value_of (our_output (wallet_transfer_addresses w) x)) =
      (\<Sum>x \<leftarrow> tc_inputs c. value_of (bm_get (unspent_transactions s) (in_pointer x)))"
    using spent_value [OF ok fresh] c
    by (intro arg_cong [of _ _ sum_list] map_cong refl) (metis image_eqI records_def)
  moreover have "txo_id p \<noteq> tc_id c" if "bm_get (unspent_transactions s) p = Some out" for p out
    using that ok fresh c by (fastforce simp: state_ok_def fresh_for_def records_def get_output_def
        get_transaction_change_def bm_contains_def split: option.splits)
  ultimately show ?thesis
    using total_next_unspent [of "unspent_transactions s" c w] ok fresh c
    by (simp add: state_ok_def fresh_for_def records_def own_total_def)
qed

lemma state_ok_step:
  assumes ok: "state_ok w s" and fresh: "fresh_for E w s t" and c: "records E w s t c"
    and app: "apply_memento (change_memento w c) s = Ok s'"
  shows "state_ok w s'"
    and "txo_id p \<noteq> tr_id E t \<Longrightarrow> get_output s' p = get_output s p"
    and "txo_id p \<noteq> tr_id E t \<Longrightarrow> p \<notin> set (tr_inputs t) \<Longrightarrow>
      bm_get (unspent_transactions s') p = bm_get (unspent_transactions s) p"
    and "bm_contains (transaction_history s') i \<longleftrightarrow> i = tr_id E t \<or> bm_contains (transaction_history s) i"
    and "coin_val (balance s') \<le> coin_val (balance s) + own_total w t"
proof -
  let ?u = "unspent_transactions s" and ?h = "transaction_history s"
  have wf: "bm_wf ?u" "bm_wf ?h"
    and inv: "\<And>p out. bm_get ?u p = Some out \<Longrightarrow> get_output s p = Ok (Some out) \<and> own w out"
    using ok by (simp_all add: state_ok_def)
  have ci: "tc_id c = tr_id E t" "tc_outputs c = tr_outputs t" "in_pointer ` set (tc_inputs c) = set (tr_inputs t)"
    using c by (simp_all add: records_def) (metis list.set_map)
  have new: "\<not> bm_contains ?h (tc_id c)" and len: "length (tc_outputs c) \<le> 65536"
    using fresh ci by (simp_all add: fresh_for_def)
  from app obtain b where b: "coin_add_change (balance s) (tc_balance_change c) = Ok b"
    and s': "s' = s\<lparr>unspent_transactions := next_unspent w c ?u, balance := b, transaction_history := bm_insert (tc_id c) c ?h\<rparr>"
    by (auto simp: apply_change_memento [OF new] run_elims)
  have hist: "get_transaction_change s' i = (if i = tc_id c then Some c else get_transaction_change s i)" for i
    by (simp add: s' get_transaction_change_def btm.get_ins [OF wf(2)])
  show out: "txo_id p \<noteq> tr_id E t \<Longrightarrow> get_output s' p = get_output s p" for p
    by (simp add: get_output_def hist ci(1))
  show "bm_contains (transaction_history s') i \<longleftrightarrow> i = tr_id E t \<or> bm_contains ?h i"
    by (simp add: s' bm_contains_insert [OF wf(2)] ci(1))
  note get = next_unspent_get [OF wf(1) len]
  show "txo_id p \<noteq> tr_id E t \<Longrightarrow> p \<notin> set (tr_inputs t) \<Longrightarrow> bm_get (unspent_transactions s') p = bm_get ?u p" for p
    using added_pointers(2) [OF len, of p] by (simp add: s' get(2) ci)
  have val: "coin_val b = total_unspent (next_unspent w c ?u)" "coin_val b \<le> coin_val (balance s) + own_total w t"
    using balance_change_value [of w "tr_id E t" "tc_inputs c" "tr_outputs t", OF _ b] total_step [OF ok fresh c] c
    by (simp_all add: records_def own_total_def)
  then show "coin_val (balance s') \<le> coin_val (balance s) + own_total w t" by (simp add: s')
  have "get_output s' p = Ok (Some out) \<and> own w out" if "bm_get (next_unspent w c ?u) p = Some out" for p out
  proof (cases "\<exists>out. (p, out) \<in> set (added_outputs w (tc_id c) (tc_outputs c))")
    case True
    then show ?thesis
      using that by (auto simp: get(2) added_pointers(2) [OF len] get_output_def hist split: if_splits)
  next
    case False
    then have u: "bm_get ?u p = Some out" using that by (simp add: get(2) split: if_splits)
    moreover have "txo_id p \<noteq> tr_id E t"
      using inv [OF u] new ci(1) by (auto simp: get_output_def get_transaction_change_def bm_contains_def split: option.splits)
    ultimately show ?thesis using inv out [of p] by metis
  qed
  then show "state_ok w s'"
    by (simp add: state_ok_def s' get(1) btm.inv_ins [OF wf(2)] val(1))
qed

text \<open>Recording a transaction fails only when the balance exceeds the maximum.\<close>

lemma change_applies:
  assumes ok: "state_ok w s" and fresh: "fresh_for E w s t" and c: "records E w s t c"
    and bound: "coin_val (balance s) + own_total w t \<le> max_supply"
  shows "\<exists>s'. apply_memento (change_memento w c) s = Ok s'"
proof -
  let ?addrs = "wallet_transfer_addresses w"
  have calc: "calculate_balance_change w (tr_id E t) (tc_inputs c) (tr_outputs t) = Done (Ok (tc_balance_change c))"
    using c by (simp add: records_def)
  have "\<exists>b. coin_add_change (balance s) (tc_balance_change c) = Ok b"
  proof (cases "tc_balance_change c")
    case (Incoming v)
    then have "coin_val v = own_total w t"
      using calculate_other(2) [OF calc] by (auto simp: own_total_def split: if_splits)
    then show ?thesis using bound coin_add_total [of "balance s" v] by (auto simp: Incoming)
  next
    case (Outgoing v fee)
    have le: "coin_val v + coin_val fee \<le> coin_val (balance s)"
      using calculate_Outgoing [OF calc [unfolded Outgoing]] total_step [OF ok fresh c] by (simp add: own_total_def)
    then obtain n where n: "coin_sub (balance s) v = Ok n"
      using coin_sub_total [of "balance s" v] bound by (auto simp: valid_coin_iff)
    then have "coin_val n + coin_val v = coin_val (balance s)" "valid_coin n" by (simp_all add: coin_sub_eq_Ok valid_coin_iff)
    then obtain r where "coin_sub n fee = Ok r" using coin_sub_total [of n fee] le by auto
    then show ?thesis by (simp add: Outgoing n)
  next
    case NoChange
    then show ?thesis by simp
  qed
  moreover have "\<not> bm_contains (transaction_history s) (tc_id c)" using fresh c by (simp add: fresh_for_def records_def)
  ultimately show ?thesis by (auto simp: apply_change_memento)
qed

text \<open>A batch: new transactions that spend no output of the batch and no output twice.\<close>

definition batch_ok :: "ext \<Rightarrow> wallet \<Rightarrow> wallet_state \<Rightarrow> transaction list \<Rightarrow> bool" where
  "batch_ok E w s ts \<longleftrightarrow> distinct (map (tr_id E) ts) \<and> distinct (concat (map tr_inputs ts)) \<and>
     (\<forall>t \<in> set ts. fresh_for E w s t \<and> (\<forall>p \<in> set (tr_inputs t). txo_id p \<notin> tr_id E ` set ts))"

lemma batch_ok_step:
  assumes "batch_ok E w s (t # ts)" "state_ok w s" "records E w s t c" "apply_memento (change_memento w c) s = Ok s'"
  shows "batch_ok E w s' ts"
    and "u \<in> set ts \<Longrightarrow> p \<in> set (tr_inputs u) \<Longrightarrow> get_output s' p = get_output s p"
proof -
  have fresh: "fresh_for E w s t" using assms(1) by (simp add: batch_ok_def)
  note step = state_ok_step(2-4) [OF assms(2) fresh assms(3,4)]
  show out: "u \<in> set ts \<Longrightarrow> p \<in> set (tr_inputs u) \<Longrightarrow> get_output s' p = get_output s p" for u p
    using assms(1) by (intro step(1)) (auto simp: batch_ok_def)
  have "fresh_for E w s' u" if u: "u \<in> set ts" for u
  proof -
    have fu: "fresh_for E w s u" "tr_id E u \<noteq> tr_id E t" using assms(1) u by (auto simp: batch_ok_def image_iff)
    have "bm_get (unspent_transactions s') p = bm_get (unspent_transactions s) p" if p: "p \<in> set (tr_inputs u)" for p
      using assms(1) u p by (intro step(2)) (auto simp: batch_ok_def)
    then show ?thesis
      using fu out [OF u] by (auto simp: fresh_for_def step(3))
  qed
  then show "batch_ok E w s' ts" using assms(1) by (auto simp: batch_ok_def)
qed

lemma handle_transaction_records:
  assumes "handle_transaction E w s0 m t height time = Done (Ok m')" "\<forall>p \<in> set (tr_inputs t). get_output s p = get_output s0 p"
  obtains c where "m' = m @ change_memento w c" "records E w s t c"
proof -
  from handle_transaction_Ok [OF assms(1)] obtain c where c: "m' = m @ change_memento w c" "records E w s0 t c"
    unfolding records_def by metis
  moreover have "in_pointer ` set (tc_inputs c) = set (tr_inputs t)" using c(2) by (metis records_def list.set_map)
  ultimately have "\<forall>x \<in> set (tc_inputs c). get_output s (in_pointer x) = Ok (in_output x)"
    using assms(2) unfolding records_def by (metis image_eqI)
  then have "records E w s t c" using c(2) by (simp add: records_def)
  with c(1) show ?thesis by (rule that)
qed

lemma handle_all_ok:
  assumes "handle_all E w s0 ts m = Done (Ok m')" "state_ok w s" "batch_ok E w s (map fst ts)"
    and "\<forall>t \<in> set (map fst ts). \<forall>p \<in> set (tr_inputs t). get_output s p = get_output s0 p"
    and "coin_val (balance s) + (\<Sum>t \<leftarrow> map fst ts. own_total w t) \<le> max_supply"
  shows "\<exists>mm s'. m' = m @ mm \<and> apply_memento mm s = Ok s' \<and> state_ok w s'"
  using assms
proof (induction ts arbitrary: m s)
  case Nil
  then show ?case by simp
next
  case (Cons x ts)
  obtain t height time where x: "x = (t, height, time)" by (cases x)
  from Cons.prems(1) obtain m1 where m1: "handle_transaction E w s0 m t height time = Done (Ok m1)"
      "handle_all E w s0 ts m1 = Done (Ok m')"
    by (auto simp: x run_elims)
  from handle_transaction_records [OF m1(1), of s] Cons.prems(4) obtain c where
    c: "m1 = m @ change_memento w c" "records E w s t c" by (auto simp: x)
  have fresh: "fresh_for E w s t" and batch: "batch_ok E w s (t # map fst ts)"
    using Cons.prems(3) by (simp_all add: batch_ok_def x)
  obtain s1 where s1: "apply_memento (change_memento w c) s = Ok s1"
    using change_applies [OF Cons.prems(2) fresh c(2)] Cons.prems(5) by (auto simp: x)
  note step = state_ok_step [OF Cons.prems(2) fresh c(2) s1] and bstep = batch_ok_step [OF batch Cons.prems(2) c(2) s1]
  have "coin_val (balance s1) + (\<Sum>t \<leftarrow> map fst ts. own_total w t) \<le> max_supply"
    using step(5) Cons.prems(5) by (simp add: x)
  moreover have "\<forall>u \<in> set (map fst ts). \<forall>p \<in> set (tr_inputs u). get_output s1 p = get_output s0 p"
    using bstep(2) Cons.prems(4) by (auto simp: x)
  ultimately obtain mm s' where "m' = m1 @ mm" "apply_memento mm s1 = Ok s'" "state_ok w s'"
    using Cons.IH [OF m1(2) step(1) bstep(1)] by blast
  then show ?case
    using c(1) s1 by (intro exI [of _ "change_memento w c @ mm"] exI [of _ s']) (simp add: apply_memento_append)
qed

lemma calculate_returns: "\<exists>r. calculate_balance_change w i inputs outs = Done r"
proof -
  have sub: "\<exists>v. coin_sub tot ours = Ok v" if "sum_outputs outs = Ok tot" "sum_outputs (filter P outs) = Ok ours" for tot ours P
  proof (rule coin_sub_total)
    show "valid_coin tot" "coin_val ours \<le> coin_val tot"
      using that by (auto simp: sum_outputs_def sum_coins_eq_Ok valid_coin_iff comp_def sum_list_filter_le_nat)
  qed
  show ?thesis
    unfolding calculate_balance_change_def Let_def
    by (auto simp: try_run_def map_err_def run_bind_def dest!: sub split: sum.split option.split)
qed

lemma handle_all_returns: "\<exists>r. handle_all E w s ts m = Done r"
proof (induction ts arbitrary: m)
  case (Cons x ts)
  obtain t height time where x: "x = (t, height, time)" by (cases x)
  show ?case
  proof (cases "decorate_inputs s (tr_inputs t) (tr_id E t)")
    case (Inl e)
    then show ?thesis by (simp add: x handle_transaction_def)
  next
    case (Inr inputs)
    obtain r where "calculate_balance_change w (tr_id E t) inputs (tr_outputs t) = Done r" using calculate_returns by blast
    then show ?thesis using Inr Cons.IH by (cases r) (simp_all add: x handle_transaction_def)
  qed
qed simp

text \<open>
  C9: the balance of a wallet is the sum of its unspent outputs.  Take a wallet state
  with this property whose unspent outputs are known from its history and belong to
  the wallet, and a batch of new transactions of which none spends an output of the
  batch, no output is spent twice, and every spent output of the wallet was unspent.
  Then handling the batch does not panic, and when it succeeds, the memento applies
  (the wallet's coins being at most the supply) and gives a state with the same
  property.
\<close>

theorem balance_is_unspent:
  assumes "state_ok w s" "batch_ok E w s (map fst (handled E blocks ts))"
    and "coin_val (balance s) + (\<Sum>t \<leftarrow> map fst (handled E blocks ts). own_total w t) \<le> max_supply"
  shows "\<exists>r. handle_blocks E w s blocks ts = Done r \<and>
    (\<forall>m. r = Ok m \<longrightarrow> (\<exists>s'. apply_memento m s = Ok s' \<and> state_ok w s' \<and>
       coin_val (balance s') = total_unspent (unspent_transactions s')))"
proof -
  obtain r where "handle_blocks E w s blocks ts = Done r"
    using handle_all_returns by (metis handle_blocks_all)
  moreover have "\<exists>s'. apply_memento m s = Ok s' \<and> state_ok w s' \<and>
       coin_val (balance s') = total_unspent (unspent_transactions s')" if "handle_blocks E w s blocks ts = Done (Ok m)" for m
    using handle_all_ok [OF that [unfolded handle_blocks_all] assms(1,2) _ assms(3)] by (auto simp: state_ok_def)
  ultimately show ?thesis by blast
qed

section \<open>Examples\<close>

text \<open>
  A wallet with one address, a transaction that pays 100 to it, and a transaction
  that spends this output to another address.
\<close>

definition ledger_ext :: ext where
  "ledger_ext = \<lparr>blake2s = (\<lambda>b. b), sha256 = (\<lambda>b. b), keccak256 = (\<lambda>b. b),
     enc_tx = (\<lambda>t. if tx_inputs t = [] then [1] else [2]), enc_deposit = (\<lambda>_. [3]), enc_unbond = (\<lambda>_. [4]),
     enc_withdraw = (\<lambda>_. [5]), enc_unjail = (\<lambda>_. [6]), enc_node_join = (\<lambda>_. [7]), msg_from_slice = Some,
     pk_from_slice = Some, schnorr_verify = (\<lambda>_ _ _. True), ecdsa_recover = (\<lambda>_ _. None),
     ecdsa_verify = (\<lambda>_ _ _. True), pk_uncompressed = (\<lambda>p. p)\<rparr>"

definition ledger_wallet :: wallet where
  "ledger_wallet = (wallet_new [9])\<lparr>root_hashes := bm_insert [8] () bm_new\<rparr>"

definition ledger_receive :: tx where
  "ledger_receive = \<lparr>tx_inputs = [],
     tx_outputs = [\<lparr>out_address = OrTree [8], out_value = Coin 100, valid_from = None\<rparr>],
     tx_attrs = \<lparr>chain_hex_id = 0, allowed_view = []\<rparr>\<rparr>"

definition ledger_spend :: tx where
  "ledger_spend = \<lparr>tx_inputs = [\<lparr>txo_id = [1], txo_index = 0\<rparr>],
     tx_outputs = [\<lparr>out_address = OrTree [7], out_value = Coin 100, valid_from = None\<rparr>],
     tx_attrs = \<lparr>chain_hex_id = 0, allowed_view = []\<rparr>\<rparr>"

definition ledger_block :: "txid list \<Rightarrow> unit filtered_block" where
  "ledger_block ids = \<lparr>fb_app_hash = [], fb_block_height = 1, fb_block_time = [], valid_transaction_ids = ids,
     enclave_transaction_ids = ids, fb_block_filter = (), staking_transactions = []\<rparr>"

lemmas ledger_defs = ledger_ext_def ledger_wallet_def ledger_receive_def ledger_spend_def ledger_block_def wallet_new_def

lemma ledger_addresses: "wallet_transfer_addresses ledger_wallet = [(OrTree [8], ())]"
  by (simp add: wallet_transfer_addresses_def ledger_wallet_def wallet_new_def bm_of_list_def bm_new_def)

lemma default_state_ok: "state_ok w wallet_state_default"
  by (simp add: state_ok_def wallet_state_default_def total_unspent_def) (simp add: bm_new_def)

lemma ledger_handled: "handled ledger_ext [ledger_block [[1]]] [TransferTransaction ledger_receive] =
    [(TransferTransaction ledger_receive, 1, [])]"
  by (simp add: handled_def handled_block_def enclave_map_def ledger_defs tx_id_def txid_hash_def)

theorem balance_is_unspent_witness:
  "\<exists>m s'. handle_blocks ledger_ext ledger_wallet wallet_state_default [ledger_block [[1]]] [TransferTransaction ledger_receive] =
      Done (Ok m) \<and> apply_memento m wallet_state_default = Ok s' \<and> state_ok ledger_wallet s' \<and>
      coin_val (balance s') = total_unspent (unspent_transactions s')"
proof -
  have batch: "batch_ok ledger_ext ledger_wallet wallet_state_default
      (map fst (handled ledger_ext [ledger_block [[1]]] [TransferTransaction ledger_receive]))"
    unfolding ledger_handled
    by (simp add: batch_ok_def fresh_for_def ledger_receive_def wallet_state_default_def bm_contains_def)
  have total: "coin_val (balance wallet_state_default) + (\<Sum>t \<leftarrow> map fst (handled ledger_ext [ledger_block [[1]]]
      [TransferTransaction ledger_receive]). own_total ledger_wallet t) \<le> max_supply"
    unfolding ledger_handled
    by (simp add: wallet_state_default_def own_total_def ledger_receive_def own_def ledger_addresses bm_contains_def bm_get_def)
  have "\<exists>m. handle_blocks ledger_ext ledger_wallet wallet_state_default [ledger_block [[1]]]
      [TransferTransaction ledger_receive] = Done (Ok m)"
    unfolding handle_blocks_all ledger_handled
    by (simp add: handle_transaction_def calculate_balance_change_def ledger_addresses Let_def ledger_receive_def
        sum_outputs_def sum_coins_def coin_new_def coin_add_def checked_add_def MAX_COIN_def bm_contains_def bm_get_def
        coin_zero_def non_empty_def)
  with balance_is_unspent [OF default_state_ok batch total] show ?thesis by auto
qed

text \<open>
  A transaction that spends an output of an earlier transaction of the same batch is
  decorated from the state before the batch, in which the output is not known: it is
  not recorded as outgoing, and the balance exceeds the sum of the unspent outputs.
  Handled in two batches, the same transactions leave the balance at zero.
\<close>

definition sync_batches :: "txid list list \<Rightarrow> wallet_state \<Rightarrow> ((syncer_logic_error + error_kind) + wallet_state) run" where
  "sync_batches idss s = foldl (\<lambda>r ids. try_run r (\<lambda>s.
     run_bind (handle_blocks ledger_ext ledger_wallet s [ledger_block ids]
       [TransferTransaction ledger_receive, TransferTransaction ledger_spend]) (\<lambda>m.
     Done (case m of Inl e \<Rightarrow> Err (Inl e) | Inr m \<Rightarrow> map_err Inr (apply_memento m s))))) (Done (Ok s)) idss"

definition state_summary :: "('e + wallet_state) run \<Rightarrow> ((txo_pointer, tx_out) btm \<times> coin) option" where
  "state_summary r = (case r of Done (Inr s) \<Rightarrow> Some (unspent_transactions s, balance s) | _ \<Rightarrow> None)"

theorem balance_misses_spend_in_batch:
  "state_summary (sync_batches [[[1], [2]]] wallet_state_default) = Some ([], Coin 100) \<and>
   state_summary (sync_batches [[[1]], [[2]]] wallet_state_default) = Some ([], Coin 0)"
  by (simp add: state_summary_def sync_batches_def handle_blocks_def ledger_defs wallet_state_default_def tx_id_def txid_hash_def
      handle_transaction_def calculate_balance_change_def Let_def wallet_transfer_addresses_def bm_of_list_def bm_new_def
      sum_outputs_def sum_coins_def coin_new_def coin_add_def coin_sub_def checked_add_def checked_sub_def MAX_COIN_def
      bm_contains_def bm_get_def coin_zero_def non_empty_def on_transaction_change_def txo_pointer_new_def
      remove_unspent_transaction_def add_unspent_transaction_def add_transaction_change_def bm_remove_def
      get_output_def get_transaction_change_def our_output_def)

end
