(* ===== verification/Multi_Sig_Address.thy ===== *)
theory Multi_Sig_Address
  imports Tx_Validation Wallet_Service
begin

text \<open>
  m-of-n addresses (client-common/src/multi_sig_address.rs and the combination of keys
  in key/public_key.rs) and the service that keeps them
  (client-core/src/service/root_hash_service.rs).  The leaves of the Merkle tree of an
  address are the combined keys of all sets of \<open>m\<close> of the \<open>n\<close> keys.  Public keys are
  the byte strings by which the library orders them; the combination of keys and their
  compressed form are parameters.
\<close>

section \<open>Combined keys\<close>

record pk_ops =
  po_raw :: "public_key \<Rightarrow> raw_pubkey"
  po_combine :: "public_key list \<Rightarrow> (public_key \<times> h256) option"
  po_of_private :: "bytes \<Rightarrow> public_key"

definition pk_combine :: "pk_ops \<Rightarrow> public_key list \<Rightarrow> error_kind + public_key \<times> h256" where
  "pk_combine P keys = opt_kind InvalidInput (po_combine P keys)"

definition combine_to_raw_pubkey :: "pk_ops \<Rightarrow> public_key list \<Rightarrow> error_kind + raw_pubkey" where
  "combine_to_raw_pubkey P keys =
     (if length keys = 1 then Ok (po_raw P (keys ! 0))
      else and_then (pk_combine P keys) (\<lambda>(pk, _). Ok (po_raw P pk)))"

section \<open>Addresses\<close>

record multi_sig_address =
  msa_m :: u64
  msa_n :: u64
  msa_self :: public_key
  msa_tree :: "raw_pubkey merkle_tree"

text \<open>\<open>Itertools::combinations\<close>: the sublists of a length, in the order of their positions.\<close>

fun combinations :: "nat \<Rightarrow> 'a list \<Rightarrow> 'a list list" where
  "combinations 0 xs = [[]]"
| "combinations (Suc k) [] = []"
| "combinations (Suc k) (x # xs) = map ((#) x) (combinations k xs) @ combinations (Suc k) xs"

definition public_key_combinations :: "pk_ops \<Rightarrow> public_key list \<Rightarrow> u64 \<Rightarrow> error_kind + raw_pubkey list" where
  "public_key_combinations P keys required =
     (if keys = [] then Err InvalidInput
      else if unat required > length keys then Err InvalidInput
      else if required = 0 then Err InvalidInput
      else and_then (collect_results (map (\<lambda>c. combine_to_raw_pubkey P (sort c)) (combinations (unat required) keys)))
        (\<lambda>cs. Ok (sort cs)))"

definition msa_new :: "ext \<Rightarrow> pk_ops \<Rightarrow> public_key list \<Rightarrow> public_key \<Rightarrow> u64 \<Rightarrow> error_kind + multi_sig_address" where
  "msa_new E P keys self required =
     (if unat required > length keys \<or> length keys = 0 \<or> required = 0 \<or> self \<notin> set keys then Err InvalidInput
      else and_then (public_key_combinations P keys required) (\<lambda>cs.
        Ok \<lparr>msa_m = required, msa_n = of_nat (length keys), msa_self = self,
          msa_tree = merkle_new (blake2s E) (\<lambda>b. b) cs\<rparr>))"

definition msa_root_hash :: "multi_sig_address \<Rightarrow> h256" where
  "msa_root_hash a = root_hash (msa_tree a)"

definition msa_required_signers :: "multi_sig_address \<Rightarrow> nat" where
  "msa_required_signers a = unat (msa_m a)"

definition msa_total_signers :: "multi_sig_address \<Rightarrow> nat" where
  "msa_total_signers a = unat (msa_n a)"

definition msa_generate_proof ::
    "ext \<Rightarrow> pk_ops \<Rightarrow> multi_sig_address \<Rightarrow> public_key list \<Rightarrow> (error_kind + raw_pubkey proof_of option) run" where
  "msa_generate_proof E P a keys =
     (if length keys \<noteq> msa_required_signers a then Done (Err InvalidInput)
      else try_run (Done (combine_to_raw_pubkey P (sort keys))) (\<lambda>raw.
        run_bind (generate_proof (blake2s E) (\<lambda>b. b) (msa_tree a) raw) (\<lambda>p. Done (Ok p))))"

definition to_extended_addr :: "multi_sig_address \<Rightarrow> extended_addr" where
  "to_extended_addr a = OrTree (msa_root_hash a)"

section \<open>The root hash service\<close>

definition ROOT_KEYSPACE :: bytes where "ROOT_KEYSPACE = str_bytes ''core_root_hash''"

definition new_root_hash ::
    "'st client_env \<Rightarrow> multi_sig_address codec \<Rightarrow> ext \<Rightarrow> pk_ops \<Rightarrow> public_key list \<Rightarrow> public_key \<Rightarrow> u64 \<Rightarrow> bytes \<Rightarrow>
     ('st world, h256 \<times> multi_sig_address) action" where
  "new_root_hash C D E P keys self required passphrase =
     act_bind (act_result (msa_new E P keys self required)) (\<lambda>a.
     act_bind (set_secure C ROOT_KEYSPACE (msa_root_hash a) (enc_of D a) passphrase) (\<lambda>_.
     act_return (msa_root_hash a, a)))"

definition get_multi_sig_address ::
    "'st client_env \<Rightarrow> multi_sig_address codec \<Rightarrow> h256 \<Rightarrow> bytes \<Rightarrow> ('st world, multi_sig_address) action" where
  "get_multi_sig_address C D root passphrase =
     act_bind (get_secure C ROOT_KEYSPACE root passphrase) (\<lambda>v.
     act_result (and_then (opt_kind InvalidInput v) (\<lambda>b. opt_kind DeserializationError (dec_of D b))))"

definition rhs_generate_proof ::
    "'st client_env \<Rightarrow> multi_sig_address codec \<Rightarrow> ext \<Rightarrow> pk_ops \<Rightarrow> h256 \<Rightarrow> public_key list \<Rightarrow> bytes \<Rightarrow>
     ('st world, raw_pubkey proof_of) action" where
  "rhs_generate_proof C D E P root keys passphrase =
     act_bind (get_multi_sig_address C D root passphrase) (\<lambda>a.
     act_bind (act_run (msa_generate_proof E P a keys)) (\<lambda>p. act_result (opt_kind InvalidInput p)))"

definition rhs_required_signers ::
    "'st client_env \<Rightarrow> multi_sig_address codec \<Rightarrow> h256 \<Rightarrow> bytes \<Rightarrow> ('st world, nat) action" where
  "rhs_required_signers C D root passphrase = act_map msa_required_signers (get_multi_sig_address C D root passphrase)"

definition rhs_public_key ::
    "'st client_env \<Rightarrow> multi_sig_address codec \<Rightarrow> h256 \<Rightarrow> bytes \<Rightarrow> ('st world, public_key) action" where
  "rhs_public_key C D root passphrase = act_map msa_self (get_multi_sig_address C D root passphrase)"

definition rhs_clear :: "'st client_env \<Rightarrow> ('st world, unit) action" where
  "rhs_clear C = on_store (st_clear (cl_storage C) ROOT_KEYSPACE)"

section \<open>Combinations\<close>

lemma length_combinations: "length (combinations k xs) = length xs choose k"
  by (induction k xs rule: combinations.induct) simp_all

lemma combination_length: "c \<in> set (combinations k xs) \<Longrightarrow> length c = k"
  by (induction k xs arbitrary: c rule: combinations.induct) auto

text \<open>Every choice of \<open>k\<close> of the values is a combination up to the order.\<close>

lemma combination_exists:
  "mset ys \<subseteq># mset xs \<Longrightarrow> \<exists>c \<in> set (combinations (length ys) xs). mset c = mset ys"
proof (induction xs arbitrary: ys)
  case Nil
  then show ?case by simp
next
  case (Cons x xs)
  show ?case
  proof (cases "x \<in> set ys")
    case True
    then have len: "length ys = Suc (length (remove1 x ys))" by (metis One_nat_def Suc_pred length_pos_if_in_set length_remove1)
    have "mset (remove1 x ys) \<subseteq># mset xs"
      using Cons.prems True by (simp add: subset_eq_diff_conv)
    from Cons.IH [OF this] obtain c where "c \<in> set (combinations (length (remove1 x ys)) xs)" "mset c = mset (remove1 x ys)"
      by blast
    then show ?thesis
      unfolding len using True by (intro bexI [of _ "x # c"]) (simp_all add: insert_DiffM)
  next
    case False
    then have "mset ys \<subseteq># mset xs"
    proof (intro mset_subset_eqI)
      fix a
      show "count (mset ys) a \<le> count (mset xs) a"
        using mset_subset_eq_count [OF Cons.prems, of a] False by (cases "a = x") (simp_all add: count_mset_0_iff [THEN iffD2] flip: count_mset_0_iff)
    qed
    from Cons.IH [OF this] obtain c where "c \<in> set (combinations (length ys) xs)" "mset c = mset ys" by blast
    then show ?thesis by (cases "length ys") (auto intro: bexI [of _ c])
  qed
qed

lemma sort_mset_eq: "mset xs = mset ys \<Longrightarrow> sort xs = sort ys"
  by (metis sorted_list_of_multiset_mset)

section \<open>Proofs of addresses\<close>

lemma msa_new_Ok:
  assumes "msa_new E P keys self required = Ok a"
  obtains cs where "msa_m a = required" "msa_n a = of_nat (length keys)" "msa_self a = self" "self \<in> set keys"
    "0 < unat required" "unat required \<le> length keys"
    "msa_tree a = merkle_new (blake2s E) (\<lambda>b. b) (sort cs)"
    "list_all2 (\<lambda>c raw. combine_to_raw_pubkey P (sort c) = Ok raw) (combinations (unat required) keys) cs"
proof -
  have guard: "\<not> (unat required > length keys \<or> length keys = 0 \<or> required = 0 \<or> self \<notin> set keys)"
    using assms by (auto simp: msa_new_def split: if_splits)
  with assms obtain sorted where s: "public_key_combinations P keys required = Ok sorted"
      "a = \<lparr>msa_m = required, msa_n = of_nat (length keys), msa_self = self, msa_tree = merkle_new (blake2s E) (\<lambda>b. b) sorted\<rparr>"
    unfolding msa_new_def by (auto simp: and_then_eq_Ok)
  from s(1) guard obtain cs where
    "collect_results (map (\<lambda>c. combine_to_raw_pubkey P (sort c)) (combinations (unat required) keys)) = Ok cs" "sorted = sort cs"
    unfolding public_key_combinations_def by (auto simp: and_then_eq_Ok)
  then show ?thesis
    using guard s(2) by (intro that [of cs]) (simp_all add: collect_results_Ok unat_gt_0)
qed

lemma msa_generate_proof_complete:
  assumes "msa_new E P keys self required = Ok a" "mset chosen \<subseteq># mset keys" "length chosen = unat required"
  shows "\<exists>raw p. combine_to_raw_pubkey P (sort chosen) = Ok raw \<and> msa_generate_proof E P a chosen = Done (Ok (Some p)) \<and>
    proof_verify (blake2s E) p (msa_root_hash a) \<and> proof_value p = raw"
proof -
  obtain cs where a: "msa_m a = required" "msa_tree a = merkle_new (blake2s E) (\<lambda>b. b) (sort cs)"
      "list_all2 (\<lambda>c raw. combine_to_raw_pubkey P (sort c) = Ok raw) (combinations (unat required) keys) cs"
    by (rule msa_new_Ok [OF assms(1)]) (rule that)
  obtain c where c: "c \<in> set (combinations (length chosen) keys)" "mset c = mset chosen"
    using combination_exists [OF assms(2)] by (elim bexE)
  then obtain i where i: "i < length (combinations (unat required) keys)" "c = combinations (unat required) keys ! i"
    by (auto simp: assms(3) in_set_conv_nth)
  have "combine_to_raw_pubkey P (sort chosen) = Ok (cs ! i)" "cs ! i \<in> set cs"
    using list_all2_nthD [OF a(3) i(1)] list_all2_lengthD [OF a(3)] i sort_mset_eq [OF c(2)] by simp_all
  then obtain raw where raw: "raw \<in> set cs" "combine_to_raw_pubkey P (sort chosen) = Ok raw" by blast
  have "list_all (\<lambda>v. \<exists>p. generate_proof (blake2s E) (\<lambda>b. b) (msa_tree a) v = Done (Some p) \<and>
      proof_verify (blake2s E) p (root_hash (msa_tree a)) \<and> proof_value p = v) (sort cs)"
    unfolding a(2) by (rule merkle.all_members_provable)
  then obtain p where "generate_proof (blake2s E) (\<lambda>b. b) (msa_tree a) raw = Done (Some p)"
      "proof_verify (blake2s E) p (root_hash (msa_tree a))" "proof_value p = raw"
    using raw(1) by (auto simp: list_all_iff)
  then show ?thesis
    using raw(2) assms(3) a(1) by (simp add: msa_generate_proof_def msa_required_signers_def msa_root_hash_def)
qed

context secure_storage
begin

lemma get_address_has:
  assumes "lawful" "codec_ok D" "has w p ROOT_KEYSPACE root (Some (enc_of D a))"
  shows "get_multi_sig_address C D root p w = Done (Ok a, w)"
  using get_secure_holds [OF assms(1,3)] assms(2) by (simp add: get_multi_sig_address_def)

lemma new_root_hash_has:
  assumes "lawful" "encrypts C" "msa_new E P keys self required = Ok a" "has w p ROOT_KEYSPACE (msa_root_hash a) old"
  shows "\<exists>w'. new_root_hash C D E P keys self required p w = Done (Ok (msa_root_hash a, a), w') \<and>
    has w' p ROOT_KEYSPACE (msa_root_hash a) (Some (enc_of D a)) \<and>
    (\<forall>q. q \<noteq> (ROOT_KEYSPACE, msa_root_hash a) \<longrightarrow> view (w_store w') q = view (w_store w) q)"
  using set_secure_value [OF assms(1,2,4), of "enc_of D a"] assms(3)
  by (elim exE conjE) (simp add: new_root_hash_def)

end

text \<open>
  C29: an m-of-n address can be used by every choice of m of its keys.  After the
  address of the keys was created and stored under its root hash, the service answers
  that m signers are required and gives, for every m of the keys in any order, a proof
  that verifies against the root hash and carries the combination of these keys; any
  other number of keys is refused.
\<close>

theorem root_hash_service_proofs:
  assumes "cl_storage C = memory_storage" "cipher_ok C" "encrypts C" "codec_ok D"
    and "msa_new E P keys self required = Ok a"
    and "holds C mem_view mem_inv w p ROOT_KEYSPACE (msa_root_hash a) old"
  shows "\<exists>w'. new_root_hash C D E P keys self required p w = Done (Ok (msa_root_hash a, a), w') \<and>
    rhs_required_signers C D (msa_root_hash a) p w' = Done (Ok (unat required), w') \<and>
    rhs_public_key C D (msa_root_hash a) p w' = Done (Ok self, w') \<and>
    (\<forall>chosen. mset chosen \<subseteq># mset keys \<and> length chosen = unat required \<longrightarrow>
      (\<exists>raw pf. combine_to_raw_pubkey P (sort chosen) = Ok raw \<and>
        rhs_generate_proof C D E P (msa_root_hash a) chosen p w' = Done (Ok pf, w') \<and>
        proof_verify (blake2s E) pf (msa_root_hash a) \<and> proof_value pf = raw)) \<and>
    (\<forall>chosen. length chosen \<noteq> unat required \<longrightarrow>
      rhs_generate_proof C D E P (msa_root_hash a) chosen p w' = Done (Err InvalidInput, w'))"
proof -
  have laws: "cl_storage C = memory_storage \<and> cipher_ok C" using assms(1,2) by blast
  from mem_secure.new_root_hash_has [OF laws assms(3,5,6), of D] obtain w' where
    w': "new_root_hash C D E P keys self required p w = Done (Ok (msa_root_hash a, a), w')"
      "holds C mem_view mem_inv w' p ROOT_KEYSPACE (msa_root_hash a) (Some (enc_of D a))" by (elim exE conjE)
  note get = mem_secure.get_address_has [OF laws assms(4) w'(2)]
  have a: "msa_m a = required" "msa_self a = self" by (rule msa_new_Ok [OF assms(5)], assumption)+
  have "\<exists>raw pf. combine_to_raw_pubkey P (sort chosen) = Ok raw \<and>
      rhs_generate_proof C D E P (msa_root_hash a) chosen p w' = Done (Ok pf, w') \<and>
      proof_verify (blake2s E) pf (msa_root_hash a) \<and> proof_value pf = raw"
    if "mset chosen \<subseteq># mset keys" "length chosen = unat required" for chosen
    using msa_generate_proof_complete [OF assms(5) that] by (auto simp: rhs_generate_proof_def get)
  moreover have "rhs_generate_proof C D E P (msa_root_hash a) chosen p w' = Done (Err InvalidInput, w')"
    if "length chosen \<noteq> unat required" for chosen
    using that a(1) by (simp add: rhs_generate_proof_def get msa_generate_proof_def msa_required_signers_def)
  ultimately show ?thesis
    using w'(1) by (intro exI [of _ w']) (simp add: rhs_required_signers_def rhs_public_key_def get msa_required_signers_def a)
qed

section \<open>A 2-of-3 address\<close>

definition sample_pk_ops :: pk_ops where
  "sample_pk_ops = \<lparr>po_raw = (\<lambda>k. k), po_combine = (\<lambda>ks. Some (concat ks, [])), po_of_private = (\<lambda>s. s)\<rparr>"

lemma sample_address: "\<exists>a. msa_new sample_ext sample_pk_ops [[3], [1], [2]] [1] 2 = Ok a"
proof -
  have "combinations 2 xs = combinations (Suc (Suc 0)) xs" for xs :: "public_key list" by (simp add: numeral_2_eq_2)
  then show ?thesis
    by (simp add: msa_new_def public_key_combinations_def combine_to_raw_pubkey_def pk_combine_def sample_pk_ops_def)
qed

instance mtree :: (countable) countable by countable_datatype

instance merkle_tree_ext :: (countable, countable) countable
  by (rule countable_classI [of "\<lambda>r. to_nat (mt_tree r, mt_len r, mt_height r, merkle_tree.more r)"])
    (simp add: merkle_tree.equality)

instance multi_sig_address_ext :: (countable) countable
  by (rule countable_classI [of "\<lambda>r. to_nat (msa_m r, msa_n r, msa_self r, msa_tree r, multi_sig_address.more r)"])
    (simp add: multi_sig_address.equality)

theorem root_hash_service_proofs_witness:
  "\<exists>a w' pf. new_root_hash sample_client_env sample_codec sample_ext sample_pk_ops [[3], [1], [2]] [1] 2 [9] sample_world =
      Done (Ok (msa_root_hash a, a), w') \<and>
    rhs_required_signers sample_client_env sample_codec (msa_root_hash a) [9] w' = Done (Ok 2, w') \<and>
    rhs_generate_proof sample_client_env sample_codec sample_ext sample_pk_ops (msa_root_hash a) [[2], [3]] [9] w' = Done (Ok pf, w') \<and>
    proof_verify (blake2s sample_ext) pf (msa_root_hash a) \<and> proof_value pf = [2, 3] \<and>
    rhs_generate_proof sample_client_env sample_codec sample_ext sample_pk_ops (msa_root_hash a) [[2]] [9] w' =
      Done (Err InvalidInput, w')"
proof -
  obtain a where a: "msa_new sample_ext sample_pk_ops [[3], [1], [2]] [1] 2 = Ok a" using sample_address by blast
  have sub: "mset [[2], [3]] \<subseteq># mset [[3], [1], [2 :: u8]]" by (simp add: add_mset_commute)
  have raw: "combine_to_raw_pubkey sample_pk_ops (sort [[2], [3]]) = Ok [2, 3]"
    by (simp add: combine_to_raw_pubkey_def pk_combine_def sample_pk_ops_def)
  from root_hash_service_proofs [OF sample_client(1,2) sample_encrypts_all sample_codec_ok a sample_world_holds, of "[9]"]
  obtain w' where w': "new_root_hash sample_client_env sample_codec sample_ext sample_pk_ops [[3], [1], [2]] [1] 2 [9] sample_world =
      Done (Ok (msa_root_hash a, a), w')"
    "rhs_required_signers sample_client_env sample_codec (msa_root_hash a) [9] w' = Done (Ok (unat (2 :: u64)), w')"
    "\<forall>chosen. mset chosen \<subseteq># mset [[3], [1], [2]] \<and> length chosen = unat (2 :: u64) \<longrightarrow>
      (\<exists>raw pf. combine_to_raw_pubkey sample_pk_ops (sort chosen) = Ok raw \<and>
        rhs_generate_proof sample_client_env sample_codec sample_ext sample_pk_ops (msa_root_hash a) chosen [9] w' = Done (Ok pf, w') \<and>
        proof_verify (blake2s sample_ext) pf (msa_root_hash a) \<and> proof_value pf = raw)"
    "\<forall>chosen. length chosen \<noteq> unat (2 :: u64) \<longrightarrow>
      rhs_generate_proof sample_client_env sample_codec sample_ext sample_pk_ops (msa_root_hash a) chosen [9] w' =
        Done (Err InvalidInput, w')"
    by (elim exE conjE)
  obtain pf where "rhs_generate_proof sample_client_env sample_codec sample_ext sample_pk_ops (msa_root_hash a) [[2], [3]] [9] w' =
      Done (Ok pf, w')" "proof_verify (blake2s sample_ext) pf (msa_root_hash a)" "proof_value pf = [2, 3]"
    using w'(3) [rule_format, of "[[2], [3]]"] sub raw by auto
  then show ?thesis using w'(1,2) w'(4) [rule_format, of "[[2]]"] by auto
qed

end
