(* ===== verification/Multi_Sig_Session.thy ===== *)
theory Multi_Sig_Session
  imports Multi_Sig_Address
begin

text \<open>
  The sessions in which the holders of the keys of a multi-signature address produce a
  common signature (client-core/src/service/multi_sig_session_service.rs).  A session
  collects from every signer a nonce commitment, then a nonce, then a partial
  signature; the MuSig operations themselves are parameters.  The main result is that
  within a session a signer never answers with two different nonces or two different
  partial signatures, whatever the others send.
\<close>

section \<open>Sessions\<close>

record signer =
  sg_public_key :: public_key
  sg_nonce_commitment :: "h256 option"
  sg_nonce :: "public_key option"
  sg_partial_signature :: "h256 option"

record multi_sig_session =
  se_id :: h256
  se_message :: h256
  se_signers :: "signer list"
  se_public_key :: public_key
  se_private_key :: bytes
  se_combined_public_key :: public_key
  se_combined_public_key_hash :: h256

record ('ms, 'ps) musig_ops =
  mu_id_from_slice :: "bytes \<Rightarrow> bytes option"
  mu_message_from_slice :: "bytes \<Rightarrow> bytes option"
  mu_new :: "bytes \<Rightarrow> bytes \<Rightarrow> public_key \<Rightarrow> h256 \<Rightarrow> nat \<Rightarrow> nat \<Rightarrow> bytes \<Rightarrow> 'ms option"
  mu_my_nonce_commitment :: "'ms \<Rightarrow> h256"
  mu_set_nonce_commitment :: "'ms \<Rightarrow> h256 \<Rightarrow> nat \<Rightarrow> 'ms"
  mu_public_nonce :: "'ms \<Rightarrow> (public_key \<times> 'ms) option"
  mu_set_nonce :: "'ms \<Rightarrow> nat \<Rightarrow> public_key \<Rightarrow> 'ms option"
  mu_combine_nonces :: "'ms \<Rightarrow> 'ms option"
  mu_partial_sign :: "'ms \<Rightarrow> (h256 \<times> 'ms) option"
  mu_partial_from :: "h256 \<Rightarrow> 'ps option"
  mu_partial_combine :: "'ms \<Rightarrow> 'ps list \<Rightarrow> schnorr_signature option"

text \<open>\<open>slice::binary_search\<close> of the standard library.\<close>

function bs_loop :: "'a::linorder list \<Rightarrow> 'a \<Rightarrow> nat \<Rightarrow> nat \<Rightarrow> nat" where
  "bs_loop xs key base sz =
     (if sz > 1 then (let half = sz div 2; mid = base + half in
        bs_loop xs key (if xs ! mid > key then base else mid) (sz - half))
      else base)"
  by auto
termination
  by (relation "measure (\<lambda>(xs, key, base, sz). sz)") auto

declare bs_loop.simps [simp del]

definition binary_search :: "'a::linorder list \<Rightarrow> 'a \<Rightarrow> nat option" where
  "binary_search xs key =
     (if xs = [] then None
      else (let base = bs_loop xs key 0 (length xs) in if xs ! base = key then Some base else None))"

definition signer_index :: "multi_sig_session \<Rightarrow> public_key \<Rightarrow> error_kind + nat" where
  "signer_index s pk = opt_kind InvalidInput (binary_search (map sg_public_key (se_signers s)) pk)"

definition signer_add_nonce_commitment :: "signer \<Rightarrow> h256 \<Rightarrow> error_kind + signer" where
  "signer_add_nonce_commitment g c =
     (if sg_nonce_commitment g \<noteq> None then Err InvalidInput else Ok (g\<lparr>sg_nonce_commitment := Some c\<rparr>))"

definition signer_add_nonce :: "signer \<Rightarrow> public_key \<Rightarrow> error_kind + signer" where
  "signer_add_nonce g n = (if sg_nonce g \<noteq> None then Err InvalidInput else Ok (g\<lparr>sg_nonce := Some n\<rparr>))"

definition signer_add_partial_signature :: "signer \<Rightarrow> h256 \<Rightarrow> error_kind + signer" where
  "signer_add_partial_signature g x =
     (if sg_partial_signature g \<noteq> None then Err InvalidInput else Ok (g\<lparr>sg_partial_signature := Some x\<rparr>))"

definition update_signer ::
    "multi_sig_session \<Rightarrow> public_key \<Rightarrow> (signer \<Rightarrow> error_kind + signer) \<Rightarrow> error_kind + multi_sig_session" where
  "update_signer s pk f = and_then (signer_index s pk) (\<lambda>i.
     and_then (f (se_signers s ! i)) (\<lambda>g. Ok (s\<lparr>se_signers := (se_signers s)[i := g]\<rparr>)))"

definition se_add_nonce_commitment :: "multi_sig_session \<Rightarrow> public_key \<Rightarrow> h256 \<Rightarrow> error_kind + multi_sig_session" where
  "se_add_nonce_commitment s pk c = update_signer s pk (\<lambda>g. signer_add_nonce_commitment g c)"

definition se_add_nonce :: "multi_sig_session \<Rightarrow> public_key \<Rightarrow> public_key \<Rightarrow> error_kind + multi_sig_session" where
  "se_add_nonce s pk n = update_signer s pk (\<lambda>g. signer_add_nonce g n)"

definition se_add_partial_signature :: "multi_sig_session \<Rightarrow> public_key \<Rightarrow> h256 \<Rightarrow> error_kind + multi_sig_session" where
  "se_add_partial_signature s pk x = update_signer s pk (\<lambda>g. signer_add_partial_signature g x)"

definition se_nonce_commitments :: "multi_sig_session \<Rightarrow> error_kind + (public_key \<times> h256) list" where
  "se_nonce_commitments s = collect_results (map (\<lambda>g. case sg_nonce_commitment g of
     None \<Rightarrow> Err MultiSigError | Some c \<Rightarrow> Ok (sg_public_key g, c)) (se_signers s))"

definition se_nonces :: "multi_sig_session \<Rightarrow> error_kind + (public_key \<times> public_key) list" where
  "se_nonces s = collect_results (map (\<lambda>g. case sg_nonce g of
     None \<Rightarrow> Err MultiSigError | Some n \<Rightarrow> Ok (sg_public_key g, n)) (se_signers s))"

definition se_partial_signatures :: "multi_sig_session \<Rightarrow> error_kind + h256 list" where
  "se_partial_signatures s = collect_results (map (\<lambda>g. case sg_partial_signature g of
     None \<Rightarrow> Err MultiSigError | Some x \<Rightarrow> Ok x) (se_signers s))"

definition se_public_keys :: "multi_sig_session \<Rightarrow> public_key list" where
  "se_public_keys s = map sg_public_key (se_signers s)"

definition se_has_nonce_commitment :: "multi_sig_session \<Rightarrow> public_key \<Rightarrow> error_kind + bool" where
  "se_has_nonce_commitment s pk =
     and_then (signer_index s pk) (\<lambda>i. Ok (sg_nonce_commitment (se_signers s ! i) \<noteq> None))"

definition se_has_nonce :: "multi_sig_session \<Rightarrow> public_key \<Rightarrow> error_kind + bool" where
  "se_has_nonce s pk = and_then (signer_index s pk) (\<lambda>i. Ok (sg_nonce (se_signers s ! i) \<noteq> None))"

definition se_has_partial_signature :: "multi_sig_session \<Rightarrow> public_key \<Rightarrow> error_kind + bool" where
  "se_has_partial_signature s pk =
     and_then (signer_index s pk) (\<lambda>i. Ok (sg_partial_signature (se_signers s ! i) \<noteq> None))"

section \<open>Signing\<close>

text \<open>The creation of the library's session, which every signing step repeats.\<close>

definition musig_session :: "('ms, 'ps) musig_ops \<Rightarrow> multi_sig_session \<Rightarrow> error_kind + 'ms" where
  "musig_session U s =
     and_then (opt_kind DeserializationError (mu_id_from_slice U (se_id s))) (\<lambda>i.
     and_then (opt_kind DeserializationError (mu_message_from_slice U (se_message s))) (\<lambda>m.
     and_then (signer_index s (se_public_key s)) (\<lambda>index.
     opt_kind MultiSigError (mu_new U i m (se_combined_public_key s) (se_combined_public_key_hash s)
       (length (se_signers s)) index (se_private_key s)))))"

definition se_nonce_commitment :: "('ms, 'ps) musig_ops \<Rightarrow> multi_sig_session \<Rightarrow> error_kind + h256" where
  "se_nonce_commitment U s = and_then (musig_session U s) (\<lambda>m. Ok (mu_my_nonce_commitment U m))"

fun set_commitments ::
    "('ms, 'ps) musig_ops \<Rightarrow> multi_sig_session \<Rightarrow> (public_key \<times> h256) list \<Rightarrow> 'ms \<Rightarrow> error_kind + 'ms" where
  "set_commitments U s [] m = Ok m"
| "set_commitments U s ((pk, c) # cs) m =
     and_then (signer_index s pk) (\<lambda>i. set_commitments U s cs (mu_set_nonce_commitment U m c i))"

fun set_nonces ::
    "('ms, 'ps) musig_ops \<Rightarrow> multi_sig_session \<Rightarrow> (public_key \<times> public_key) list \<Rightarrow> 'ms \<Rightarrow> error_kind + 'ms" where
  "set_nonces U s [] m = Ok m"
| "set_nonces U s ((pk, n) # ns) m =
     and_then (signer_index s pk) (\<lambda>i. and_then (opt_kind MultiSigError (mu_set_nonce U m i n)) (set_nonces U s ns))"

definition committed_session ::
    "('ms, 'ps) musig_ops \<Rightarrow> multi_sig_session \<Rightarrow> (public_key \<times> h256) list \<Rightarrow> error_kind + public_key \<times> 'ms" where
  "committed_session U s cs = and_then (musig_session U s) (\<lambda>m.
     and_then (set_commitments U s cs m) (\<lambda>m. opt_kind MultiSigError (mu_public_nonce U m)))"

definition se_nonce_of :: "('ms, 'ps) musig_ops \<Rightarrow> multi_sig_session \<Rightarrow> error_kind + public_key" where
  "se_nonce_of U s = and_then (se_nonce_commitments s) (\<lambda>cs.
     and_then (committed_session U s cs) (\<lambda>(n, _). Ok n))"

definition nonced_session ::
    "('ms, 'ps) musig_ops \<Rightarrow> multi_sig_session \<Rightarrow> (public_key \<times> h256) list \<Rightarrow> (public_key \<times> public_key) list \<Rightarrow>
     error_kind + h256 \<times> 'ms" where
  "nonced_session U s cs ns = and_then (committed_session U s cs) (\<lambda>(_, m).
     and_then (set_nonces U s ns m) (\<lambda>m.
     and_then (opt_kind MultiSigError (mu_combine_nonces U m)) (\<lambda>m.
     opt_kind MultiSigError (mu_partial_sign U m))))"

definition se_partial_signature :: "('ms, 'ps) musig_ops \<Rightarrow> multi_sig_session \<Rightarrow> error_kind + h256" where
  "se_partial_signature U s = and_then (se_nonce_commitments s) (\<lambda>cs.
     and_then (se_nonces s) (\<lambda>ns. and_then (nonced_session U s cs ns) (\<lambda>(x, _). Ok x)))"

definition se_signature :: "('ms, 'ps) musig_ops \<Rightarrow> multi_sig_session \<Rightarrow> error_kind + schnorr_signature" where
  "se_signature U s = and_then (se_nonce_commitments s) (\<lambda>cs.
     and_then (se_nonces s) (\<lambda>ns.
     and_then (se_partial_signatures s) (\<lambda>ps.
     and_then (nonced_session U s cs ns) (\<lambda>(_, m).
     and_then (collect_results (map (\<lambda>x. opt_kind DeserializationError (mu_partial_from U x)) ps)) (\<lambda>sigs.
     opt_kind MultiSigError (mu_partial_combine U m sigs))))))"

section \<open>The session service\<close>

definition SESSION_KEYSPACE :: bytes where "SESSION_KEYSPACE = str_bytes ''core_multi_sig_address''"

definition get_session ::
    "'st client_env \<Rightarrow> multi_sig_session codec \<Rightarrow> h256 \<Rightarrow> bytes \<Rightarrow> ('st world, multi_sig_session) action" where
  "get_session C D i passphrase =
     act_bind (get_secure C SESSION_KEYSPACE i passphrase) (\<lambda>v.
     act_result (and_then (opt_kind InvalidInput v) (\<lambda>b. opt_kind DeserializationError (dec_of D b))))"

definition set_session ::
    "'st client_env \<Rightarrow> multi_sig_session codec \<Rightarrow> h256 \<Rightarrow> multi_sig_session \<Rightarrow> bytes \<Rightarrow> ('st world, unit) action" where
  "set_session C D i s passphrase = act_map (\<lambda>_. ()) (set_secure C SESSION_KEYSPACE i (enc_of D s) passphrase)"

definition new_session_id :: "'st client_env \<Rightarrow> ('st world, h256) action" where
  "new_session_id C w = Done (Ok (cl_random C (w_draws w) 32), w\<lparr>w_draws := w_draws w + 1\<rparr>)"

definition initial_session ::
    "h256 \<Rightarrow> h256 \<Rightarrow> public_key list \<Rightarrow> public_key \<Rightarrow> bytes \<Rightarrow> public_key \<Rightarrow> h256 \<Rightarrow> multi_sig_session" where
  "initial_session i message keys self sk combined key_hash = \<lparr>se_id = i, se_message = message,
     se_signers = map (\<lambda>pk. \<lparr>sg_public_key = pk, sg_nonce_commitment = None, sg_nonce = None,
       sg_partial_signature = None\<rparr>) (sort keys),
     se_public_key = self, se_private_key = sk, se_combined_public_key = combined,
     se_combined_public_key_hash = key_hash\<rparr>"

definition new_session ::
    "'st client_env \<Rightarrow> multi_sig_session codec \<Rightarrow> pk_ops \<Rightarrow> h256 \<Rightarrow> public_key list \<Rightarrow> public_key \<Rightarrow> bytes \<Rightarrow> bytes \<Rightarrow>
     ('st world, h256) action" where
  "new_session C D P message keys self sk passphrase =
     (if po_of_private P sk \<noteq> self then act_result (Err InvalidInput)
      else if length keys \<le> 1 then act_result (Err InvalidInput)
      else if binary_search (sort keys) self = None then act_result (Err InvalidInput)
      else act_bind (act_result (pk_combine P (sort keys))) (\<lambda>(combined, key_hash).
        act_bind (new_session_id C) (\<lambda>i.
        act_bind (set_session C D i (initial_session i message keys self sk combined key_hash) passphrase) (\<lambda>_.
        act_return i))))"

text \<open>
  The own values: computed, recorded if this is the first time, and the session is
  stored again.
\<close>

definition own_value ::
    "(multi_sig_session \<Rightarrow> error_kind + 'a) \<Rightarrow> (multi_sig_session \<Rightarrow> public_key \<Rightarrow> error_kind + bool) \<Rightarrow>
     (multi_sig_session \<Rightarrow> public_key \<Rightarrow> 'a \<Rightarrow> error_kind + multi_sig_session) \<Rightarrow> multi_sig_session \<Rightarrow>
     error_kind + 'a \<times> multi_sig_session" where
  "own_value compute present add s = and_then (compute s) (\<lambda>v.
     and_then (present s (se_public_key s)) (\<lambda>b.
     and_then (if b then Ok s else add s (se_public_key s) v) (\<lambda>s'. Ok (v, s'))))"

definition ss_own_value ::
    "'st client_env \<Rightarrow> multi_sig_session codec \<Rightarrow> (multi_sig_session \<Rightarrow> error_kind + 'a \<times> multi_sig_session) \<Rightarrow>
     h256 \<Rightarrow> bytes \<Rightarrow> ('st world, 'a) action" where
  "ss_own_value C D f i passphrase =
     act_bind (get_session C D i passphrase) (\<lambda>s.
     act_bind (act_result (f s)) (\<lambda>(v, s').
     act_bind (set_session C D i s' passphrase) (\<lambda>_. act_return v)))"

definition ss_nonce_commitment ::
    "'st client_env \<Rightarrow> multi_sig_session codec \<Rightarrow> ('ms, 'ps) musig_ops \<Rightarrow> h256 \<Rightarrow> bytes \<Rightarrow> ('st world, h256) action" where
  "ss_nonce_commitment C D U =
     ss_own_value C D (own_value (se_nonce_commitment U) se_has_nonce_commitment se_add_nonce_commitment)"

definition ss_nonce ::
    "'st client_env \<Rightarrow> multi_sig_session codec \<Rightarrow> ('ms, 'ps) musig_ops \<Rightarrow> h256 \<Rightarrow> bytes \<Rightarrow> ('st world, public_key) action" where
  "ss_nonce C D U = ss_own_value C D (own_value (se_nonce_of U) se_has_nonce se_add_nonce)"

definition ss_partial_signature ::
    "'st client_env \<Rightarrow> multi_sig_session codec \<Rightarrow> ('ms, 'ps) musig_ops \<Rightarrow> h256 \<Rightarrow> bytes \<Rightarrow> ('st world, h256) action" where
  "ss_partial_signature C D U =
     ss_own_value C D (own_value (se_partial_signature U) se_has_partial_signature se_add_partial_signature)"

definition session_modifier ::
    "multi_sig_session codec \<Rightarrow> (multi_sig_session \<Rightarrow> error_kind + multi_sig_session) \<Rightarrow> bytes option \<Rightarrow>
     (error_kind + bytes option) run" where
  "session_modifier D f v = Done (and_then (opt_kind InvalidInput v) (\<lambda>b.
     and_then (opt_kind DeserializationError (dec_of D b)) (\<lambda>s. and_then (f s) (\<lambda>s'. Ok (Some (enc_of D s'))))))"

definition ss_add_nonce_commitment ::
    "'st client_env \<Rightarrow> multi_sig_session codec \<Rightarrow> h256 \<Rightarrow> h256 \<Rightarrow> public_key \<Rightarrow> bytes \<Rightarrow> ('st world, unit) action" where
  "ss_add_nonce_commitment C D i c pk passphrase = act_map (\<lambda>_. ())
     (fetch_and_update_secure C SESSION_KEYSPACE i passphrase (session_modifier D (\<lambda>s. se_add_nonce_commitment s pk c)))"

definition ss_add_nonce ::
    "'st client_env \<Rightarrow> multi_sig_session codec \<Rightarrow> h256 \<Rightarrow> public_key \<Rightarrow> public_key \<Rightarrow> bytes \<Rightarrow> ('st world, unit) action" where
  "ss_add_nonce C D i n pk passphrase = act_map (\<lambda>_. ())
     (fetch_and_update_secure C SESSION_KEYSPACE i passphrase (session_modifier D (\<lambda>s. se_add_nonce s pk n)))"

definition ss_add_partial_signature ::
    "'st client_env \<Rightarrow> multi_sig_session codec \<Rightarrow> h256 \<Rightarrow> h256 \<Rightarrow> public_key \<Rightarrow> bytes \<Rightarrow> ('st world, unit) action" where
  "ss_add_partial_signature C D i x pk passphrase = act_map (\<lambda>_. ())
     (fetch_and_update_secure C SESSION_KEYSPACE i passphrase (session_modifier D (\<lambda>s. se_add_partial_signature s pk x)))"

definition ss_signature ::
    "'st client_env \<Rightarrow> multi_sig_session codec \<Rightarrow> ('ms, 'ps) musig_ops \<Rightarrow> h256 \<Rightarrow> bytes \<Rightarrow> ('st world, schnorr_signature) action" where
  "ss_signature C D U i passphrase = act_bind (get_session C D i passphrase) (\<lambda>s. act_result (se_signature U s))"

definition ss_public_keys ::
    "'st client_env \<Rightarrow> multi_sig_session codec \<Rightarrow> h256 \<Rightarrow> bytes \<Rightarrow> ('st world, public_key list) action" where
  "ss_public_keys C D i passphrase = act_map se_public_keys (get_session C D i passphrase)"

section \<open>Binary search\<close>

lemma bs_loop_result:
  assumes "0 < sz" "base + sz \<le> length xs" "sorted xs" "base = 0 \<or> xs ! base \<le> key"
    and "\<forall>j. base + sz \<le> j \<and> j < length xs \<longrightarrow> key < xs ! j"
  shows "bs_loop xs key base sz < length xs \<and> (bs_loop xs key base sz = 0 \<or> xs ! bs_loop xs key base sz \<le> key) \<and>
    (\<forall>j. bs_loop xs key base sz < j \<and> j < length xs \<longrightarrow> key < xs ! j)"
  using assms
proof (induction xs key base sz rule: bs_loop.induct)
  case (1 xs key base sz)
  show ?case
  proof (cases "sz > 1")
    case False
    then have stop: "bs_loop xs key base sz = base" by (subst bs_loop.simps) simp
    have "sz = 1" using False "1.prems"(1) by simp
    then show ?thesis unfolding stop using "1.prems"(2,4,5) by simp
  next
    case True
    define h where "h = sz div 2"
    define b where "b = (if xs ! (base + h) > key then base else base + h)"
    have h: "0 < h" "h < sz" using True by (simp_all add: h_def)
    have step: "bs_loop xs key base sz = bs_loop xs key b (sz - h)"
      using True unfolding b_def h_def by (subst bs_loop.simps) (simp add: Let_def)
    have low: "b = 0 \<or> xs ! b \<le> key" using "1.prems"(4) by (auto simp: b_def not_less)
    have "b \<le> base + h" by (simp add: b_def)
    then have len: "0 < sz - h" "b + (sz - h) \<le> length xs" using h "1.prems"(2) by linarith+
    have upper: "\<forall>j. b + (sz - h) \<le> j \<and> j < length xs \<longrightarrow> key < xs ! j"
    proof (cases "xs ! (base + h) > key")
      case gt: True
      have "h \<le> sz - h" by (simp add: h_def)
      then have "key < xs ! j" if "b + (sz - h) \<le> j" "j < length xs" for j
      proof -
        have "base + h \<le> j" using that(1) gt \<open>h \<le> sz - h\<close> by (simp add: b_def)
        from sorted_nth_mono [OF "1.prems"(3) this that(2)] gt show ?thesis by simp
      qed
      then show ?thesis by blast
    next
      case False
      then have "b + (sz - h) = base + sz" using h by (simp add: b_def)
      then show ?thesis using "1.prems"(5) by simp
    qed
    have "bs_loop xs key b (sz - h) < length xs \<and>
        (bs_loop xs key b (sz - h) = 0 \<or> xs ! bs_loop xs key b (sz - h) \<le> key) \<and>
        (\<forall>j. bs_loop xs key b (sz - h) < j \<and> j < length xs \<longrightarrow> key < xs ! j)"
      using "1.IH" [OF True h_def refl, folded b_def, OF len "1.prems"(3) low upper] .
    then show ?thesis unfolding step .
  qed
qed

lemma bs_whole:
  assumes "sorted xs" "xs \<noteq> []"
  shows "bs_loop xs key 0 (length xs) < length xs"
    and "bs_loop xs key 0 (length xs) = 0 \<or> xs ! bs_loop xs key 0 (length xs) \<le> key"
    and "\<forall>j. bs_loop xs key 0 (length xs) < j \<and> j < length xs \<longrightarrow> key < xs ! j"
proof -
  have "0 < length xs" "0 + length xs \<le> length xs" "(0 :: nat) = 0 \<or> xs ! 0 \<le> key"
    "\<forall>j. 0 + length xs \<le> j \<and> j < length xs \<longrightarrow> key < xs ! j" using assms(2) by auto
  from bs_loop_result [OF this(1,2) assms(1) this(3,4)] show
    "bs_loop xs key 0 (length xs) < length xs"
    "bs_loop xs key 0 (length xs) = 0 \<or> xs ! bs_loop xs key 0 (length xs) \<le> key"
    "\<forall>j. bs_loop xs key 0 (length xs) < j \<and> j < length xs \<longrightarrow> key < xs ! j" by blast+
qed

lemma binary_search_Some:
  "sorted xs \<Longrightarrow> binary_search xs key = Some i \<Longrightarrow> i < length xs \<and> xs ! i = key"
  using bs_whole(1) [of xs key] by (auto simp: binary_search_def Let_def split: if_splits)

lemma binary_search_None: "sorted xs \<Longrightarrow> binary_search xs key = None \<longleftrightarrow> key \<notin> set xs"
proof
  assume xs: "sorted xs" and none: "binary_search xs key = None"
  show "key \<notin> set xs"
  proof
    assume "key \<in> set xs"
    then obtain j where j: "j < length xs" "xs ! j = key" by (auto simp: in_set_conv_nth)
    then have ne: "xs \<noteq> []" by auto
    let ?b = "bs_loop xs key 0 (length xs)"
    note b = bs_whole [OF xs ne, of key]
    have "j \<le> ?b" using b(3) j by (metis less_irrefl not_le)
    then have "xs ! ?b = key" using b(1,2) j(2) sorted_nth_mono [OF xs, of j ?b] by auto
    then show False using none ne by (simp add: binary_search_def Let_def)
  qed
next
  assume "sorted xs" "key \<notin> set xs"
  then show "binary_search xs key = None"
    using binary_search_Some [of xs key] by (cases "binary_search xs key") auto
qed

section \<open>Sessions only grow\<close>

definition signer_grows :: "signer \<Rightarrow> signer \<Rightarrow> bool" where
  "signer_grows g g' \<longleftrightarrow> sg_public_key g' = sg_public_key g \<and>
     sg_nonce_commitment g \<in> {None, sg_nonce_commitment g'} \<and> sg_nonce g \<in> {None, sg_nonce g'} \<and>
     sg_partial_signature g \<in> {None, sg_partial_signature g'}"

definition session_grows :: "multi_sig_session \<Rightarrow> multi_sig_session \<Rightarrow> bool" where
  "session_grows s s' \<longleftrightarrow> se_id s' = se_id s \<and> se_message s' = se_message s \<and> se_public_key s' = se_public_key s \<and>
     se_private_key s' = se_private_key s \<and> se_combined_public_key s' = se_combined_public_key s \<and>
     se_combined_public_key_hash s' = se_combined_public_key_hash s \<and>
     list_all2 signer_grows (se_signers s) (se_signers s')"

lemma signer_grows_refl: "signer_grows g g"
  by (simp add: signer_grows_def)

lemma signer_grows_trans: "signer_grows a b \<Longrightarrow> signer_grows b c \<Longrightarrow> signer_grows a c"
  by (auto simp: signer_grows_def)

lemma session_grows_refl: "session_grows s s"
  by (simp add: session_grows_def signer_grows_refl list_all2_refl)

lemma session_grows_trans:
  assumes "session_grows a b" "session_grows b c"
  shows "session_grows a c"
proof -
  have "list_all2 signer_grows (se_signers a) (se_signers b)" "list_all2 signer_grows (se_signers b) (se_signers c)"
    using assms by (simp_all add: session_grows_def)
  from list_all2_trans [OF signer_grows_trans this] show ?thesis using assms by (simp add: session_grows_def)
qed

lemma signer_growsD:
  assumes "signer_grows g g'"
  shows "sg_public_key g' = sg_public_key g" "sg_nonce_commitment g = Some c \<Longrightarrow> sg_nonce_commitment g' = Some c"
    "sg_nonce g = Some n \<Longrightarrow> sg_nonce g' = Some n"
  using assms by (auto simp: signer_grows_def)

lemma signer_additions_grow:
  "signer_add_nonce_commitment g c = Ok g' \<Longrightarrow> signer_grows g g'"
  "signer_add_nonce g n = Ok g' \<Longrightarrow> signer_grows g g'"
  "signer_add_partial_signature g x = Ok g' \<Longrightarrow> signer_grows g g'"
  by (auto simp: signer_add_nonce_commitment_def signer_add_nonce_def signer_add_partial_signature_def
      signer_grows_def split: if_splits)

lemma update_signer_grows:
  assumes "update_signer s pk f = Ok s'" "\<And>g g'. f g = Ok g' \<Longrightarrow> signer_grows g g'"
  shows "session_grows s s'"
proof -
  obtain i g where "f (se_signers s ! i) = Ok g" "s' = s\<lparr>se_signers := (se_signers s)[i := g]\<rparr>"
    using assms(1) by (auto simp: update_signer_def run_elims)
  moreover have "signer_grows (se_signers s ! j) ((se_signers s)[i := g] ! j)" if "j < length (se_signers s)" for j
    using that assms(2) [OF calculation(1)] by (cases "j = i") (simp_all add: signer_grows_refl)
  ultimately show ?thesis by (simp add: session_grows_def list_all2_conv_all_nth)
qed

lemma additions_grow:
  "se_add_nonce_commitment s pk c = Ok s' \<Longrightarrow> session_grows s s'"
  "se_add_nonce s pk n = Ok s' \<Longrightarrow> session_grows s s'"
  "se_add_partial_signature s pk x = Ok s' \<Longrightarrow> session_grows s s'"
  unfolding se_add_nonce_commitment_def se_add_nonce_def se_add_partial_signature_def
  by (erule update_signer_grows, erule signer_additions_grow)+

lemma own_value_grows:
  assumes "own_value compute present add s = Ok (v, s')" "\<And>pk s'. add s pk v = Ok s' \<Longrightarrow> session_grows s s'"
  shows "session_grows s s' \<and> compute s = Ok v"
  using assms by (auto simp: own_value_def run_elims session_grows_refl split: if_splits)

section \<open>Values once given do not change\<close>

lemma grows_static:
  assumes "session_grows s s'"
  shows "signer_index s' = signer_index s" "musig_session U s' = musig_session U s"
    "set_commitments U s' cs m = set_commitments U s cs m" "set_nonces U s' ns m = set_nonces U s ns m"
    "committed_session U s' cs = committed_session U s cs" "nonced_session U s' cs ns = nonced_session U s cs ns"
proof -
  have all: "list_all2 signer_grows (se_signers s) (se_signers s')" using assms by (simp add: session_grows_def)
  have "map sg_public_key (se_signers s') = map sg_public_key (se_signers s)"
    using all by (induction rule: list_all2_induct) (simp_all add: signer_grows_def)
  then show index: "signer_index s' = signer_index s" by (simp add: fun_eq_iff signer_index_def)
  show musig: "musig_session U s' = musig_session U s"
    using assms by (simp add: musig_session_def index list_all2_lengthD [OF all] session_grows_def)
  show cs: "set_commitments U s' cs m = set_commitments U s cs m" for cs m
    by (induction cs arbitrary: m) (auto simp: index)
  show ns: "set_nonces U s' ns m = set_nonces U s ns m" for ns m
    by (induction ns arbitrary: m) (auto simp: index and_then_def split: sum.split)
  show com: "committed_session U s' cs = committed_session U s cs" for cs
    by (simp add: committed_session_def musig cs)
  show "nonced_session U s' cs ns = nonced_session U s cs ns"
    by (simp add: nonced_session_def com ns)
qed

lemma collect_grows:
  assumes "list_all2 signer_grows gs gs'" "collect_results (map f gs) = Ok vs"
    and "\<And>g g' v. signer_grows g g' \<Longrightarrow> f g = Ok v \<Longrightarrow> f g' = Ok v"
  shows "collect_results (map f gs') = Ok vs"
  using assms(1,2)
proof (induction arbitrary: vs rule: list_all2_induct)
  case (Cons g gs g' gs')
  then show ?case using assms(3) by (auto simp: run_elims)
qed simp

lemma collected_stable:
  assumes "session_grows s s'"
  shows "se_nonce_commitments s = Ok cs \<Longrightarrow> se_nonce_commitments s' = Ok cs"
    and "se_nonces s = Ok ns \<Longrightarrow> se_nonces s' = Ok ns"
proof -
  have all: "list_all2 signer_grows (se_signers s) (se_signers s')" using assms by (simp add: session_grows_def)
  show "se_nonce_commitments s = Ok cs \<Longrightarrow> se_nonce_commitments s' = Ok cs"
    unfolding se_nonce_commitments_def
    by (erule collect_grows [OF all]) (auto simp: signer_growsD split: option.splits)
  show "se_nonces s = Ok ns \<Longrightarrow> se_nonces s' = Ok ns"
    unfolding se_nonces_def by (erule collect_grows [OF all]) (auto simp: signer_growsD split: option.splits)
qed

lemma answers_stable:
  assumes "session_grows s s'"
  shows "se_nonce_commitment U s = Ok c \<Longrightarrow> se_nonce_commitment U s' = Ok c"
    and "se_nonce_of U s = Ok n \<Longrightarrow> se_nonce_of U s' = Ok n"
    and "se_partial_signature U s = Ok x \<Longrightarrow> se_partial_signature U s' = Ok x"
proof -
  note static = grows_static [OF assms] and stable = collected_stable [OF assms]
  show "se_nonce_commitment U s = Ok c \<Longrightarrow> se_nonce_commitment U s' = Ok c"
    by (simp add: se_nonce_commitment_def static)
  show "se_nonce_of U s = Ok n \<Longrightarrow> se_nonce_of U s' = Ok n"
    by (cases "se_nonce_commitments s") (simp_all add: se_nonce_of_def static stable)
  show "se_partial_signature U s = Ok x \<Longrightarrow> se_partial_signature U s' = Ok x"
    by (cases "se_nonce_commitments s"; cases "se_nonces s") (simp_all add: se_partial_signature_def static stable)
qed

lemma collected_present:
  "collect_results (map (\<lambda>g. case f g of None \<Rightarrow> Err e | Some c \<Rightarrow> Ok (h g c)) gs) = Ok vs \<Longrightarrow> \<forall>g \<in> set gs. f g \<noteq> None"
  by (induction gs arbitrary: vs) (auto simp: run_elims split: option.splits)

lemma nonce_needs_commitments:
  "se_nonce_of U s = Ok n \<Longrightarrow> \<forall>g \<in> set (se_signers s). sg_nonce_commitment g \<noteq> None"
  unfolding se_nonce_of_def se_nonce_commitments_def and_then_eq_Ok by (elim exE conjE) (rule collected_present)

lemma partial_needs_nonces:
  assumes "se_partial_signature U s = Ok x"
  shows "\<forall>g \<in> set (se_signers s). sg_nonce_commitment g \<noteq> None \<and> sg_nonce g \<noteq> None"
proof -
  obtain cs ns where "se_nonce_commitments s = Ok cs" "se_nonces s = Ok ns"
    using assms unfolding se_partial_signature_def and_then_eq_Ok by (elim exE conjE) (rule that)
  then show ?thesis
    unfolding se_nonce_commitments_def se_nonces_def by (elim collected_present [elim_format]) blast
qed

section \<open>Histories of a session\<close>

datatype session_op = OwnCommitment | AddCommitment h256 public_key | OwnNonce | AddNonce public_key public_key
  | OwnPartial | AddPartial h256 public_key | Combine

datatype session_out = Commitment h256 | Nonce public_key | Partial h256 | Added | Signed schnorr_signature

fun run_session_op ::
    "'st client_env \<Rightarrow> multi_sig_session codec \<Rightarrow> ('ms, 'ps) musig_ops \<Rightarrow> h256 \<Rightarrow> bytes \<Rightarrow> session_op \<Rightarrow>
     ('st world, session_out) action" where
  "run_session_op C D U i p OwnCommitment = act_map Commitment (ss_nonce_commitment C D U i p)"
| "run_session_op C D U i p (AddCommitment c pk) = act_map (\<lambda>_. Added) (ss_add_nonce_commitment C D i c pk p)"
| "run_session_op C D U i p OwnNonce = act_map Nonce (ss_nonce C D U i p)"
| "run_session_op C D U i p (AddNonce n pk) = act_map (\<lambda>_. Added) (ss_add_nonce C D i n pk p)"
| "run_session_op C D U i p OwnPartial = act_map Partial (ss_partial_signature C D U i p)"
| "run_session_op C D U i p (AddPartial x pk) = act_map (\<lambda>_. Added) (ss_add_partial_signature C D i x pk p)"
| "run_session_op C D U i p Combine = act_map Signed (ss_signature C D U i p)"

text \<open>The answers of the service to a sequence of requests; an error does not end it.\<close>

fun run_session_ops ::
    "'st client_env \<Rightarrow> multi_sig_session codec \<Rightarrow> ('ms, 'ps) musig_ops \<Rightarrow> h256 \<Rightarrow> bytes \<Rightarrow> session_op list \<Rightarrow>
     'st world \<Rightarrow> ((error_kind + session_out) list \<times> 'st world) run" where
  "run_session_ops C D U i p [] w = Done ([], w)"
| "run_session_ops C D U i p (x # xs) w = run_bind (run_session_op C D U i p x w) (\<lambda>(r, w').
     run_bind (run_session_ops C D U i p xs w') (\<lambda>(rs, w''). Done (r # rs, w'')))"

text \<open>The same on the session alone.\<close>

definition emit :: "('a \<Rightarrow> session_out) \<Rightarrow> error_kind + 'a \<times> multi_sig_session \<Rightarrow> error_kind + session_out \<times> multi_sig_session" where
  "emit f r = and_then r (\<lambda>(v, s'). Ok (f v, s'))"

definition emit_added :: "error_kind + multi_sig_session \<Rightarrow> error_kind + session_out \<times> multi_sig_session" where
  "emit_added r = and_then r (\<lambda>s'. Ok (Added, s'))"

fun session_step ::
    "('ms, 'ps) musig_ops \<Rightarrow> session_op \<Rightarrow> multi_sig_session \<Rightarrow> error_kind + session_out \<times> multi_sig_session" where
  "session_step U OwnCommitment s =
     emit Commitment (own_value (se_nonce_commitment U) se_has_nonce_commitment se_add_nonce_commitment s)"
| "session_step U (AddCommitment c pk) s = emit_added (se_add_nonce_commitment s pk c)"
| "session_step U OwnNonce s = emit Nonce (own_value (se_nonce_of U) se_has_nonce se_add_nonce s)"
| "session_step U (AddNonce n pk) s = emit_added (se_add_nonce s pk n)"
| "session_step U OwnPartial s =
     emit Partial (own_value (se_partial_signature U) se_has_partial_signature se_add_partial_signature s)"
| "session_step U (AddPartial x pk) s = emit_added (se_add_partial_signature s pk x)"
| "session_step U Combine s = and_then (se_signature U s) (\<lambda>v. Ok (Signed v, s))"

definition answer_of :: "error_kind + session_out \<times> multi_sig_session \<Rightarrow> error_kind + session_out" where
  "answer_of r = map_sum id fst r"

definition session_after :: "multi_sig_session \<Rightarrow> error_kind + session_out \<times> multi_sig_session \<Rightarrow> multi_sig_session" where
  "session_after s r = (case r of Inl _ \<Rightarrow> s | Inr (_, s') \<Rightarrow> s')"

fun session_outs ::
    "('ms, 'ps) musig_ops \<Rightarrow> session_op list \<Rightarrow> multi_sig_session \<Rightarrow> (error_kind + session_out) list \<times> multi_sig_session" where
  "session_outs U [] s = ([], s)"
| "session_outs U (x # xs) s = (let r = session_step U x s; (rs, s') = session_outs U xs (session_after s r) in
     (answer_of r # rs, s'))"

lemma emit_Ok: "emit f r = Ok (out, s') \<longleftrightarrow> (\<exists>v. r = Ok (v, s') \<and> out = f v)"
  by (auto simp: emit_def and_then_eq_Ok)

lemma emit_added_Ok: "emit_added r = Ok (out, s') \<longleftrightarrow> r = Ok s' \<and> out = Added"
  by (auto simp: emit_added_def and_then_eq_Ok)

lemma session_step_grows:
  assumes "session_step U x s = Ok (out, s')"
  shows "session_grows s s'"
proof (cases x)
  case OwnCommitment
  with assms show ?thesis
    by (auto simp: emit_Ok dest!: own_value_grows [OF _ additions_grow(1)])
next
  case OwnNonce
  with assms show ?thesis
    by (auto simp: emit_Ok dest!: own_value_grows [OF _ additions_grow(2)])
next
  case OwnPartial
  with assms show ?thesis
    by (auto simp: emit_Ok dest!: own_value_grows [OF _ additions_grow(3)])
next
  case Combine
  then show ?thesis using assms by (auto simp: and_then_eq_Ok session_grows_refl)
qed (use assms additions_grow in \<open>auto simp: emit_added_Ok\<close>)

lemma session_step_answer:
  assumes "session_step U x s = Ok (out, s')"
  shows "out = Commitment c \<Longrightarrow> se_nonce_commitment U s = Ok c"
    and "out = Nonce n \<Longrightarrow> se_nonce_of U s = Ok n"
    and "out = Partial y \<Longrightarrow> se_partial_signature U s = Ok y"
  using assms by (cases x; force simp: emit_Ok emit_added_Ok own_value_def and_then_eq_Ok)+

lemma session_after_grows: "session_grows s (session_after s (session_step U x s))"
  by (cases "session_step U x s") (auto simp: session_after_def session_grows_refl dest: session_step_grows)

lemma session_outs_grows: "session_grows s (snd (session_outs U xs s))"
proof (induction xs arbitrary: s)
  case (Cons x xs)
  from session_grows_trans [OF session_after_grows Cons.IH] show ?case by (simp add: Let_def split_beta)
qed (simp add: session_grows_refl)

text \<open>An answer that a session gives is the one it would still give at the end.\<close>

lemma session_outs_answer:
  assumes "Ok out \<in> set (fst (session_outs U xs s))"
    and step: "\<And>x s s'. session_step U x s = Ok (out, s') \<Longrightarrow> f s = Ok v"
    and stable: "\<And>s s'. session_grows s s' \<Longrightarrow> f s = Ok v \<Longrightarrow> f s' = Ok v"
  shows "f (snd (session_outs U xs s)) = Ok v"
  using assms(1)
proof (induction xs arbitrary: s)
  case (Cons x xs)
  let ?s = "session_after s (session_step U x s)"
  show ?case
  proof (cases "Ok out \<in> set (fst (session_outs U xs ?s))")
    case True
    from Cons.IH [OF this] show ?thesis by (simp add: Let_def split_beta)
  next
    case False
    then have "answer_of (session_step U x s) = Ok out" using Cons.prems by (simp add: Let_def split_beta)
    then obtain s' where "session_step U x s = Ok (out, s')"
      by (cases "session_step U x s") (auto simp: answer_of_def)
    from stable [OF session_outs_grows step [OF this]] show ?thesis .
  qed
qed simp

lemma session_final:
  shows "Ok (Commitment c) \<in> set (fst (session_outs U xs s)) \<Longrightarrow> se_nonce_commitment U (snd (session_outs U xs s)) = Ok c"
    and "Ok (Nonce n) \<in> set (fst (session_outs U xs s)) \<Longrightarrow> se_nonce_of U (snd (session_outs U xs s)) = Ok n"
    and "Ok (Partial x) \<in> set (fst (session_outs U xs s)) \<Longrightarrow> se_partial_signature U (snd (session_outs U xs s)) = Ok x"
  by (erule session_outs_answer, erule session_step_answer, rule refl, erule (1) answers_stable)+

context secure_storage
begin

lemma get_session_has:
  assumes "lawful" "codec_ok D" "has w p SESSION_KEYSPACE i (Some (enc_of D s))"
  shows "get_session C D i p w = Done (Ok s, w)"
  using get_secure_holds [OF assms(1,3)] assms(2) by (simp add: get_session_def)

lemma new_session_has:
  assumes "lawful" "encrypts C" "codec_ok D" "po_of_private P sk = self" "1 < length keys" "self \<in> set keys"
    and "pk_combine P (sort keys) = Ok (combined, h)" "has w p SESSION_KEYSPACE (cl_random C (w_draws w) 32) old"
  shows "\<exists>w'. new_session C D P message keys self sk p w = Done (Ok (cl_random C (w_draws w) 32), w') \<and>
    has w' p SESSION_KEYSPACE (cl_random C (w_draws w) 32) (Some (enc_of D
      (initial_session (cl_random C (w_draws w) 32) message keys self sk combined h)))"
proof -
  let ?i = "cl_random C (w_draws w) 32" and ?w = "w\<lparr>w_draws := w_draws w + 1\<rparr>"
  have "has ?w p SESSION_KEYSPACE ?i old" using assms(8) by (cases old) (simp_all add: holds_def)
  from set_secure_value [OF assms(1,2) this] obtain w' where w':
    "set_secure C SESSION_KEYSPACE ?i (enc_of D (initial_session ?i message keys self sk combined h)) p ?w = Done (Ok old, w')"
    "has w' p SESSION_KEYSPACE ?i (Some (enc_of D (initial_session ?i message keys self sk combined h)))" by blast
  have "binary_search (sort keys) self \<noteq> None" using assms(6) by (simp add: binary_search_None)
  then have "new_session C D P message keys self sk p w = Done (Ok ?i, w')"
    using assms(4,5,7) w'(1)
    by (simp add: new_session_def act_bind_def new_session_id_def set_session_def)
  then show ?thesis using w'(2) by blast
qed

lemma own_value_has:
  assumes "lawful" "encrypts C" "codec_ok D" "has w p SESSION_KEYSPACE i (Some (enc_of D s))"
  shows "\<exists>w'. act_map out (ss_own_value C D f i p) w = Done (answer_of (emit out (f s)), w') \<and>
    has w' p SESSION_KEYSPACE i (Some (enc_of D (session_after s (emit out (f s)))))"
proof (cases "f s")
  case (Inl e)
  then show ?thesis
    using assms(4) by (simp add: ss_own_value_def get_session_has [OF assms(1,3,4)] answer_of_def session_after_def emit_def)
next
  case (Inr r)
  obtain v s' where r: "r = (v, s')" by (cases r)
  from set_secure_value [OF assms(1,2,4), of "enc_of D s'"] obtain w' where
    "set_secure C SESSION_KEYSPACE i (enc_of D s') p w = Done (Ok (Some (enc_of D s)), w')"
    "has w' p SESSION_KEYSPACE i (Some (enc_of D s'))" by (elim exE conjE)
  then show ?thesis
    by (simp add: ss_own_value_def get_session_has [OF assms(1,3,4)] set_session_def Inr r answer_of_def
        session_after_def emit_def)
qed

lemma add_value_has:
  assumes "lawful" "encrypts C" "codec_ok D" "has w p SESSION_KEYSPACE i (Some (enc_of D s))"
  shows "\<exists>w'. act_map (\<lambda>_. Added) (act_map (\<lambda>_. ()) (fetch_and_update_secure C SESSION_KEYSPACE i p (session_modifier D f))) w =
      Done (answer_of (emit_added (f s)), w') \<and>
    has w' p SESSION_KEYSPACE i (Some (enc_of D (session_after s (emit_added (f s)))))"
proof (cases "f s")
  case (Inl e)
  then have "session_modifier D f (Some (enc_of D s)) = Done (Err e)"
    using assms(3) by (simp add: session_modifier_def)
  from update_secure_Err [where f = "session_modifier D f", OF assms(1,4) this] obtain w' where
    "fetch_and_update_secure C SESSION_KEYSPACE i p (session_modifier D f) w = Done (Err e, w')"
    "inv (w_store w')" "view (w_store w') = view (w_store w)" by (elim exE conjE)
  then show ?thesis
    using assms(4) by (simp add: Inl answer_of_def session_after_def emit_added_def holds_def)
next
  case (Inr s')
  then have "session_modifier D f (Some (enc_of D s)) = Done (Ok (Some (enc_of D s')))"
    using assms(3) by (simp add: session_modifier_def)
  from update_secure_value [where f = "session_modifier D f", OF assms(1,2,4) this] show ?thesis
    by (elim exE conjE) (simp add: Inr answer_of_def session_after_def emit_added_def)
qed

lemma run_session_op_has:
  assumes "lawful" "encrypts C" "codec_ok D" "has w p SESSION_KEYSPACE i (Some (enc_of D s))"
  shows "\<exists>w'. run_session_op C D U i p x w = Done (answer_of (session_step U x s), w') \<and>
    has w' p SESSION_KEYSPACE i (Some (enc_of D (session_after s (session_step U x s))))"
proof (cases x)
  case Combine
  then show ?thesis
    using assms(4) by (cases "se_signature U s")
      (simp_all add: ss_signature_def get_session_has [OF assms(1,3,4)] answer_of_def session_after_def)
next
  case (AddCommitment c pk)
  then show ?thesis
    using add_value_has [OF assms, of "\<lambda>s. se_add_nonce_commitment s pk c"] by (simp add: ss_add_nonce_commitment_def)
next
  case (AddNonce n pk)
  then show ?thesis using add_value_has [OF assms, of "\<lambda>s. se_add_nonce s pk n"] by (simp add: ss_add_nonce_def)
next
  case (AddPartial y pk)
  then show ?thesis
    using add_value_has [OF assms, of "\<lambda>s. se_add_partial_signature s pk y"] by (simp add: ss_add_partial_signature_def)
qed (simp_all add: ss_nonce_commitment_def ss_nonce_def ss_partial_signature_def own_value_has [OF assms])

lemma run_session_ops_has:
  assumes "lawful" "encrypts C" "codec_ok D"
  shows "has w p SESSION_KEYSPACE i (Some (enc_of D s)) \<Longrightarrow>
    \<exists>w'. run_session_ops C D U i p xs w = Done (fst (session_outs U xs s), w') \<and>
      has w' p SESSION_KEYSPACE i (Some (enc_of D (snd (session_outs U xs s))))"
proof (induction xs arbitrary: w s)
  case Nil
  then show ?case by simp
next
  case (Cons x xs)
  from run_session_op_has [OF assms Cons.prems, of U x] obtain w1 where w1:
    "run_session_op C D U i p x w = Done (answer_of (session_step U x s), w1)"
    "has w1 p SESSION_KEYSPACE i (Some (enc_of D (session_after s (session_step U x s))))" by (elim exE conjE)
  from Cons.IH [OF w1(2)] show ?case by (elim exE conjE) (simp add: w1(1) Let_def split_beta)
qed

end

text \<open>
  C10: a signer never gives two different nonces or two different partial signatures in
  one session, in whatever order the requests and the values of the other signers
  arrive and however often they are repeated: a second partial signature under the same
  nonce and other data would reveal the private key.  The service always answers; the
  nonce is only given when the commitments of all signers are stored, a partial
  signature only when their nonces are stored as well.
\<close>

theorem session_signs_once:
  assumes "cl_storage C = memory_storage" "cipher_ok C" "encrypts C" "codec_ok D"
    and "holds C mem_view mem_inv w p SESSION_KEYSPACE i (Some (enc_of D s))"
  shows "\<exists>rs w' s'. run_session_ops C D U i p requests w = Done (rs, w') \<and> length rs = length requests \<and>
    get_session C D i p w' = Done (Ok s', w') \<and>
    (\<forall>c c'. Ok (Commitment c) \<in> set rs \<and> Ok (Commitment c') \<in> set rs \<longrightarrow> c = c') \<and>
    (\<forall>n n'. Ok (Nonce n) \<in> set rs \<and> Ok (Nonce n') \<in> set rs \<longrightarrow> n = n') \<and>
    (\<forall>x x'. Ok (Partial x) \<in> set rs \<and> Ok (Partial x') \<in> set rs \<longrightarrow> x = x') \<and>
    (\<forall>n. Ok (Nonce n) \<in> set rs \<longrightarrow> (\<forall>g \<in> set (se_signers s'). sg_nonce_commitment g \<noteq> None)) \<and>
    (\<forall>x. Ok (Partial x) \<in> set rs \<longrightarrow>
      (\<forall>g \<in> set (se_signers s'). sg_nonce_commitment g \<noteq> None \<and> sg_nonce g \<noteq> None))"
proof -
  have laws: "cl_storage C = memory_storage \<and> cipher_ok C" using assms(1,2) by blast
  let ?rs = "fst (session_outs U requests s)" and ?s = "snd (session_outs U requests s)"
  from mem_secure.run_session_ops_has [OF laws assms(3,4,5), of U requests] obtain w' where
    w': "run_session_ops C D U i p requests w = Done (?rs, w')"
      "holds C mem_view mem_inv w' p SESSION_KEYSPACE i (Some (enc_of D ?s))" by (elim exE conjE)
  have "length ?rs = length requests"
    by (induction requests arbitrary: s) (simp_all add: Let_def split_beta)
  moreover have "c = c'" if "Ok (Commitment c) \<in> set ?rs" "Ok (Commitment c') \<in> set ?rs" for c c'
    using session_final(1) [OF that(1)] session_final(1) [OF that(2)] by simp
  moreover have "n = n'" if "Ok (Nonce n) \<in> set ?rs" "Ok (Nonce n') \<in> set ?rs" for n n'
    using session_final(2) [OF that(1)] session_final(2) [OF that(2)] by simp
  moreover have "x = x'" if "Ok (Partial x) \<in> set ?rs" "Ok (Partial x') \<in> set ?rs" for x x'
    using session_final(3) [OF that(1)] session_final(3) [OF that(2)] by simp
  ultimately show ?thesis
    using w'(1) mem_secure.get_session_has [OF laws assms(4) w'(2)]
      nonce_needs_commitments [OF session_final(2)] partial_needs_nonces [OF session_final(3)]
    by (intro exI [of _ ?rs] exI [of _ w'] exI [of _ ?s]) blast
qed

section \<open>A session of two signers\<close>

definition sample_musig :: "(bytes list, bytes) musig_ops" where
  "sample_musig = \<lparr>mu_id_from_slice = Some, mu_message_from_slice = Some, mu_new = (\<lambda>i m pk h n j sk. Some [sk]),
     mu_my_nonce_commitment = concat, mu_set_nonce_commitment = (\<lambda>m c i. m @ [c]), mu_public_nonce = (\<lambda>m. Some ([7], m)),
     mu_set_nonce = (\<lambda>m i n. Some (m @ [n])), mu_combine_nonces = Some, mu_partial_sign = (\<lambda>m. Some (concat m, m)),
     mu_partial_from = Some, mu_partial_combine = (\<lambda>m ps. Some (concat ps))\<rparr>"

definition sample_requests :: "session_op list" where
  "sample_requests = [OwnNonce, OwnCommitment, AddCommitment [6] [2], OwnNonce, AddNonce [8] [2], OwnPartial,
     AddNonce [9] [2], OwnPartial]"

instance signer_ext :: (countable) countable
  by (rule countable_classI [of "\<lambda>r. to_nat (sg_public_key r, sg_nonce_commitment r, sg_nonce r, sg_partial_signature r,
      signer.more r)"]) (simp add: signer.equality)

instance multi_sig_session_ext :: (countable) countable
  by (rule countable_classI [of "\<lambda>r. to_nat (se_id r, se_message r, se_signers r, se_public_key r, se_private_key r,
      se_combined_public_key r, se_combined_public_key_hash r, multi_sig_session.more r)"])
    (simp add: multi_sig_session.equality)

lemma sample_index: "binary_search [[1], [2]] [1 :: u8] = Some 0" "binary_search [[1], [2]] [2 :: u8] = Some 1"
  by (simp_all add: binary_search_def bs_loop.simps Let_def)

lemmas sample_session_defs = emit_def emit_added_def answer_of_def session_after_def own_value_def
  se_nonce_commitment_def se_nonce_of_def se_partial_signature_def se_has_nonce_commitment_def se_has_nonce_def
  se_has_partial_signature_def se_add_nonce_commitment_def se_add_nonce_def se_add_partial_signature_def
  update_signer_def signer_add_nonce_commitment_def signer_add_nonce_def signer_add_partial_signature_def
  musig_session_def committed_session_def nonced_session_def se_nonce_commitments_def se_nonces_def signer_index_def

definition two_signers ::
    "multi_sig_session \<Rightarrow> h256 option \<Rightarrow> public_key option \<Rightarrow> h256 option \<Rightarrow> h256 option \<Rightarrow> public_key option \<Rightarrow> multi_sig_session" where
  "two_signers s c n x c' n' = s\<lparr>se_signers :=
     [\<lparr>sg_public_key = [1], sg_nonce_commitment = c, sg_nonce = n, sg_partial_signature = x\<rparr>,
      \<lparr>sg_public_key = [2], sg_nonce_commitment = c', sg_nonce = n', sg_partial_signature = None\<rparr>]\<rparr>"

lemma sample_start:
  "initial_session i m [[2], [1]] [1] [1] pk h = two_signers (initial_session i m [] [1] [1] pk h) None None None None None"
  by (simp add: initial_session_def two_signers_def)

lemma sample_steps:
  fixes i m pk h
  defines "s \<equiv> initial_session i m [] [1] [1] pk h"
  shows "session_step sample_musig OwnNonce (two_signers s None None None None None) = Err MultiSigError"
    and "session_step sample_musig OwnCommitment (two_signers s None None None None None) =
      Ok (Commitment [1], two_signers s (Some [1]) None None None None)"
    and "session_step sample_musig (AddCommitment [6] [2]) (two_signers s (Some [1]) None None None None) =
      Ok (Added, two_signers s (Some [1]) None None (Some [6]) None)"
    and "session_step sample_musig OwnNonce (two_signers s (Some [1]) None None (Some [6]) None) =
      Ok (Nonce [7], two_signers s (Some [1]) (Some [7]) None (Some [6]) None)"
    and "session_step sample_musig (AddNonce [8] [2]) (two_signers s (Some [1]) (Some [7]) None (Some [6]) None) =
      Ok (Added, two_signers s (Some [1]) (Some [7]) None (Some [6]) (Some [8]))"
    and "session_step sample_musig OwnPartial (two_signers s (Some [1]) (Some [7]) None (Some [6]) (Some [8])) =
      Ok (Partial [1, 1, 6, 7, 8], two_signers s (Some [1]) (Some [7]) (Some [1, 1, 6, 7, 8]) (Some [6]) (Some [8]))"
    and "session_step sample_musig (AddNonce [9] [2])
        (two_signers s (Some [1]) (Some [7]) (Some [1, 1, 6, 7, 8]) (Some [6]) (Some [8])) = Err InvalidInput"
    and "session_step sample_musig OwnPartial
        (two_signers s (Some [1]) (Some [7]) (Some [1, 1, 6, 7, 8]) (Some [6]) (Some [8])) =
      Ok (Partial [1, 1, 6, 7, 8], two_signers s (Some [1]) (Some [7]) (Some [1, 1, 6, 7, 8]) (Some [6]) (Some [8]))"
  unfolding s_def
  by (simp_all add: sample_musig_def initial_session_def two_signers_def sample_session_defs sample_index)

lemma sample_answers:
  "fst (session_outs sample_musig sample_requests (initial_session i m [[2], [1]] [1] [1] pk h)) =
    [Err MultiSigError, Ok (Commitment [1]), Ok Added, Ok (Nonce [7]), Ok Added, Ok (Partial [1, 1, 6, 7, 8]),
     Err InvalidInput, Ok (Partial [1, 1, 6, 7, 8])]"
  unfolding sample_start sample_requests_def
  by (simp add: sample_steps answer_of_def session_after_def Let_def del: session_step.simps)

theorem session_signs_once_witness:
  "\<exists>i w rs w'. new_session sample_client_env sample_codec sample_pk_ops [5] [[2], [1]] [1] [1] [9] sample_world = Done (Ok i, w) \<and>
    run_session_ops sample_client_env sample_codec sample_musig i [9] sample_requests w = Done (rs, w') \<and>
    Ok (Partial [1, 1, 6, 7, 8]) \<in> set rs \<and> (\<forall>x. Ok (Partial x) \<in> set rs \<longrightarrow> x = [1, 1, 6, 7, 8])"
proof -
  let ?i = "cl_random sample_client_env (w_draws sample_world) 32"
  have laws: "cl_storage sample_client_env = memory_storage \<and> cipher_ok sample_client_env" using sample_client(1,2) by blast
  have "pk_combine sample_pk_ops (sort [[2], [1]]) = Ok ([1, 2], [])" "po_of_private sample_pk_ops [1] = [1]"
    "1 < length [[2], [1 :: u8]]" "[1] \<in> set [[2], [1 :: u8]]"
    by (simp_all add: pk_combine_def sample_pk_ops_def)
  from mem_secure.new_session_has [OF laws sample_encrypts_all sample_codec_ok this(2,3,4,1) sample_world_holds, of "[5]" "[9]"]
  obtain w where w: "new_session sample_client_env sample_codec sample_pk_ops [5] [[2], [1]] [1] [1] [9] sample_world = Done (Ok ?i, w)"
    "holds sample_client_env mem_view mem_inv w [9] SESSION_KEYSPACE ?i
      (Some (enc_of sample_codec (initial_session ?i [5] [[2], [1]] [1] [1] [1, 2] [])))" by (elim exE conjE)
  from session_signs_once [OF sample_client(1,2) sample_encrypts_all sample_codec_ok w(2), of sample_musig sample_requests]
  obtain rs w' where rs: "run_session_ops sample_client_env sample_codec sample_musig ?i [9] sample_requests w = Done (rs, w')"
    "\<forall>x x'. Ok (Partial x) \<in> set rs \<and> Ok (Partial x') \<in> set rs \<longrightarrow> x = x'" by (elim exE conjE) (rule that)
  have "rs = fst (session_outs sample_musig sample_requests (initial_session ?i [5] [[2], [1]] [1] [1] [1, 2] []))"
    using mem_secure.run_session_ops_has [OF laws sample_encrypts_all sample_codec_ok w(2), of sample_musig sample_requests]
    by (elim exE conjE) (simp add: rs(1))
  then have "Ok (Partial [1, 1, 6, 7, 8]) \<in> set rs" by (simp add: sample_answers)
  then show ?thesis using w(1) rs by (intro exI [of _ ?i] exI [of _ w] exI [of _ rs] exI [of _ w']) blast
qed

end
