(* ===== verification/Tx_Signers.thy ===== *)
theory Tx_Signers
  imports Multi_Sig_Address
begin

text \<open>
  The signers of the clients (client-core/src/signer.rs and the files of signer/): the
  signer of a wallet, which looks up the address, its 1-of-n tree and the private key in
  the encrypted storage, the signer of a single key pair and the signer without any
  permission.  The main result is that what the signer of a wallet returns for an
  address of the wallet is accepted by the validation of the chain.
\<close>

section \<open>The interface\<close>

datatype sign_condition = SingleSignUnlock | Impossible

record 'st tx_signer =
  schnorr_sign_condition :: "extended_addr \<Rightarrow> ('st, sign_condition) action"
  schnorr_sign :: "bytes \<Rightarrow> extended_addr \<Rightarrow> ('st, tx_in_witness) action"

text \<open>Both signers sign the inputs of a transaction one after the other.\<close>

fun schnorr_sign_transaction ::
    "'st tx_signer \<Rightarrow> bytes \<Rightarrow> (txo_pointer \<times> tx_out) list \<Rightarrow> ('st, tx_witness) action" where
  "schnorr_sign_transaction S message [] = act_return []"
| "schnorr_sign_transaction S message ((_, out) # rest) =
     act_bind (schnorr_sign S message (out_address out)) (\<lambda>w.
     act_map ((#) w) (schnorr_sign_transaction S message rest))"

section \<open>The signer of a wallet\<close>

text \<open>
  The services the signer works on, with their parameters; \<open>sv_sign m sk\<close> is the
  Schnorr signature of a message.
\<close>

record 'st signer_env =
  sv_client :: "'st client_env"
  sv_wallets :: "wallet codec"
  sv_addresses :: "multi_sig_address codec"
  sv_ext :: ext
  sv_hd :: hd_ext
  sv_pk :: pk_ops
  sv_sign :: "bytes \<Rightarrow> bytes \<Rightarrow> schnorr_signature"

definition key_schnorr_sign :: "'st signer_env \<Rightarrow> bytes \<Rightarrow> bytes \<Rightarrow> error_kind + schnorr_signature" where
  "key_schnorr_sign V sk message =
     and_then (opt_kind DeserializationError (msg_from_slice (sv_ext V) message)) (\<lambda>m. Ok (sv_sign V m sk))"

definition schnorr_sign_with_root_hash ::
    "'st signer_env \<Rightarrow> bytes \<Rightarrow> bytes \<Rightarrow> h256 \<Rightarrow> ('st world, tx_in_witness) action" where
  "schnorr_sign_with_root_hash V passphrase message root =
     act_bind (rhs_required_signers (sv_client V) (sv_addresses V) root passphrase) (\<lambda>required.
     if required \<noteq> 1 then act_result (Err IllegalInput)
     else
       act_bind (rhs_public_key (sv_client V) (sv_addresses V) root passphrase) (\<lambda>pk.
       act_bind (private_key_of (sv_client V) (sv_ext V) (sv_hd V) pk passphrase) (\<lambda>v.
       act_bind (act_result (opt_kind InvalidInput v)) (\<lambda>sk.
       act_bind (rhs_generate_proof (sv_client V) (sv_addresses V) (sv_ext V) (sv_pk V) root [pk] passphrase) (\<lambda>pf.
       act_bind (act_result (key_schnorr_sign V sk message)) (\<lambda>sig.
       act_return (TreeSig sig pf)))))))"

definition wallet_sign_condition ::
    "'st signer_env \<Rightarrow> bytes \<Rightarrow> bytes \<Rightarrow> extended_addr \<Rightarrow> ('st world, sign_condition) action" where
  "wallet_sign_condition V name passphrase address =
     act_map (\<lambda>root. if root = None then Impossible else SingleSignUnlock)
       (ws_find_root_hash (sv_client V) (sv_wallets V) name passphrase address)"

definition wallet_schnorr_sign ::
    "'st signer_env \<Rightarrow> bytes \<Rightarrow> bytes \<Rightarrow> bytes \<Rightarrow> extended_addr \<Rightarrow> ('st world, tx_in_witness) action" where
  "wallet_schnorr_sign V name passphrase message address =
     act_bind (ws_find_root_hash (sv_client V) (sv_wallets V) name passphrase address) (\<lambda>v.
     act_bind (act_result (opt_kind InvalidInput v)) (\<lambda>root.
     schnorr_sign_with_root_hash V passphrase message root))"

definition create_signer :: "'st signer_env \<Rightarrow> bytes \<Rightarrow> bytes \<Rightarrow> 'st world tx_signer" where
  "create_signer V name passphrase = \<lparr>schnorr_sign_condition = wallet_sign_condition V name passphrase,
     schnorr_sign = wallet_schnorr_sign V name passphrase\<rparr>"

section \<open>Key pairs and no permission\<close>

record key_pair_signer =
  kp_extended_addr :: extended_addr
  kp_proof :: "raw_pubkey proof_of"
  kp_private_key :: bytes

definition generate_extended_addr_and_proof ::
    "ext \<Rightarrow> pk_ops \<Rightarrow> public_key \<Rightarrow> (error_kind + extended_addr \<times> raw_pubkey proof_of) run" where
  "generate_extended_addr_and_proof E P pk =
     try_run (Done (msa_new E P [pk] pk 1)) (\<lambda>a.
     try_run (msa_generate_proof E P a [pk]) (\<lambda>v.
     try_run (Done (opt_kind InvalidInput v)) (\<lambda>pf.
     Done (Ok (to_extended_addr a, pf)))))"

definition key_pair_signer_new :: "ext \<Rightarrow> pk_ops \<Rightarrow> bytes \<Rightarrow> public_key \<Rightarrow> (error_kind + key_pair_signer) run" where
  "key_pair_signer_new E P sk pk =
     try_run (generate_extended_addr_and_proof E P pk) (\<lambda>(a, pf).
     Done (Ok \<lparr>kp_extended_addr = a, kp_proof = pf, kp_private_key = sk\<rparr>))"

definition key_pair_tx_signer :: "'st signer_env \<Rightarrow> key_pair_signer \<Rightarrow> 's tx_signer" where
  "key_pair_tx_signer V k = \<lparr>
     schnorr_sign_condition = (\<lambda>a. act_return (if a = kp_extended_addr k then SingleSignUnlock else Impossible)),
     schnorr_sign = (\<lambda>message a.
       if a \<noteq> kp_extended_addr k then act_result (Err MultiSigError)
       else act_result (and_then (key_schnorr_sign V (kp_private_key k) message) (\<lambda>sig. Ok (TreeSig sig (kp_proof k)))))\<rparr>"

definition unauthorized_signer :: "'s tx_signer" where
  "unauthorized_signer = \<lparr>schnorr_sign_condition = (\<lambda>_. act_result (Err PermissionDenied)),
     schnorr_sign = (\<lambda>_ _. act_result (Err PermissionDenied))\<rparr>"

section \<open>What the signature library promises\<close>

definition signing_ok :: "'st signer_env \<Rightarrow> bool" where
  "signing_ok V \<longleftrightarrow>
     (\<forall>m sk. schnorr_verify (sv_ext V) m (sv_sign V m sk) (po_of_private (sv_pk V) sk)) \<and>
     (\<forall>pk. pk_from_slice (sv_ext V) (po_raw (sv_pk V) pk) = Some pk)"

lemma signed_accepted:
  assumes "signing_ok V" "key_schnorr_sign V sk i = Ok sig" "proof_verify (blake2s (sv_ext V)) pf root"
    and "proof_value pf = po_raw (sv_pk V) (po_of_private (sv_pk V) sk)"
  shows "verify_tx_address (sv_ext V) (TreeSig sig pf) i (OrTree root) = Ok ()"
  using assms by (auto simp: verify_tx_address_def signing_ok_def key_schnorr_sign_def run_elims opt_kind_eq_Ok)

lemma single_proof:
  assumes "msa_new E P keys self 1 = Ok a"
  shows "\<exists>pf. msa_generate_proof E P a [self] = Done (Ok (Some pf)) \<and>
    proof_verify (blake2s E) pf (msa_root_hash a) \<and> proof_value pf = po_raw P self"
proof -
  have "self \<in> set keys" by (rule msa_new_Ok [OF assms])
  then have "mset [self] \<subseteq># mset keys" by simp
  from msa_generate_proof_complete [OF assms this] show ?thesis by (auto simp: combine_to_raw_pubkey_def)
qed

context secure_storage
begin

lemma find_root_hash_has:
  assumes "lawful" "codec_ok D" "has w p WALLET_KEYSPACE name (Some (enc_of D wal))"
  shows "ws_find_root_hash C D name p a w = Done (Ok (wallet_find_root_hash wal a), w)"
  using get_wallet_has [OF assms(1,2,3), of "Some wal"] by (simp add: ws_find_root_hash_def)

lemma sign_root_has:
  assumes "lawful" "sv_client V = C" "codec_ok (sv_addresses V)" "signing_ok V"
    and address: "msa_new (sv_ext V) (sv_pk V) keys (po_of_private (sv_pk V) sk) 1 = Ok a"
    and root: "has w p ROOT_KEYSPACE (msa_root_hash a) (Some (enc_of (sv_addresses V) a))"
    and key: "has w p KEY_KEYSPACE (pk_uncompressed (sv_ext V) (po_of_private (sv_pk V) sk)) (Some b)"
      "sk_from_slice (sv_hd V) b = Some sk"
    and message: "msg_from_slice (sv_ext V) i = Some m"
  shows "\<exists>wit. schnorr_sign_with_root_hash V p i (msa_root_hash a) w = Done (Ok wit, w) \<and>
    verify_tx_address (sv_ext V) wit i (to_extended_addr a) = Ok ()"
proof -
  note get = get_address_has [OF assms(1,3) root]
  have a: "msa_m a = 1" "msa_self a = po_of_private (sv_pk V) sk" by (rule msa_new_Ok [OF address], assumption)+
  from single_proof [OF address] obtain pf where pf:
    "msa_generate_proof (sv_ext V) (sv_pk V) a [po_of_private (sv_pk V) sk] = Done (Ok (Some pf))"
    "proof_verify (blake2s (sv_ext V)) pf (msa_root_hash a)"
    "proof_value pf = po_raw (sv_pk V) (po_of_private (sv_pk V) sk)" by (elim exE conjE)
  have sig: "key_schnorr_sign V sk i = Ok (sv_sign V m sk)" by (simp add: key_schnorr_sign_def message)
  have "schnorr_sign_with_root_hash V p i (msa_root_hash a) w = Done (Ok (TreeSig (sv_sign V m sk) pf), w)"
    using get_secure_holds [OF assms(1) key(1)] key(2)
    by (simp add: schnorr_sign_with_root_hash_def assms(2) rhs_required_signers_def rhs_public_key_def
        rhs_generate_proof_def get msa_required_signers_def a pf(1) private_key_of_def sig)
  then show ?thesis using signed_accepted [OF assms(4) sig pf(2,3)] by (simp add: to_extended_addr_def)
qed

lemma sign_root_refused:
  assumes "lawful" "sv_client V = C" "codec_ok (sv_addresses V)"
    and "has w p ROOT_KEYSPACE root (Some (enc_of (sv_addresses V) a))" "unat (msa_m a) \<noteq> 1"
  shows "schnorr_sign_with_root_hash V p i root w = Done (Err IllegalInput, w)"
  using get_address_has [OF assms(1,3,4)] assms(2,5)
  by (simp add: schnorr_sign_with_root_hash_def rhs_required_signers_def msa_required_signers_def)

end

lemma find_root: "wallet_find_root_hash wal (OrTree root) = (if root \<in> bs_elems (root_hashes wal) then Some root else None)"
proof -
  have "find (\<lambda>h. h = root) xs = (if root \<in> set xs then Some root else None)" for xs by (induction xs) auto
  then show ?thesis by (simp add: wallet_find_root_hash_def bs_elems_def)
qed

text \<open>
  C28: the signer of a wallet.  For an address of the wallet with one required signer
  whose private key is stored, the witness it returns for a message is accepted by the
  check of the chain for this address.  For an address of the wallet with more required
  signers it announces that it can sign, but refuses to; for any other address it
  announces that it cannot sign, and refuses to.  No request changes the storage.
\<close>

theorem wallet_signature_accepted:
  assumes "cl_storage (sv_client V) = memory_storage" "cipher_ok (sv_client V)"
    and "codec_ok (sv_wallets V)" "codec_ok (sv_addresses V)" "signing_ok V"
    and "msa_new (sv_ext V) (sv_pk V) keys (po_of_private (sv_pk V) sk) required = Ok a"
    and "holds (sv_client V) mem_view mem_inv w p WALLET_KEYSPACE name (Some (enc_of (sv_wallets V) wal))"
    and "holds (sv_client V) mem_view mem_inv w p ROOT_KEYSPACE (msa_root_hash a) (Some (enc_of (sv_addresses V) a))"
    and "holds (sv_client V) mem_view mem_inv w p KEY_KEYSPACE
      (pk_uncompressed (sv_ext V) (po_of_private (sv_pk V) sk)) (Some b)"
    and "sk_from_slice (sv_hd V) b = Some sk" "msg_from_slice (sv_ext V) i = Some m"
    and "msa_root_hash a \<in> bs_elems (root_hashes wal)"
  shows "wallet_sign_condition V name p (to_extended_addr a) w = Done (Ok SingleSignUnlock, w) \<and>
    (required = 1 \<longrightarrow> (\<exists>wit. wallet_schnorr_sign V name p i (to_extended_addr a) w = Done (Ok wit, w) \<and>
      verify_tx_address (sv_ext V) wit i (to_extended_addr a) = Ok ())) \<and>
    (required \<noteq> 1 \<longrightarrow> wallet_schnorr_sign V name p i (to_extended_addr a) w = Done (Err IllegalInput, w)) \<and>
    (\<forall>root. root \<notin> bs_elems (root_hashes wal) \<longrightarrow>
      wallet_sign_condition V name p (OrTree root) w = Done (Ok Impossible, w) \<and>
      wallet_schnorr_sign V name p i (OrTree root) w = Done (Err InvalidInput, w))"
proof -
  have laws: "cl_storage (sv_client V) = memory_storage \<and> cipher_ok (sv_client V)" using assms(1,2) by blast
  note find = mem_secure.find_root_hash_has [OF laws assms(3,7)]
  have cond: "wallet_sign_condition V name p (to_extended_addr a) w = Done (Ok SingleSignUnlock, w)"
    using assms(12) by (simp add: wallet_sign_condition_def find to_extended_addr_def find_root)
  have sign: "wallet_schnorr_sign V name p i (to_extended_addr a) w =
      schnorr_sign_with_root_hash V p i (msa_root_hash a) w"
    using assms(12) by (simp add: wallet_schnorr_sign_def find to_extended_addr_def find_root)
  have one: "\<exists>wit. wallet_schnorr_sign V name p i (to_extended_addr a) w = Done (Ok wit, w) \<and>
      verify_tx_address (sv_ext V) wit i (to_extended_addr a) = Ok ()" if "required = 1"
    unfolding sign
    by (rule mem_secure.sign_root_has [OF laws refl assms(4,5) assms(6) [unfolded that] assms(8,9,10,11)])
  have "msa_m a = required" by (rule msa_new_Ok [OF assms(6)])
  then have many: "wallet_schnorr_sign V name p i (to_extended_addr a) w = Done (Err IllegalInput, w)" if "required \<noteq> 1"
    unfolding sign using that
    by (intro mem_secure.sign_root_refused [OF laws refl assms(4,8)]) (simp add: word_unat_eq_iff)
  have other: "wallet_sign_condition V name p (OrTree root) w = Done (Ok Impossible, w) \<and>
      wallet_schnorr_sign V name p i (OrTree root) w = Done (Err InvalidInput, w)"
    if "root \<notin> bs_elems (root_hashes wal)" for root
    using that by (simp add: wallet_sign_condition_def wallet_schnorr_sign_def find find_root)
  show ?thesis using cond one many other by blast
qed

section \<open>A wallet that signs\<close>

definition sample_signer_env :: "memory signer_env" where
  "sample_signer_env = \<lparr>sv_client = sample_client_env, sv_wallets = sample_codec, sv_addresses = sample_codec,
     sv_ext = sample_ext, sv_hd = sample_hd, sv_pk = sample_pk_ops, sv_sign = (\<lambda>m sk. sk)\<rparr>"

lemma sample_signing_ok: "signing_ok sample_signer_env"
  by (simp add: signing_ok_def sample_signer_env_def sample_ext_def sample_pk_ops_def)

text \<open>Values stored one after the other under different keys.\<close>

lemma stored_together:
  "\<exists>w. \<forall>(k, v) \<in> set kvs. holds sample_client_env mem_view mem_inv w p (fst k) (snd k) (Some v)"
  if "distinct (map fst kvs)" for kvs
proof -
  have laws: "cl_storage sample_client_env = memory_storage \<and> cipher_ok sample_client_env" using sample_client(1,2) by blast
  have "\<exists>w. (\<forall>(k, v) \<in> set kvs. holds sample_client_env mem_view mem_inv w p (fst k) (snd k) (Some v)) \<and>
      (\<forall>k. k \<notin> fst ` set kvs \<longrightarrow> holds sample_client_env mem_view mem_inv w p (fst k) (snd k) None)"
    using that
  proof (induction kvs)
    case Nil
    then show ?case using sample_world_holds by auto
  next
    case (Cons x kvs)
    obtain k v where x: "x = (k, v)" by (cases x)
    from Cons obtain w where w: "\<forall>(k, v) \<in> set kvs. holds sample_client_env mem_view mem_inv w p (fst k) (snd k) (Some v)"
      "\<forall>k. k \<notin> fst ` set kvs \<longrightarrow> holds sample_client_env mem_view mem_inv w p (fst k) (snd k) None" by auto
    have new: "k \<notin> fst ` set kvs" using Cons.prems x by auto
    from mem_secure.set_secure_value [OF laws sample_encrypts_all w(2) [rule_format, OF new], of v] obtain w' where
      w': "holds sample_client_env mem_view mem_inv w' p (fst k) (snd k) (Some v)"
        "\<forall>q. q \<noteq> (fst k, snd k) \<longrightarrow> mem_view (w_store w') q = mem_view (w_store w) q" by (elim exE conjE)
    have keep: "holds sample_client_env mem_view mem_inv w' p (fst q) (snd q) u"
      if "holds sample_client_env mem_view mem_inv w p (fst q) (snd q) u" "q \<noteq> k" for q u
    proof -
      have "mem_view (w_store w') q = mem_view (w_store w) q" using w'(2) that(2) by (cases q) simp
      then show ?thesis using that(1) w'(1) by (cases u) (auto simp: holds_def)
    qed
    have "holds sample_client_env mem_view mem_inv w' p (fst q) (snd q) (Some u)" if "(q, u) \<in> set (x # kvs)" for q u
    proof (cases "(q, u) = x")
      case True
      then show ?thesis using w'(1) by (simp add: x)
    next
      case False
      then have "(q, u) \<in> set kvs" using that by simp
      moreover from this have "q \<noteq> k" using new by (auto simp: rev_image_eqI)
      ultimately show ?thesis using w(1) by (intro keep) blast+
    qed
    moreover have "holds sample_client_env mem_view mem_inv w' p (fst q) (snd q) None" if "q \<notin> fst ` set (x # kvs)" for q
      using that w(2) by (intro keep) (simp_all add: x)
    ultimately show ?case by (intro exI [of _ w']) blast
  qed
  then show ?thesis by blast
qed

lemma keyspace_lengths: "length WALLET_KEYSPACE = 11" "length ROOT_KEYSPACE = 14" "length KEY_KEYSPACE = 8"
  by (simp_all add: WALLET_KEYSPACE_def ROOT_KEYSPACE_def KEY_KEYSPACE_def str_bytes_def)

lemma sample_signer_projections [simp]:
  "sv_client sample_signer_env = sample_client_env" "sv_ext sample_signer_env = sample_ext"
  "sv_wallets sample_signer_env = sample_codec" "sv_addresses sample_signer_env = sample_codec"
  "sv_hd sample_signer_env = sample_hd" "sv_pk sample_signer_env = sample_pk_ops"
  by (simp_all add: sample_signer_env_def)

lemma sample_keys: "sk_from_slice sample_hd b = Some b" "msg_from_slice sample_ext b = Some b"
  "po_of_private sample_pk_ops b = b" "pk_uncompressed sample_ext b = 4 # b"
  by (simp_all add: sample_hd_def sample_ext_def sample_pk_ops_def)

text \<open>A wallet with a 1-of-2 address and its key.\<close>

lemma sample_wallet_world:
  obtains a w and wal :: wallet where "msa_new sample_ext sample_pk_ops [[3], [1]] [1] 1 = Ok a"
    "msa_root_hash a \<in> bs_elems (root_hashes wal)"
    "holds sample_client_env mem_view mem_inv w [9] WALLET_KEYSPACE [7] (Some (enc_of sample_codec wal))"
    "holds sample_client_env mem_view mem_inv w [9] ROOT_KEYSPACE (msa_root_hash a) (Some (enc_of sample_codec a))"
    "holds sample_client_env mem_view mem_inv w [9] KEY_KEYSPACE [4, 1] (Some [1])"
proof -
  have "combinations 1 xs = combinations (Suc 0) xs" for xs :: "public_key list" by simp
  then obtain a where a: "msa_new sample_ext sample_pk_ops [[3], [1]] [1] 1 = Ok a"
    by (simp add: msa_new_def public_key_combinations_def combine_to_raw_pubkey_def sample_pk_ops_def)
  define wal where "wal = \<lparr>wl_view_key = [2], public_keys = bm_new, staking_keys = bm_new,
    root_hashes = [(msa_root_hash a, ())]\<rparr>"
  have mem: "msa_root_hash a \<in> bs_elems (root_hashes wal)" by (simp add: wal_def bs_elems_def)
  have "distinct (map fst [((WALLET_KEYSPACE, [7]), enc_of sample_codec wal),
      ((ROOT_KEYSPACE, msa_root_hash a), enc_of sample_codec a), ((KEY_KEYSPACE, [4, 1]), [1])])"
    using keyspace_lengths by auto
  from stored_together [OF this, of "[9]"] obtain w where
    "holds sample_client_env mem_view mem_inv w [9] WALLET_KEYSPACE [7] (Some (enc_of sample_codec wal))"
    "holds sample_client_env mem_view mem_inv w [9] ROOT_KEYSPACE (msa_root_hash a) (Some (enc_of sample_codec a))"
    "holds sample_client_env mem_view mem_inv w [9] KEY_KEYSPACE [4, 1] (Some [1])" by auto
  with a mem show thesis by (rule that)
qed

lemma sample_wallet_signs:
  obtains a w where "\<And>i. \<exists>wit. wallet_schnorr_sign sample_signer_env [7] [9] i a w = Done (Ok wit, w) \<and>
      verify_tx_address sample_ext wit i a = Ok ()"
    "wallet_sign_condition sample_signer_env [7] [9] a w = Done (Ok SingleSignUnlock, w)"
proof -
  have laws: "cl_storage sample_client_env = memory_storage \<and> cipher_ok sample_client_env" using sample_client(1,2) by blast
  obtain a w and wal :: wallet where *: "msa_new sample_ext sample_pk_ops [[3], [1]] [1] 1 = Ok a"
    "msa_root_hash a \<in> bs_elems (root_hashes wal)"
    "holds sample_client_env mem_view mem_inv w [9] WALLET_KEYSPACE [7] (Some (enc_of sample_codec wal))"
    "holds sample_client_env mem_view mem_inv w [9] ROOT_KEYSPACE (msa_root_hash a) (Some (enc_of sample_codec a))"
    "holds sample_client_env mem_view mem_inv w [9] KEY_KEYSPACE [4, 1] (Some [1])" by (rule sample_wallet_world)
  note find = mem_secure.find_root_hash_has [OF laws sample_codec_ok *(3)]
  show thesis
  proof (rule that)
    fix i
    have "\<exists>wit. schnorr_sign_with_root_hash sample_signer_env [9] i (msa_root_hash a) w = Done (Ok wit, w) \<and>
        verify_tx_address (sv_ext sample_signer_env) wit i (to_extended_addr a) = Ok ()"
      by (rule mem_secure.sign_root_has [OF laws, where sk = "[1]" and b = "[1]"])
        (use * sample_signing_ok in \<open>simp_all add: sample_codec_ok sample_keys\<close>)
    then show "\<exists>wit. wallet_schnorr_sign sample_signer_env [7] [9] i (to_extended_addr a) w = Done (Ok wit, w) \<and>
        verify_tx_address sample_ext wit i (to_extended_addr a) = Ok ()"
      using *(2) by (simp add: wallet_schnorr_sign_def find to_extended_addr_def find_root)
    show "wallet_sign_condition sample_signer_env [7] [9] (to_extended_addr a) w = Done (Ok SingleSignUnlock, w)"
      using *(2) by (simp add: wallet_sign_condition_def find to_extended_addr_def find_root)
  qed
qed

theorem wallet_signature_accepted_witness:
  "\<exists>a w wit. msa_new sample_ext sample_pk_ops [[3], [1]] [1] 1 = Ok a \<and>
    wallet_schnorr_sign sample_signer_env [7] [9] [5] (to_extended_addr a) w = Done (Ok wit, w) \<and>
    verify_tx_address sample_ext wit [5] (to_extended_addr a) = Ok ()"
proof -
  obtain a w and wal :: wallet where *: "msa_new sample_ext sample_pk_ops [[3], [1]] [1] 1 = Ok a"
    "msa_root_hash a \<in> bs_elems (root_hashes wal)"
    "holds sample_client_env mem_view mem_inv w [9] WALLET_KEYSPACE [7] (Some (enc_of sample_codec wal))"
    "holds sample_client_env mem_view mem_inv w [9] ROOT_KEYSPACE (msa_root_hash a) (Some (enc_of sample_codec a))"
    "holds sample_client_env mem_view mem_inv w [9] KEY_KEYSPACE [4, 1] (Some [1])" by (rule sample_wallet_world)
  have "\<exists>wit. wallet_schnorr_sign sample_signer_env [7] [9] [5] (to_extended_addr a) w = Done (Ok wit, w) \<and>
      verify_tx_address sample_ext wit [5] (to_extended_addr a) = Ok ()"
    using wallet_signature_accepted [of sample_signer_env "[[3], [1]]" "[1]" 1 a w "[9]" "[7]" wal "[1]" "[5]" "[5]"]
      sample_client(1,2) sample_signing_ok * by (simp add: sample_keys sample_codec_ok)
  then show ?thesis using *(1) by blast
qed

end
