(* ===== verification/Transaction_Builder.thy ===== *)
theory Transaction_Builder
  imports Tx_Signers Wallet_State
begin

text \<open>
  Building transfers (client-core/src/input_selection.rs, unspent_transactions.rs,
  signer/dummy_signer.rs and the files of transaction_builder/): the order and the
  selection of unspent outputs, the raw transaction with its witnesses, the estimate of
  the fee with mock witnesses and the loop that raises the fee until the transaction
  pays for itself.  The main results are that the loop ends, that a selection is the
  shortest one that covers the amount, and that a transfer handed out by the builder is
  accepted by the validation of the chain.
\<close>

section \<open>Unspent outputs\<close>

type_synonym utxo = "txo_pointer \<times> tx_out"

datatype sorter = SortHighestValueFirst | SortLowestValueFirst
datatype operation = Sort sorter
datatype input_selection_strategy = HighestValueFirst | LowestValueFirst | Random

fun strategy_operations :: "input_selection_strategy \<Rightarrow> operation list" where
  "strategy_operations HighestValueFirst = [Sort SortHighestValueFirst]"
| "strategy_operations LowestValueFirst = [Sort SortLowestValueFirst]"
| "strategy_operations Random = []"

definition utxo_value :: "utxo \<Rightarrow> coin" where
  "utxo_value u = out_value (snd u)"

text \<open>\<open>slice::sort_by\<close> is stable, in the descending case as well.\<close>

fun sorter_sort :: "sorter \<Rightarrow> utxo list \<Rightarrow> utxo list" where
  "sorter_sort SortHighestValueFirst us = rev (sort_key utxo_value (rev us))"
| "sorter_sort SortLowestValueFirst us = sort_key utxo_value us"

fun apply_operation :: "operation \<Rightarrow> utxo list \<Rightarrow> utxo list" where
  "apply_operation (Sort s) us = sorter_sort s us"

definition apply_all :: "operation list \<Rightarrow> utxo list \<Rightarrow> utxo list" where
  "apply_all ops us = fold apply_operation ops us"

fun select_loop :: "coin \<Rightarrow> coin \<Rightarrow> utxo list \<Rightarrow> utxo list \<Rightarrow> error_kind + utxo list \<times> coin" where
  "select_loop amount selected taken [] = Err InvalidInput"
| "select_loop amount selected taken (u # us) =
     and_then (err_kind IllegalInput (coin_add selected (utxo_value u))) (\<lambda>selected.
     if selected \<ge> amount
     then and_then (err_kind IllegalInput (coin_sub selected amount)) (\<lambda>change. Ok (taken @ [u], change))
     else select_loop amount selected (taken @ [u]) us)"

definition select :: "utxo list \<Rightarrow> coin \<Rightarrow> error_kind + utxo list \<times> coin" where
  "select us amount = select_loop amount coin_zero [] us"

definition select_all :: "utxo list \<Rightarrow> utxo list" where
  "select_all us = us"

section \<open>Mock transactions\<close>

text \<open>
  The parameters: the length of encoded transactions decides the fee, and the library
  turns bytes into signatures.
\<close>

record fee_env =
  fe_enc_plain :: "plain_tx_aux \<Rightarrow> bytes"
  fe_sig_from_default :: "bytes \<Rightarrow> schnorr_signature option"
  fe_sig_from_compact :: "bytes \<Rightarrow> ecdsa_signature option"
  fe_calculate_for_txaux :: "tx_aux \<Rightarrow> coin_error + fee"

definition linear_calculate_for_txaux :: "(tx_aux \<Rightarrow> bytes) \<Rightarrow> linear_fee \<Rightarrow> tx_aux \<Rightarrow> coin_error + fee" where
  "linear_calculate_for_txaux enc lf t = estimate lf (of_nat (length (enc t)))"

definition pad_payload :: "fee_env \<Rightarrow> plain_tx_aux \<Rightarrow> bytes" where
  "pad_payload F p = (let n = length (fe_enc_plain F p) in replicate (n + 16 - n mod 16) 0)"

definition mock_merkletree :: "ext \<Rightarrow> raw_pubkey \<Rightarrow> nat \<Rightarrow> raw_pubkey merkle_tree" where
  "mock_merkletree E pk n = merkle_new (blake2s E) (\<lambda>b. b) (replicate n pk)"

definition sign_tx :: "ext \<Rightarrow> fee_env \<Rightarrow> nat \<Rightarrow> tx_in_witness run" where
  "sign_tx E F total_pubkeys_len = (let raw_pk = replicate 33 0 in
     run_bind (generate_proof (blake2s E) (\<lambda>b. b) (mock_merkletree E raw_pk total_pubkeys_len) raw_pk) (\<lambda>v.
     run_bind (expect_opt v ''generate proof error in mocked merkle tree'') (\<lambda>pf.
     run_bind (expect_opt (fe_sig_from_default F (replicate 64 0)) ''set mock signature failed'') (\<lambda>sig.
     Done (TreeSig sig pf)))))"

definition schnorr_sign_inputs_len :: "ext \<Rightarrow> fee_env \<Rightarrow> nat \<Rightarrow> nat \<Rightarrow> tx_witness run" where
  "schnorr_sign_inputs_len E F total_pubkeys_len inputs_len =
     run_bind (sign_tx E F total_pubkeys_len) (\<lambda>w. Done (replicate inputs_len w))"

definition mock_txaux_for_tx :: "fee_env \<Rightarrow> tx \<Rightarrow> tx_witness \<Rightarrow> tx_aux" where
  "mock_txaux_for_tx F t w = EnclaveTx (EncTransferTx (tx_inputs t) (of_nat (length (tx_outputs t)))
     \<lparr>key_from = 0, init_vector = replicate 12 0, obf_payload = pad_payload F (PlainTransferTx t w),
      obf_txid = replicate 32 0\<rparr>)"

definition mock_txaux_for_withdraw :: "ext \<Rightarrow> fee_env \<Rightarrow> withdraw_unbonded_tx \<Rightarrow> tx_aux run" where
  "mock_txaux_for_withdraw E F t =
     run_bind (expect_opt (fe_sig_from_compact F (replicate 64 0)) ''unwrap'') (\<lambda>sig.
     Done (EnclaveTx (EncWithdrawUnbondedStakeTx (of_nat (length (wd_outputs t))) (OpBasicRedeem sig)
       \<lparr>key_from = 0, init_vector = replicate 12 0, obf_payload = pad_payload F (PlainWithdrawUnbondedStakeTx t),
        obf_txid = withdraw_id E t\<rparr>)))"

section \<open>Raw transactions\<close>

record witnessed_utxo =
  prev_txo_pointer :: txo_pointer
  prev_tx_out :: tx_out
  utxo_witness :: "tx_in_witness option"

record raw_transfer =
  raw_inputs :: "witnessed_utxo list"
  raw_outputs :: "tx_out list"
  raw_attributes :: tx_attributes

definition raw_new :: "tx_attributes \<Rightarrow> raw_transfer" where
  "raw_new attributes = \<lparr>raw_inputs = [], raw_outputs = [], raw_attributes = attributes\<rparr>"

definition clear_witness :: "raw_transfer \<Rightarrow> raw_transfer" where
  "clear_witness r = r\<lparr>raw_inputs := map (\<lambda>i. i\<lparr>utxo_witness := None\<rparr>) (raw_inputs r)\<rparr>"

definition add_input :: "utxo \<Rightarrow> raw_transfer \<Rightarrow> raw_transfer" where
  "add_input u r = clear_witness (r\<lparr>raw_inputs := raw_inputs r @
     [\<lparr>prev_txo_pointer = fst u, prev_tx_out = snd u, utxo_witness = None\<rparr>]\<rparr>)"

definition add_output :: "tx_out \<Rightarrow> raw_transfer \<Rightarrow> raw_transfer" where
  "add_output out r = clear_witness (r\<lparr>raw_outputs := raw_outputs r @ [out]\<rparr>)"

definition index_run :: "'a list \<Rightarrow> nat \<Rightarrow> 'a run" where
  "index_run xs i = (if i < length xs then Done (xs ! i) else Panic ''index out of bounds'')"

definition input_at_index :: "raw_transfer \<Rightarrow> nat \<Rightarrow> (error_kind + witnessed_utxo) run" where
  "input_at_index r i =
     (if length (raw_inputs r) < i then Done (Err InvalidInput)
      else run_bind (index_run (raw_inputs r) i) (\<lambda>x. Done (Ok x)))"

definition output_at_index :: "raw_transfer \<Rightarrow> nat \<Rightarrow> (error_kind + tx_out) run" where
  "output_at_index r i =
     (if length (raw_outputs r) < i then Done (Err InvalidInput)
      else run_bind (index_run (raw_outputs r) i) (\<lambda>x. Done (Ok x)))"

definition to_tx :: "raw_transfer \<Rightarrow> tx" where
  "to_tx r = \<lparr>tx_inputs = map prev_txo_pointer (raw_inputs r), tx_outputs = raw_outputs r, tx_attrs = raw_attributes r\<rparr>"

definition raw_tx_id :: "ext \<Rightarrow> raw_transfer \<Rightarrow> txid" where
  "raw_tx_id E r = tx_id E (to_tx r)"

definition add_witness :: "ext \<Rightarrow> nat \<Rightarrow> tx_in_witness \<Rightarrow> (raw_transfer, unit) action" where
  "add_witness E i w r =
     (if i > length (raw_inputs r) then Done (Err InvalidInput, r)
      else run_bind (input_at_index r i) (\<lambda>x. case x of Inl e \<Rightarrow> Done (Err e, r) | Inr u \<Rightarrow>
        (case verify_tx_address E w (raw_tx_id E r) (out_address (prev_tx_out u)) of
           Inl _ \<Rightarrow> Done (Err InvalidInput, r)
         | Inr _ \<Rightarrow> Done (Ok (), r\<lparr>raw_inputs := (raw_inputs r)[i := u\<lparr>utxo_witness := Some w\<rparr>]\<rparr>))))"

text \<open>
  Signing: first all witnesses are requested from the signer, then they are added; the
  state is the raw transaction and the state of the signer.
\<close>

fun request_witnesses ::
    "'st tx_signer \<Rightarrow> txid \<Rightarrow> nat \<Rightarrow> witnessed_utxo list \<Rightarrow> ('st, (nat \<times> tx_in_witness) list) action" where
  "request_witnesses S i n [] = act_return []"
| "request_witnesses S i n (u # us) =
     act_bind (schnorr_sign_condition S (out_address (prev_tx_out u))) (\<lambda>c.
     if c \<noteq> SingleSignUnlock then request_witnesses S i (n + 1) us
     else act_bind (schnorr_sign S i (out_address (prev_tx_out u))) (\<lambda>w.
       act_map ((#) (n, w)) (request_witnesses S i (n + 1) us)))"

fun add_witnesses :: "ext \<Rightarrow> (nat \<times> tx_in_witness) list \<Rightarrow> (raw_transfer, unit) action" where
  "add_witnesses E [] = act_return ()"
| "add_witnesses E ((i, w) # ws) = act_bind (add_witness E i w) (\<lambda>_. add_witnesses E ws)"

definition sign_all :: "ext \<Rightarrow> 'st tx_signer \<Rightarrow> (raw_transfer \<times> 'st, unit) action" where
  "sign_all E S = (\<lambda>(r, s). run_bind (request_witnesses S (raw_tx_id E r) 0 (raw_inputs r) s) (\<lambda>(x, s').
     case x of Inl e \<Rightarrow> Done (Err e, (r, s'))
     | Inr ws \<Rightarrow> run_bind (add_witnesses E ws r) (\<lambda>(y, r'). Done (y, (r', s')))))"

section \<open>Checks and fees\<close>

definition is_completed :: "raw_transfer \<Rightarrow> bool" where
  "is_completed r = list_all (\<lambda>i. utxo_witness i \<noteq> None) (raw_inputs r)"

fun unwrap_all :: "'a option list \<Rightarrow> 'a list run" where
  "unwrap_all [] = Done []"
| "unwrap_all (x # xs) = run_bind (expect_opt x ''unwrap'') (\<lambda>v. run_bind (unwrap_all xs) (\<lambda>vs. Done (v # vs)))"

definition raw_witnesses :: "raw_transfer \<Rightarrow> tx_witness run" where
  "raw_witnesses r = unwrap_all (map utxo_witness (raw_inputs r))"

definition total_input_amount :: "raw_transfer \<Rightarrow> error_kind + coin" where
  "total_input_amount r = err_kind VerifyError (sum_coins (map (out_value \<circ> prev_tx_out) (raw_inputs r)))"

definition total_output_amount :: "raw_transfer \<Rightarrow> error_kind + coin" where
  "total_output_amount r = err_kind VerifyError (sum_coins (map out_value (raw_outputs r)))"

definition verify_inputs :: "raw_transfer \<Rightarrow> (error_kind + unit) run" where
  "verify_inputs r = run_bind (raw_witnesses r) (\<lambda>ws.
     Done (err_kind VerifyError (check_inputs_basic (map prev_txo_pointer (raw_inputs r)) ws)))"

definition verify_outputs :: "raw_transfer \<Rightarrow> error_kind + unit" where
  "verify_outputs r = err_kind VerifyError (check_outputs_basic (raw_outputs r))"

definition verify_output_does_not_exceed_input_amount :: "raw_transfer \<Rightarrow> error_kind + unit" where
  "verify_output_does_not_exceed_input_amount r =
     and_then (total_input_amount r) (\<lambda>i. and_then (total_output_amount r) (\<lambda>out.
     if i < out then Err VerifyError else Ok ()))"

fun verify_each_witness :: "ext \<Rightarrow> txid \<Rightarrow> witnessed_utxo list \<Rightarrow> error_kind + unit" where
  "verify_each_witness E i [] = Ok ()"
| "verify_each_witness E i (u # us) = and_then (opt_kind VerifyError (utxo_witness u)) (\<lambda>w.
     and_then (err_kind VerifyError (verify_tx_address E w i (out_address (prev_tx_out u)))) (\<lambda>_.
     verify_each_witness E i us))"

definition verify_input_witnesses :: "ext \<Rightarrow> raw_transfer \<Rightarrow> error_kind + unit" where
  "verify_input_witnesses E r = verify_each_witness E (raw_tx_id E r) (raw_inputs r)"

definition raw_verify :: "ext \<Rightarrow> raw_transfer \<Rightarrow> (error_kind + unit) run" where
  "raw_verify E r =
     (if \<not> is_completed r then Done (Err VerifyError)
      else try_run (verify_inputs r) (\<lambda>_.
        Done (and_then (verify_outputs r) (\<lambda>_.
          and_then (verify_output_does_not_exceed_input_amount r) (\<lambda>_. verify_input_witnesses E r)))))"

definition raw_fee :: "raw_transfer \<Rightarrow> (error_kind + coin) run" where
  "raw_fee r =
     (if \<not> is_completed r then Done (Err InvalidInput)
      else try_run (Done (verify_output_does_not_exceed_input_amount r)) (\<lambda>_.
        try_run (Done (total_input_amount r)) (\<lambda>i.
        try_run (Done (total_output_amount r)) (\<lambda>out.
        run_bind (expect (coin_sub i out) ''unwrap'') (\<lambda>f. Done (Ok f))))))"

definition to_tx_aux :: "ext \<Rightarrow> (signed_transaction \<Rightarrow> error_kind + tx_aux) \<Rightarrow> raw_transfer \<Rightarrow> (error_kind + tx_aux) run" where
  "to_tx_aux E encrypt r = try_run (raw_verify E r) (\<lambda>_.
     run_bind (raw_witnesses r) (\<lambda>ws. Done (encrypt (SignedTransfer (to_tx r) ws))))"

definition required_fee ::
    "ext \<Rightarrow> fee_env \<Rightarrow> (signed_transaction \<Rightarrow> error_kind + tx_aux) \<Rightarrow> raw_transfer \<Rightarrow> (error_kind + coin) run" where
  "required_fee E F encrypt r =
     (if \<not> is_completed r then Done (Err InvalidInput)
      else try_run (to_tx_aux E encrypt r) (\<lambda>t.
        Done (and_then (err_kind IllegalInput (fe_calculate_for_txaux F t)) (\<lambda>f. Ok (to_coin f)))))"

definition estimate_fee :: "ext \<Rightarrow> fee_env \<Rightarrow> raw_transfer \<Rightarrow> (error_kind + coin) run" where
  "estimate_fee E F r = run_bind (schnorr_sign_inputs_len E F 2 (length (raw_inputs r))) (\<lambda>ws.
     Done (and_then (err_kind IllegalInput (fe_calculate_for_txaux F (mock_txaux_for_tx F (to_tx r) ws)))
       (\<lambda>f. Ok (to_coin f))))"

definition to_incomplete :: "raw_transfer codec \<Rightarrow> raw_transfer \<Rightarrow> bytes" where
  "to_incomplete D r = enc_of D r"

definition from_incomplete :: "raw_transfer codec \<Rightarrow> bytes \<Rightarrow> error_kind + raw_transfer" where
  "from_incomplete D b = opt_kind DeserializationError (dec_of D b)"

section \<open>The builders\<close>

definition build_raw_transaction ::
    "utxo list \<Rightarrow> tx_out list \<Rightarrow> extended_addr \<Rightarrow> coin \<Rightarrow> tx_attributes \<Rightarrow> raw_transfer" where
  "build_raw_transaction selected outputs return_address change attributes =
     (let r = fold add_output outputs (fold add_input selected (raw_new attributes)) in
      if change \<noteq> coin_zero
      then add_output \<lparr>out_address = return_address, out_value = change, valid_from = None\<rparr> r else r)"

function select_and_build_loop ::
    "ext \<Rightarrow> fee_env \<Rightarrow> utxo list \<Rightarrow> tx_out list \<Rightarrow> extended_addr \<Rightarrow> tx_attributes \<Rightarrow> coin \<Rightarrow> coin \<Rightarrow>
     (error_kind + raw_transfer) run" where
  "select_and_build_loop E F us outputs return_address attributes output_value fees =
     (case coin_add output_value fees of
        Inl _ \<Rightarrow> Done (Err IllegalInput)
      | Inr amount \<Rightarrow> (case select us amount of
          Inl e \<Rightarrow> Done (Err e)
        | Inr (selected, change) \<Rightarrow>
            (case estimate_fee E F (build_raw_transaction selected outputs return_address change attributes) of
              Panic m \<Rightarrow> Panic m
            | Done (Inl e) \<Rightarrow> Done (Err e)
            | Done (Inr new_fees) \<Rightarrow>
                if new_fees > fees
                then select_and_build_loop E F us outputs return_address attributes output_value new_fees
                else Done (Ok (build_raw_transaction selected outputs return_address change attributes)))))"
  by pat_completeness auto
termination
  by (relation "measure (\<lambda>(E, F, us, outputs, a, at, v, fees). 2 ^ 64 - coin_val fees)")
    (auto simp: coin_less_iff coin_val_def intro!: diff_less_mono2 order_less_le_trans [OF unat_bound])

declare select_and_build_loop.simps [simp del]

definition select_and_build ::
    "ext \<Rightarrow> fee_env \<Rightarrow> utxo list \<Rightarrow> tx_out list \<Rightarrow> extended_addr \<Rightarrow> tx_attributes \<Rightarrow> (error_kind + raw_transfer) run" where
  "select_and_build E F us outputs return_address attributes =
     try_run (Done (err_kind IllegalInput (sum_coins (map out_value outputs)))) (\<lambda>output_value.
     select_and_build_loop E F us outputs return_address attributes output_value coin_zero)"

definition build_transfer_tx ::
    "'st signer_env \<Rightarrow> fee_env \<Rightarrow> (signed_transaction \<Rightarrow> error_kind + tx_aux) \<Rightarrow> bytes \<Rightarrow> bytes \<Rightarrow> utxo list \<Rightarrow>
     tx_out list \<Rightarrow> extended_addr \<Rightarrow> tx_attributes \<Rightarrow> ('st world, tx_aux) action" where
  "build_transfer_tx V F encrypt name passphrase us outputs return_address attributes =
     act_bind (act_run (select_and_build (sv_ext V) F us outputs return_address attributes)) (\<lambda>r w.
     run_bind (sign_all (sv_ext V) (create_signer V name passphrase) (r, w)) (\<lambda>(x, (r', w')).
     case x of Inl e \<Rightarrow> Done (Err e, w') | Inr _ \<Rightarrow> act_run (to_tx_aux (sv_ext V) encrypt r') w'))"

definition obfuscate :: "(signed_transaction \<Rightarrow> error_kind + tx_aux) \<Rightarrow> signed_transaction \<Rightarrow> error_kind + tx_aux" where
  "obfuscate encrypt t = encrypt t"

definition unauthorized_build_transfer_tx ::
    "bytes \<Rightarrow> bytes \<Rightarrow> utxo list \<Rightarrow> tx_out list \<Rightarrow> extended_addr \<Rightarrow> tx_attributes \<Rightarrow> error_kind + tx_aux" where
  "unauthorized_build_transfer_tx name passphrase us outputs return_address attributes = Err PermissionDenied"

definition unauthorized_obfuscate :: "signed_transaction \<Rightarrow> error_kind + tx_aux" where
  "unauthorized_obfuscate t = Err PermissionDenied"

section \<open>Selection\<close>

abbreviation utxo_total :: "utxo list \<Rightarrow> nat" where
  "utxo_total us \<equiv> (\<Sum>u \<leftarrow> us. coin_val (utxo_value u))"

lemma apply_all_permutes: "mset (apply_all ops us) = mset us"
proof -
  have step: "mset (apply_operation op us) = mset us" for op us
  proof (cases op)
    case (Sort x)
    then show ?thesis by (cases x) simp_all
  qed
  show ?thesis unfolding apply_all_def by (induction ops arbitrary: us) (simp_all add: step)
qed

lemma all_Suc_pos: "(\<forall>j. 0 < j \<and> j \<le> Suc k \<longrightarrow> P j) \<longleftrightarrow> (\<forall>j \<le> k. P (Suc j))"
  by (metis Suc_le_mono gr0_conv_Suc zero_less_Suc)

lemma select_loop_Ok:
  "select_loop amount acc taken us = Ok (sel, change) \<longleftrightarrow>
    (\<exists>k < length us. sel = taken @ take (Suc k) us \<and>
      coin_val acc + utxo_total (take (Suc k) us) = coin_val amount + coin_val change \<and>
      coin_val acc + utxo_total (take (Suc k) us) \<le> max_supply \<and>
      (\<forall>j. 0 < j \<and> j \<le> k \<longrightarrow> coin_val acc + utxo_total (take j us) < coin_val amount))"
  (is "?L amount acc taken us \<longleftrightarrow> (\<exists>k < length us. ?R acc taken us k)")
proof (induction us arbitrary: acc taken)
  case Nil
  then show ?case by simp
next
  case (Cons u us)
  show ?case
  proof (cases "coin_add acc (utxo_value u)")
    case (Inl e)
    then have over: "max_supply < coin_val acc + coin_val (utxo_value u)" using coin_add_is_Err by blast
    have "\<not> ?R acc taken (u # us) k" for k using over by simp
    then show ?thesis using Inl by simp
  next
    case (Inr s)
    then have s: "coin_val s = coin_val acc + coin_val (utxo_value u)" "coin_val s \<le> max_supply"
      by (simp_all add: coin_add_eq_Ok)
    show ?thesis
    proof (cases "coin_val amount \<le> coin_val s")
      case True
      have "?R acc taken (u # us) k \<longleftrightarrow> k = 0 \<and> ?R acc taken (u # us) 0" for k
        using True s(1) by (cases k) (auto intro!: exI [of _ 1])
      then have "(\<exists>k < length (u # us). ?R acc taken (u # us) k) \<longleftrightarrow> ?R acc taken (u # us) 0" by auto
      moreover have "?L amount acc taken (u # us) \<longleftrightarrow> ?R acc taken (u # us) 0"
        using True s Inr by (auto simp: coin_le_iff run_elims err_kind_eq_Ok coin_sub_eq_Ok)
      ultimately show ?thesis by blast
    next
      case False
      have shift: "?R acc taken (u # us) (Suc k) \<longleftrightarrow> ?R s (taken @ [u]) us k" for k
      proof -
        have "(\<forall>j. 0 < j \<and> j \<le> Suc k \<longrightarrow> coin_val acc + utxo_total (take j (u # us)) < coin_val amount) \<longleftrightarrow>
            (\<forall>j \<le> k. coin_val s + utxo_total (take j us) < coin_val amount)"
          unfolding all_Suc_pos using s(1) by (simp add: add.assoc)
        also have "\<dots> \<longleftrightarrow> (\<forall>j. 0 < j \<and> j \<le> k \<longrightarrow> coin_val s + utxo_total (take j us) < coin_val amount)"
          using False by (metis add.right_neutral list.simps(8) not_le not_gr_zero sum_list.Nil take0)
        finally have "(\<forall>j. 0 < j \<and> j \<le> Suc k \<longrightarrow> coin_val acc + utxo_total (take j (u # us)) < coin_val amount) \<longleftrightarrow>
            (\<forall>j. 0 < j \<and> j \<le> k \<longrightarrow> coin_val s + utxo_total (take j us) < coin_val amount)" .
        then show ?thesis using s(1) by (simp add: add.assoc)
      qed
      have "\<not> ?R acc taken (u # us) 0" using False s(1) by simp
      then have "(\<exists>k < length (u # us). ?R acc taken (u # us) k) \<longleftrightarrow> (\<exists>k < length us. ?R s (taken @ [u]) us k)"
        unfolding shift [symmetric] by (auto simp: less_Suc_eq_0_disj)
      moreover have "?L amount acc taken (u # us) \<longleftrightarrow> ?L amount s (taken @ [u]) us"
        using False Inr by (simp add: coin_le_iff)
      ultimately show ?thesis using Cons.IH by blast
    qed
  qed
qed

lemma select_loop_returns:
  assumes "coin_val acc + utxo_total us \<le> max_supply"
  shows "us \<noteq> [] \<and> coin_val amount \<le> coin_val acc + utxo_total us \<Longrightarrow> \<exists>r. select_loop amount acc taken us = Ok r"
    and "us = [] \<or> coin_val acc + utxo_total us < coin_val amount \<Longrightarrow> select_loop amount acc taken us = Err InvalidInput"
  using assms
proof (induction us arbitrary: acc taken)
  case (Cons u us)
  {
    case 1
    obtain s where s: "coin_add acc (utxo_value u) = Ok s" using coin_add_total [of acc "utxo_value u"] 1 by auto
    then have v: "coin_val s = coin_val acc + coin_val (utxo_value u)" "valid_coin s"
      by (simp_all add: coin_add_eq_Ok valid_coin_iff)
    show ?case
    proof (cases "amount \<le> s")
      case True
      then obtain c where "coin_sub s amount = Ok c" using coin_sub_total [OF v(2)] by (auto simp: coin_le_iff)
      then show ?thesis using True s by simp
    next
      case False
      then have "us \<noteq> []" using 1 v(1) by (auto simp: coin_le_iff)
      then show ?thesis using Cons.IH(1) [of s] 1 False s v(1) by (simp add: add.assoc)
    qed
  next
    case 2
    obtain s where s: "coin_add acc (utxo_value u) = Ok s" using coin_add_total [of acc "utxo_value u"] 2 by auto
    then have v: "coin_val s = coin_val acc + coin_val (utxo_value u)" by (simp add: coin_add_eq_Ok)
    then show ?case using Cons.IH(2) [of s] 2 s by (simp add: coin_le_iff add.assoc)
  }
qed simp_all

lemma select_Ok:
  assumes "select us amount = Ok (sel, change)"
  shows "\<exists>rest. us = sel @ rest" "sel \<noteq> []" "utxo_total sel = coin_val amount + coin_val change"
    "utxo_total sel \<le> max_supply" "\<forall>ys zs. sel = ys @ zs \<and> ys \<noteq> [] \<and> zs \<noteq> [] \<longrightarrow> utxo_total ys < coin_val amount"
proof -
  obtain k where k: "k < length us" "sel = take (Suc k) us" "utxo_total sel = coin_val amount + coin_val change"
    "utxo_total sel \<le> max_supply" "\<forall>j. 0 < j \<and> j \<le> k \<longrightarrow> utxo_total (take j us) < coin_val amount"
    using assms by (auto simp: select_def select_loop_Ok)
  show "\<exists>rest. us = sel @ rest" unfolding k(2) by (metis append_take_drop_id)
  show "sel \<noteq> []" using k(1,2) by auto
  show "utxo_total sel = coin_val amount + coin_val change" "utxo_total sel \<le> max_supply" using k(3,4) .
  show "\<forall>ys zs. sel = ys @ zs \<and> ys \<noteq> [] \<and> zs \<noteq> [] \<longrightarrow> utxo_total ys < coin_val amount"
  proof (intro allI impI, elim conjE)
    fix ys zs
    assume sel: "sel = ys @ zs" "ys \<noteq> []" "zs \<noteq> []"
    have len: "length sel = Suc k" using k(1,2) by simp
    have "length ys \<le> k" using sel len by (cases zs) auto
    moreover have "ys = take (length ys) us" using sel(1) k(2) calculation
      by (metis append_eq_conv_conj le_SucI min.absorb1 take_take)
    ultimately show "utxo_total ys < coin_val amount" using k(5) sel(2) by (metis length_greater_0_conv)
  qed
qed

text \<open>
  C31: the selection of unspent outputs.  If their total does not exceed the supply, a
  positive amount is covered exactly when the total reaches it.  What is selected is a
  front part of the list in the given order, the surplus is returned as change and is
  smaller than the last output selected, no shorter front part is enough; otherwise the
  selection fails for lack of balance.
\<close>

theorem select_bounds:
  assumes "utxo_total us \<le> max_supply" "coin_val amount > 0"
  shows "(coin_val amount \<le> utxo_total us \<longrightarrow> (\<exists>sel rest change. select us amount = Ok (sel, change) \<and>
      us = sel @ rest \<and> utxo_total sel = coin_val amount + coin_val change \<and>
      coin_val change < coin_val (utxo_value (last sel)) \<and>
      (\<forall>ys zs. sel = ys @ zs \<and> zs \<noteq> [] \<longrightarrow> utxo_total ys < coin_val amount))) \<and>
    (utxo_total us < coin_val amount \<longrightarrow> select us amount = Err InvalidInput)"
proof -
  have "\<exists>sel rest change. select us amount = Ok (sel, change) \<and>
      us = sel @ rest \<and> utxo_total sel = coin_val amount + coin_val change \<and>
      coin_val change < coin_val (utxo_value (last sel)) \<and>
      (\<forall>ys zs. sel = ys @ zs \<and> zs \<noteq> [] \<longrightarrow> utxo_total ys < coin_val amount)"
    if le: "coin_val amount \<le> utxo_total us"
  proof -
    have "us \<noteq> []" using le assms(2) by auto
    then obtain sel change where s: "select us amount = Ok (sel, change)"
      using select_loop_returns(1) [of coin_zero us amount "[]"] le assms(1) by (auto simp: select_def)
    note sel = select_Ok [OF s]
    have short: "\<forall>ys zs. sel = ys @ zs \<and> zs \<noteq> [] \<longrightarrow> utxo_total ys < coin_val amount"
      using sel(5) assms(2) by (metis list.simps(8) sum_list.Nil)
    have split: "sel = butlast sel @ [last sel]" using sel(2) by simp
    then have "utxo_total (butlast sel) < coin_val amount" using short by blast
    moreover have "utxo_total sel = utxo_total (butlast sel) + coin_val (utxo_value (last sel))"
      by (subst split) simp
    ultimately have "coin_val change < coin_val (utxo_value (last sel))" using sel(3) by simp
    then show ?thesis using s sel(1,3) short by blast
  qed
  moreover have "select us amount = Err InvalidInput" if "utxo_total us < coin_val amount"
    using select_loop_returns(2) [of coin_zero us amount "[]"] that assms(1) by (simp add: select_def)
  ultimately show ?thesis by blast
qed

theorem select_bounds_witness:
  "\<exists>sel change. select [(\<lparr>txo_id = [1], txo_index = 0\<rparr>, \<lparr>out_address = OrTree [2], out_value = Coin 5, valid_from = None\<rparr>),
      (\<lparr>txo_id = [1], txo_index = 1\<rparr>, \<lparr>out_address = OrTree [2], out_value = Coin 9, valid_from = None\<rparr>),
      (\<lparr>txo_id = [3], txo_index = 0\<rparr>, \<lparr>out_address = OrTree [2], out_value = Coin 4, valid_from = None\<rparr>)] (Coin 7) = Ok (sel, change) \<and>
    utxo_total sel = 7 + coin_val change \<and> coin_val change < coin_val (utxo_value (last sel))"
proof -
  let ?us = "[(\<lparr>txo_id = [1], txo_index = 0\<rparr>, \<lparr>out_address = OrTree [2], out_value = Coin 5, valid_from = None\<rparr>),
      (\<lparr>txo_id = [1], txo_index = 1\<rparr>, \<lparr>out_address = OrTree [2], out_value = Coin 9, valid_from = None\<rparr>),
      (\<lparr>txo_id = [3], txo_index = 0\<rparr>, \<lparr>out_address = OrTree [2], out_value = Coin 4, valid_from = None\<rparr>)]"
  have "utxo_total ?us = 18" "coin_val (Coin 7) = 7" by (simp_all add: utxo_value_def coin_val_def)
  moreover have "18 \<le> max_supply" by simp
  ultimately show ?thesis using select_bounds [of ?us "Coin 7"] by auto
qed

section \<open>The raw transaction\<close>

definition unsigned_utxo :: "utxo \<Rightarrow> witnessed_utxo" where
  "unsigned_utxo u = \<lparr>prev_txo_pointer = fst u, prev_tx_out = snd u, utxo_witness = None\<rparr>"

lemma add_inputs_unsigned:
  "raw_inputs r = map unsigned_utxo us \<Longrightarrow>
   fold add_input vs r = r\<lparr>raw_inputs := map unsigned_utxo (us @ vs)\<rparr>"
proof (induction vs arbitrary: r us)
  case (Cons v vs)
  have "add_input v r = r\<lparr>raw_inputs := map unsigned_utxo (us @ [v])\<rparr>"
    using Cons.prems by (simp add: add_input_def clear_witness_def unsigned_utxo_def)
  with Cons.IH [of "add_input v r" "us @ [v]"] show ?case by simp
qed simp

lemma add_output_unsigned:
  "raw_inputs r = map unsigned_utxo us \<Longrightarrow> add_output out r = r\<lparr>raw_outputs := raw_outputs r @ [out]\<rparr>"
  by (simp add: add_output_def clear_witness_def unsigned_utxo_def)

lemma add_outputs_unsigned:
  "raw_inputs r = map unsigned_utxo us \<Longrightarrow> fold add_output outs r = r\<lparr>raw_outputs := raw_outputs r @ outs\<rparr>"
proof (induction outs arbitrary: r)
  case (Cons out outs)
  from Cons.IH [of "add_output out r"] Cons.prems show ?case by (simp add: add_output_unsigned [OF Cons.prems])
qed simp

lemma build_raw_transaction_eq:
  "build_raw_transaction sel outs ra change at = \<lparr>raw_inputs = map unsigned_utxo sel,
     raw_outputs = outs @ (if change = coin_zero then []
       else [\<lparr>out_address = ra, out_value = change, valid_from = None\<rparr>]), raw_attributes = at\<rparr>"
proof -
  have "raw_inputs (raw_new at) = map unsigned_utxo []" by (simp add: raw_new_def)
  from add_inputs_unsigned [OF this, of sel] have ins: "fold add_input sel (raw_new at) =
      \<lparr>raw_inputs = map unsigned_utxo sel, raw_outputs = [], raw_attributes = at\<rparr>" by (simp add: raw_new_def)
  have base: "fold add_output outs (fold add_input sel (raw_new at)) =
      \<lparr>raw_inputs = map unsigned_utxo sel, raw_outputs = outs, raw_attributes = at\<rparr>"
    unfolding ins by (subst add_outputs_unsigned [where us = sel]) simp_all
  have "add_output out \<lparr>raw_inputs = map unsigned_utxo sel, raw_outputs = outs, raw_attributes = at\<rparr> =
      \<lparr>raw_inputs = map unsigned_utxo sel, raw_outputs = outs @ [out], raw_attributes = at\<rparr>" for out
    by (subst add_output_unsigned) simp_all
  then show ?thesis by (simp add: build_raw_transaction_def Let_def base)
qed

abbreviation outs_total :: "tx_out list \<Rightarrow> nat" where
  "outs_total outs \<equiv> (\<Sum>out \<leftarrow> outs. coin_val (out_value out))"

lemma build_raw_outputs_total:
  "outs_total (raw_outputs (build_raw_transaction sel outs ra change at)) = outs_total outs + coin_val change"
  by (simp add: build_raw_transaction_eq)

section \<open>The fee loop\<close>

lemma sign_tx_returns:
  assumes "fe_sig_from_default F (replicate 64 0) = Some sig" "0 < n"
  shows "\<exists>w. sign_tx E F n = Done w"
proof -
  let ?pk = "replicate 33 0 :: raw_pubkey"
  have "?pk \<in> set (replicate n ?pk)" using assms(2) by simp
  from merkle.complete [OF this, of "blake2s E" "\<lambda>b. b"] obtain pf where
    "generate_proof (blake2s E) (\<lambda>b. b) (mock_merkletree E ?pk n) ?pk = Done (Some pf)"
    unfolding mock_merkletree_def by (elim exE conjE)
  then show ?thesis using assms(1) by (simp add: sign_tx_def)
qed

lemma estimate_fee_returns:
  assumes "fe_sig_from_default F (replicate 64 0) = Some sig"
  shows "\<exists>x. estimate_fee E F r = Done x"
proof -
  obtain w where "sign_tx E F 2 = Done w" using sign_tx_returns [OF assms, of 2] by auto
  then show ?thesis by (simp add: estimate_fee_def schnorr_sign_inputs_len_def)
qed

definition pays_fee ::
    "ext \<Rightarrow> fee_env \<Rightarrow> utxo list \<Rightarrow> tx_out list \<Rightarrow> extended_addr \<Rightarrow> tx_attributes \<Rightarrow> nat \<Rightarrow> raw_transfer \<Rightarrow> bool" where
  "pays_fee E F us outs ra at ov r \<longleftrightarrow> (\<exists>sel rest change est paid. us = sel @ rest \<and>
     r = build_raw_transaction sel outs ra change at \<and> utxo_total sel = ov + coin_val paid + coin_val change \<and>
     utxo_total sel \<le> max_supply \<and> estimate_fee E F r = Done (Ok est) \<and> est \<le> paid)"

lemma fee_loop_result:
  assumes "fe_sig_from_default F (replicate 64 0) = Some sig"
  shows "\<exists>x. select_and_build_loop E F us outs ra at ov fees = Done x \<and>
    (\<forall>r. x = Ok r \<longrightarrow> pays_fee E F us outs ra at (coin_val ov) r)"
  using assms
proof (induction E F us outs ra at ov fees rule: select_and_build_loop.induct)
  case (1 E F us outs ra at ov fees)
  note unfold = select_and_build_loop.simps [of E F us outs ra at ov fees]
  show ?case
  proof (cases "coin_add ov fees")
    case (Inl e)
    then show ?thesis by (simp add: unfold)
  next
    case amount: (Inr amount)
    show ?thesis
    proof (cases "select us amount")
      case (Inl e)
      then show ?thesis by (simp add: unfold amount)
    next
      case (Inr sc)
      obtain sel change where sc: "sc = (sel, change)" by (cases sc)
      let ?r = "build_raw_transaction sel outs ra change at"
      have step: "select_and_build_loop E F us outs ra at ov fees = (case estimate_fee E F ?r of Panic m \<Rightarrow> Panic m
          | Done (Inl e) \<Rightarrow> Done (Err e)
          | Done (Inr new_fees) \<Rightarrow> if new_fees > fees then select_and_build_loop E F us outs ra at ov new_fees else Done (Ok ?r))"
        by (subst unfold) (simp add: amount Inr sc)
      obtain x where x: "estimate_fee E F ?r = Done x" using estimate_fee_returns [OF "1.prems"] by blast
      show ?thesis
      proof (cases x)
        case (Inl e)
        then show ?thesis by (simp add: step x)
      next
        case est: (Inr est)
        show ?thesis
        proof (cases "est > fees")
          case True
          from "1.IH" [OF amount Inr sc [symmetric] x est True "1.prems"] show ?thesis
            unfolding step x est using True by simp
        next
          case False
          have s: "select us amount = Ok (sel, change)" using Inr sc by simp
          have "utxo_total sel = coin_val ov + coin_val fees + coin_val change"
            using select_Ok(3) [OF s] amount by (simp add: coin_add_eq_Ok)
          then have "pays_fee E F us outs ra at (coin_val ov) ?r"
            unfolding pays_fee_def using select_Ok(1,4) [OF s] x est False
            by (metis not_le)
          then show ?thesis unfolding step x est using False by simp
        qed
      qed
    qed
  qed
qed

text \<open>
  C30: choosing the inputs and the fee of a transfer always ends, although it starts
  again whenever the estimate exceeds the fee assumed so far.  A transaction it returns
  spends a front part of the unspent outputs, pays the requested outputs in their order
  followed at most by the change to the return address, and what it pays as a fee is at
  least the estimate for this very transaction.
\<close>

theorem select_and_build_ends:
  assumes "fe_sig_from_default F (replicate 64 0) = Some sig"
  shows "\<exists>x. select_and_build E F us outputs return_address attributes = Done x \<and>
    (\<forall>r. x = Ok r \<longrightarrow> (\<exists>sel rest change est paid. us = sel @ rest \<and> map prev_txo_pointer (raw_inputs r) = map fst sel \<and>
      raw_outputs r = outputs @ (if change = coin_zero then []
        else [\<lparr>out_address = return_address, out_value = change, valid_from = None\<rparr>]) \<and>
      utxo_total sel = outs_total (raw_outputs r) + coin_val paid \<and>
      estimate_fee E F r = Done (Ok est) \<and> est \<le> paid))"
proof (cases "sum_coins (map out_value outputs)")
  case (Inl e)
  then show ?thesis by (simp add: select_and_build_def)
next
  case (Inr ov)
  then have ov: "coin_val ov = outs_total outputs" by (simp add: sum_coins_eq_Ok comp_def)
  obtain x where x: "select_and_build_loop E F us outputs return_address attributes ov coin_zero = Done x"
    "\<forall>r. x = Ok r \<longrightarrow> pays_fee E F us outputs return_address attributes (coin_val ov) r"
    using fee_loop_result [OF assms] by blast
  have "\<exists>sel rest change est paid. us = sel @ rest \<and> map prev_txo_pointer (raw_inputs r) = map fst sel \<and>
      raw_outputs r = outputs @ (if change = coin_zero then []
        else [\<lparr>out_address = return_address, out_value = change, valid_from = None\<rparr>]) \<and>
      utxo_total sel = outs_total (raw_outputs r) + coin_val paid \<and>
      estimate_fee E F r = Done (Ok est) \<and> est \<le> paid" if r: "x = Ok r" for r
  proof -
    obtain sel rest change est paid where *: "us = sel @ rest"
      "r = build_raw_transaction sel outputs return_address change attributes"
      "utxo_total sel = coin_val ov + coin_val paid + coin_val change" "estimate_fee E F r = Done (Ok est)" "est \<le> paid"
      using x(2) r unfolding pays_fee_def by blast
    have "utxo_total sel = outs_total (raw_outputs r) + coin_val paid"
      using *(3) ov by (simp add: *(2) build_raw_outputs_total)
    moreover have "map prev_txo_pointer (raw_inputs r) = map fst sel"
      by (simp add: *(2) build_raw_transaction_eq unsigned_utxo_def)
    moreover have "raw_outputs r = outputs @ (if change = coin_zero then []
        else [\<lparr>out_address = return_address, out_value = change, valid_from = None\<rparr>])"
      by (simp add: *(2) build_raw_transaction_eq)
    ultimately show ?thesis using *(1,4,5) by blast
  qed
  then show ?thesis using x(1) by (simp add: select_and_build_def Inr)
qed

section \<open>Signing keeps the transaction\<close>

definition same_transfer :: "raw_transfer \<Rightarrow> raw_transfer \<Rightarrow> bool" where
  "same_transfer r r' \<longleftrightarrow> raw_outputs r' = raw_outputs r \<and> raw_attributes r' = raw_attributes r \<and>
     map (\<lambda>u. (prev_txo_pointer u, prev_tx_out u)) (raw_inputs r') = map (\<lambda>u. (prev_txo_pointer u, prev_tx_out u)) (raw_inputs r)"

lemma same_transfer_refl: "same_transfer r r"
  by (simp add: same_transfer_def)

lemma same_transfer_trans: "same_transfer a b \<Longrightarrow> same_transfer b c \<Longrightarrow> same_transfer a c"
  by (simp add: same_transfer_def)

lemma same_to_tx: "same_transfer r r' \<Longrightarrow> to_tx r' = to_tx r"
proof -
  assume s: "same_transfer r r'"
  then have "map fst (map (\<lambda>u. (prev_txo_pointer u, prev_tx_out u)) (raw_inputs r')) =
      map fst (map (\<lambda>u. (prev_txo_pointer u, prev_tx_out u)) (raw_inputs r))" by (simp only: same_transfer_def)
  then show ?thesis using s by (simp add: to_tx_def same_transfer_def comp_def)
qed

lemma add_witness_same:
  assumes "add_witness E i w r = Done (x, r')"
  shows "same_transfer r r'"
proof -
  consider "r' = r" | u where "i < length (raw_inputs r)" "u = raw_inputs r ! i"
      "r' = r\<lparr>raw_inputs := (raw_inputs r)[i := u\<lparr>utxo_witness := Some w\<rparr>]\<rparr>"
    using assms by (auto simp: add_witness_def input_at_index_def index_run_def split: if_splits sum.splits)
  then show ?thesis
  proof cases
    case 1
    then show ?thesis by (simp add: same_transfer_refl)
  next
    case 2
    then show ?thesis by (simp add: same_transfer_def map_update list_update_same_conv)
  qed
qed

lemma add_witnesses_same: "add_witnesses E ws r = Done (x, r') \<Longrightarrow> same_transfer r r'"
proof (induction ws arbitrary: r)
  case Nil
  then show ?case by (simp add: same_transfer_refl)
next
  case (Cons a ws)
  obtain i w where a: "a = (i, w)" by (cases a)
  from Cons.prems obtain y r1 where y: "add_witness E i w r = Done (y, r1)"
    by (auto simp: a act_bind_def run_bind_eq_Done)
  note same = add_witness_same [OF y]
  show ?case
  proof (cases y)
    case (Inl e)
    then show ?thesis using Cons.prems same y by (simp add: a)
  next
    case (Inr u)
    then have "add_witnesses E ws r1 = Done (x, r')" using Cons.prems y by (simp add: a)
    from same_transfer_trans [OF same Cons.IH [OF this]] show ?thesis .
  qed
qed

lemma sign_all_same:
  assumes "sign_all E S (r, s) = Done (x, (r', s'))"
  shows "same_transfer r r'"
proof -
  from assms obtain y s1 where y: "request_witnesses S (raw_tx_id E r) 0 (raw_inputs r) s = Done (y, s1)"
    by (auto simp: sign_all_def run_bind_eq_Done)
  show ?thesis
  proof (cases y)
    case (Inl e)
    then show ?thesis using assms y by (simp add: sign_all_def same_transfer_refl)
  next
    case (Inr ws)
    then obtain z where "add_witnesses E ws r = Done (z, r')"
      using assms y by (auto simp: sign_all_def run_bind_eq_Done)
    then show ?thesis by (rule add_witnesses_same)
  qed
qed

section \<open>The checks of the builder and of the chain\<close>

lemma unwrap_all_Done: "unwrap_all xs = Done vs \<longleftrightarrow> xs = map Some vs"
  by (induction xs arbitrary: vs) (auto simp: run_elims)

lemma verify_each_witness_Ok:
  "verify_each_witness E i us = Ok () \<longleftrightarrow>
    (\<forall>u \<in> set us. \<exists>w. utxo_witness u = Some w \<and> verify_tx_address E w i (out_address (prev_tx_out u)) = Ok ())"
  by (induction us) (auto simp: run_elims opt_kind_eq_Ok err_kind_eq_Ok)

lemma raw_verify_Ok:
  "raw_verify E r = Done (Ok ()) \<longleftrightarrow> (\<exists>ws. map utxo_witness (raw_inputs r) = map Some ws \<and>
    check_inputs_basic (tx_inputs (to_tx r)) ws = Ok () \<and> check_outputs_basic (raw_outputs r) = Ok () \<and>
    (\<Sum>u \<leftarrow> raw_inputs r. coin_val (out_value (prev_tx_out u))) \<le> max_supply \<and>
    outs_total (raw_outputs r) \<le> (\<Sum>u \<leftarrow> raw_inputs r. coin_val (out_value (prev_tx_out u))) \<and>
    verify_each_witness E (tx_id E (to_tx r)) (raw_inputs r) = Ok ())"
proof -
  have completed: "is_completed r" if "map utxo_witness (raw_inputs r) = map Some ws" for ws
  proof -
    have "utxo_witness u \<in> set (map Some ws)" if "u \<in> set (raw_inputs r)" for u
      using that \<open>map utxo_witness (raw_inputs r) = map Some ws\<close> by (metis image_eqI list.set_map)
    then show ?thesis by (auto simp: is_completed_def list_all_iff)
  qed
  have sums: "verify_output_does_not_exceed_input_amount r = Ok () \<longleftrightarrow>
      (\<Sum>u \<leftarrow> raw_inputs r. coin_val (out_value (prev_tx_out u))) \<le> max_supply \<and>
      outs_total (raw_outputs r) \<le> (\<Sum>u \<leftarrow> raw_inputs r. coin_val (out_value (prev_tx_out u)))"
  proof (cases "sum_coins (map (out_value \<circ> prev_tx_out) (raw_inputs r))")
    case (Inl e)
    then have "verify_output_does_not_exceed_input_amount r = Err VerifyError"
      by (simp add: verify_output_does_not_exceed_input_amount_def total_input_amount_def)
    then show ?thesis using sum_coins_Err [OF Inl] by (simp add: comp_def)
  next
    case i: (Inr i)
    have iv: "coin_val i = (\<Sum>u \<leftarrow> raw_inputs r. coin_val (out_value (prev_tx_out u)))" "coin_val i \<le> max_supply"
      using i by (simp_all add: sum_coins_eq_Ok comp_def)
    show ?thesis
    proof (cases "sum_coins (map out_value (raw_outputs r))")
      case (Inl e)
      then have "verify_output_does_not_exceed_input_amount r = Err VerifyError"
        by (simp add: verify_output_does_not_exceed_input_amount_def total_input_amount_def total_output_amount_def i)
      then show ?thesis using sum_coins_Err [OF Inl] iv by (simp add: comp_def)
    next
      case (Inr out)
      then have "verify_output_does_not_exceed_input_amount r = (if i < out then Err VerifyError else Ok ())"
        by (simp add: verify_output_does_not_exceed_input_amount_def total_input_amount_def total_output_amount_def i)
      moreover have "coin_val out = outs_total (raw_outputs r)" using Inr by (simp add: sum_coins_eq_Ok comp_def)
      ultimately show ?thesis using iv by (simp add: coin_less_iff not_less)
    qed
  qed
  show ?thesis
    unfolding raw_verify_def verify_inputs_def raw_witnesses_def verify_outputs_def verify_input_witnesses_def raw_tx_id_def
    using completed by (auto simp: run_elims unwrap_all_Done err_kind_eq_Ok sums to_tx_def)
qed

text \<open>A previous transaction as the chain knows it, for an unspent output of the wallet.\<close>

definition known_output :: "ext \<Rightarrow> chain_info \<Rightarrow> (txo_pointer \<Rightarrow> tx_with_outputs) \<Rightarrow> utxo \<Rightarrow> bool" where
  "known_output E info prev u \<longleftrightarrow> txo_id (fst u) = with_outputs_id E (prev (fst u)) \<and>
     unat (txo_index (fst u)) < length (outputs_of (prev (fst u))) \<and> spent_output (fst u) (prev (fst u)) = snd u \<and>
     (case valid_from (snd u) of None \<Rightarrow> True | Some t \<Rightarrow> t \<le> previous_block_time info)"

lemma raw_verify_accepted:
  assumes verify: "raw_verify E r = Done (Ok ())" and attrs: "info_chain_hex_id info = chain_hex_id (raw_attributes r)"
    and known: "\<forall>u \<in> set (raw_inputs r). known_output E info prev (prev_txo_pointer u, prev_tx_out u)"
    and fee: "(\<Sum>u \<leftarrow> raw_inputs r. coin_val (out_value (prev_tx_out u))) = outs_total (raw_outputs r) + coin_val paid"
      "min_fee info \<le> coin_val paid"
  obtains ws where "raw_witnesses r = Done ws"
    "verify_transfer E (to_tx r) ws info (map prev (tx_inputs (to_tx r))) = Done (Ok (Fee paid))"
proof -
  let ?ins = "raw_inputs r" and ?t = "to_tx r"
  let ?in_total = "\<Sum>u \<leftarrow> ?ins. coin_val (out_value (prev_tx_out u))"
  obtain ws where ws: "map utxo_witness ?ins = map Some ws" "check_inputs_basic (tx_inputs ?t) ws = Ok ()"
    "check_outputs_basic (raw_outputs r) = Ok ()" "?in_total \<le> max_supply"
    "verify_each_witness E (tx_id E ?t) ?ins = Ok ()" using verify unfolding raw_verify_Ok by blast
  define f where "f u = (prev_txo_pointer u, prev (prev_txo_pointer u), the (utxo_witness u))" for u :: witnessed_utxo
  have "ws = map (the \<circ> utxo_witness) ?ins"
    using arg_cong [OF ws(1), of "map the"] by (simp add: comp_def)
  then have zip: "zip (tx_inputs ?t) (zip (map prev (tx_inputs ?t)) ws) = map f ?ins"
    by (simp add: to_tx_def f_def zip_map_map zip_same_conv_map comp_def)
  have spent: "spent_output (prev_txo_pointer u) (prev (prev_txo_pointer u)) = prev_tx_out u" if "u \<in> set ?ins" for u
    using known that by (auto simp: known_output_def)
  have total: "(\<Sum>(i, t, w) \<leftarrow> map f ?ins. coin_val (out_value (spent_output i t))) = ?in_total"
    using spent by (simp add: f_def comp_def cong: map_cong)
  have each: "\<forall>u \<in> set ?ins. \<exists>w. utxo_witness u = Some w \<and>
      verify_tx_address E w (tx_id E ?t) (out_address (prev_tx_out u)) = Ok ()"
    using ws(5) unfolding verify_each_witness_Ok .
  have "input_ok E (tx_id E ?t) info (f u)" if u: "u \<in> set ?ins" for u
  proof -
    obtain w where "utxo_witness u = Some w" "verify_tx_address E w (tx_id E ?t) (out_address (prev_tx_out u)) = Ok ()"
      using each u by blast
    then show ?thesis
      using known [rule_format, OF u] by (simp add: input_ok_def f_def known_output_def)
  qed
  then have inputs_ok: "list_all (input_ok E (tx_id E ?t) info) (map f ?ins)" by (simp add: list_all_iff)
  obtain i where i: "coin_val i = ?in_total"
    using sum_coins_total [of "map (out_value \<circ> prev_tx_out) ?ins"] ws(4) by (auto simp: sum_coins_eq_Ok comp_def)
  have checked: "check_inputs E (tx_id E ?t) (tx_inputs ?t) ws info (map prev (tx_inputs ?t)) = Ok i"
    unfolding check_inputs_Ok zip using inputs_ok total i ws(4) by simp
  obtain out where out: "sum_coins (map out_value (raw_outputs r)) = Ok out" "coin_val out = outs_total (raw_outputs r)"
    using sum_coins_total [of "map out_value (raw_outputs r)"] fee(1) ws(4) by (auto simp: sum_coins_eq_Ok comp_def)
  have "check_input_output_sums i out info = Done (Ok (Fee paid))"
    unfolding check_sums_Ok using i out(2) fee ws(4) by (simp add: valid_coin_iff)
  then have "verify_transfer E ?t ws info (map prev (tx_inputs ?t)) = Done (Ok (Fee paid))"
    using attrs ws(2,3) checked out(1)
    by (simp add: verify_transfer_def check_attributes_def tx_get_output_total_def to_tx_def)
  moreover have "raw_witnesses r = Done ws" by (simp add: raw_witnesses_def unwrap_all_Done ws(1))
  ultimately show thesis by (rule that [rotated])
qed

lemma build_transfer_tx_Ok:
  assumes "build_transfer_tx V F encrypt name p us outputs ra at w = Done (Ok aux, w')"
  obtains r r' w1 u where "select_and_build (sv_ext V) F us outputs ra at = Done (Ok r)"
    "sign_all (sv_ext V) (create_signer V name p) (r, w) = Done (Ok u, (r', w1))"
    "to_tx_aux (sv_ext V) encrypt r' = Done (Ok aux)"
proof -
  obtain r where r: "select_and_build (sv_ext V) F us outputs ra at = Done (Ok r)"
    and rest: "run_bind (sign_all (sv_ext V) (create_signer V name p) (r, w)) (\<lambda>(x, (r', w')).
      case x of Inl e \<Rightarrow> Done (Err e, w') | Inr _ \<Rightarrow> act_run (to_tx_aux (sv_ext V) encrypt r') w') = Done (Ok aux, w')"
    using assms unfolding build_transfer_tx_def by (auto simp: act_bind_Ok act_run_def run_bind_eq_Done)
  from rest obtain x r' w1 where x: "sign_all (sv_ext V) (create_signer V name p) (r, w) = Done (x, (r', w1))"
    by (auto simp: run_bind_eq_Done)
  obtain u where u: "x = Ok u" using rest x by (cases x) auto
  have "to_tx_aux (sv_ext V) encrypt r' = Done (Ok aux)"
    using rest unfolding x u by (auto simp: act_run_def run_bind_eq_Done)
  with r x u show thesis by (intro that [of r u r' w1]) simp_all
qed

text \<open>
  C8: what the transaction builder of a wallet hands out is a valid transfer.  If it
  returns a transaction, this is the encryption of a transfer with witnesses that spends
  unspent outputs of the wallet and pays the requested outputs first.  Provided that the
  unspent outputs are those of the chain and not locked, that the chain identifier is the
  one of the chain and that the minimal fee is at most the estimate, the chain accepts
  the transfer and takes a fee of at least the estimate.
\<close>

theorem built_transfer_accepted:
  assumes "build_transfer_tx V F encrypt name p us outputs return_address attributes w = Done (Ok aux, w')"
    and "fe_sig_from_default F (replicate 64 0) = Some sig"
    and "\<forall>u \<in> set us. known_output (sv_ext V) info prev u" "info_chain_hex_id info = chain_hex_id attributes"
  shows "\<exists>t ws r est paid. encrypt (SignedTransfer t ws) = Ok aux \<and> set (tx_inputs t) \<subseteq> fst ` set us \<and>
    take (length outputs) (tx_outputs t) = outputs \<and> to_tx r = t \<and> estimate_fee (sv_ext V) F r = Done (Ok est) \<and> est \<le> paid \<and>
    (min_fee info \<le> coin_val est \<longrightarrow>
      verify_transfer (sv_ext V) t ws info (map prev (tx_inputs t)) = Done (Ok (Fee paid)))"
proof -
  let ?E = "sv_ext V"
  obtain r r' w1 u where r: "select_and_build ?E F us outputs return_address attributes = Done (Ok r)"
    and sign: "sign_all ?E (create_signer V name p) (r, w) = Done (Ok u, (r', w1))"
    and aux: "to_tx_aux ?E encrypt r' = Done (Ok aux)"
    by (rule build_transfer_tx_Ok [OF assms(1)])
  obtain ov where ov: "sum_coins (map out_value outputs) = Ok ov"
    and loop: "select_and_build_loop ?E F us outputs return_address attributes ov coin_zero = Done (Ok r)"
    using r by (auto simp: select_and_build_def try_run_eq_Ok err_kind_eq_Ok)
  have "pays_fee ?E F us outputs return_address attributes (coin_val ov) r"
    using fee_loop_result [OF assms(2), of ?E us outputs return_address attributes ov coin_zero] loop by auto
  then obtain sel rest change est paid where sel: "us = sel @ rest"
    "r = build_raw_transaction sel outputs return_address change attributes"
    "utxo_total sel = coin_val ov + coin_val paid + coin_val change" "estimate_fee ?E F r = Done (Ok est)" "est \<le> paid"
    unfolding pays_fee_def by blast
  note raw = build_raw_transaction_eq [of sel outputs return_address change attributes, folded sel(2)]
  note same = sign_all_same [OF sign]
  have ins: "map (\<lambda>u. (prev_txo_pointer u, prev_tx_out u)) (raw_inputs r') = sel"
    using same by (simp add: same_transfer_def raw unsigned_utxo_def comp_def)
  have t: "to_tx r' = to_tx r" "tx_inputs (to_tx r) = map fst sel" "raw_outputs r' = raw_outputs r"
    "raw_attributes r' = attributes" "take (length outputs) (tx_outputs (to_tx r)) = outputs"
    using same same_to_tx [OF same] by (simp_all add: same_transfer_def raw to_tx_def unsigned_utxo_def comp_def)
  have in_total: "(\<Sum>u \<leftarrow> raw_inputs r'. coin_val (out_value (prev_tx_out u))) = utxo_total sel"
    unfolding ins [symmetric] by (simp add: utxo_value_def comp_def)
  have outs: "utxo_total sel = outs_total (raw_outputs r') + coin_val paid"
    using sel(3) ov by (simp add: t(3) sel(2) build_raw_outputs_total sum_coins_eq_Ok comp_def)
  have known: "\<forall>u \<in> set (raw_inputs r'). known_output ?E info prev (prev_txo_pointer u, prev_tx_out u)"
  proof
    fix u
    assume "u \<in> set (raw_inputs r')"
    then have "(prev_txo_pointer u, prev_tx_out u) \<in> set sel" unfolding ins [symmetric] by force
    then show "known_output ?E info prev (prev_txo_pointer u, prev_tx_out u)" using assms(3) sel(1) by simp
  qed
  obtain ws where verify: "raw_verify ?E r' = Done (Ok ())" and ws: "raw_witnesses r' = Done ws"
    "encrypt (SignedTransfer (to_tx r') ws) = Ok aux" using aux by (auto simp: to_tx_aux_def run_elims)
  have accepted: "verify_transfer ?E (to_tx r') ws info (map prev (tx_inputs (to_tx r'))) = Done (Ok (Fee paid))"
    if "min_fee info \<le> coin_val est"
  proof -
    have "min_fee info \<le> coin_val paid" using that sel(5) by (simp add: coin_le_iff)
    moreover have "info_chain_hex_id info = chain_hex_id (raw_attributes r')" using assms(4) t(4) by simp
    ultimately obtain ws' where "raw_witnesses r' = Done ws'"
      "verify_transfer ?E (to_tx r') ws' info (map prev (tx_inputs (to_tx r'))) = Done (Ok (Fee paid))"
      using raw_verify_accepted [OF verify _ known] in_total outs by metis
    then show ?thesis using ws(1) by simp
  qed
  have "set (tx_inputs (to_tx r)) \<subseteq> fst ` set us" by (auto simp: t(2) sel(1))
  then show ?thesis using ws(2) accepted sel(4,5) t(1,5) by metis
qed

section \<open>A transfer of a wallet\<close>

definition sample_fee_env :: fee_env where
  "sample_fee_env = \<lparr>fe_enc_plain = (\<lambda>p. []), fe_sig_from_default = Some, fe_sig_from_compact = Some,
     fe_calculate_for_txaux = (\<lambda>t. Ok (Fee (Coin 2)))\<rparr>"

definition sample_utxo :: "extended_addr \<Rightarrow> utxo" where
  "sample_utxo a = (\<lparr>txo_id = tx_id sample_ext sample_prev_tx, txo_index = 0\<rparr>,
     \<lparr>out_address = a, out_value = Coin 10, valid_from = Some 80\<rparr>)"

definition sample_payment :: tx_out where
  "sample_payment = \<lparr>out_address = OrTree [4], out_value = Coin 7, valid_from = None\<rparr>"

definition sample_attributes :: tx_attributes where
  "sample_attributes = \<lparr>chain_hex_id = 1, allowed_view = []\<rparr>"

definition sample_encrypt :: "signed_transaction \<Rightarrow> error_kind + tx_aux" where
  "sample_encrypt t = (case t of SignedTransfer x w \<Rightarrow> Ok (mock_txaux_for_tx sample_fee_env x w) | _ \<Rightarrow> Err InvalidInput)"

lemma sample_estimate: "estimate_fee sample_ext sample_fee_env r = Done (Ok (Coin 2))"
proof -
  obtain w where "sign_tx sample_ext sample_fee_env 2 = Done w"
    using sign_tx_returns [of sample_fee_env _ 2] by (auto simp: sample_fee_env_def)
  then show ?thesis by (simp add: estimate_fee_def schnorr_sign_inputs_len_def) (simp add: sample_fee_env_def)
qed

lemma sample_select_and_build:
  "select_and_build sample_ext sample_fee_env [sample_utxo a] [sample_payment] (OrTree [6]) sample_attributes =
    Done (Ok (build_raw_transaction [sample_utxo a] [sample_payment] (OrTree [6]) (Coin 1) sample_attributes))"
proof -
  have add: "coin_add (Coin 7) coin_zero = Ok (Coin 7)" "coin_add (Coin 7) (Coin 2) = Ok (Coin 9)"
    "sum_coins [Coin 7] = Ok (Coin 7)"
    by (simp_all add: coin_add_eq_Ok sum_coins_eq_Ok coin_val_def coin_zero_def)
  have more: "coin_add coin_zero (Coin 10) = Ok (Coin 10)" "coin_sub (Coin 10) (Coin 7) = Ok (Coin 3)"
    "coin_sub (Coin 10) (Coin 9) = Ok (Coin 1)"
    by (simp_all add: coin_add_eq_Ok coin_sub_eq_Ok coin_val_def coin_zero_def)
  have le: "Coin 7 \<le> Coin 10" "Coin 9 \<le> Coin 10" by (simp_all add: coin_le_iff coin_val_def)
  have sel: "select [sample_utxo a] (Coin 7) = Ok ([sample_utxo a], Coin 3)"
    "select [sample_utxo a] (Coin 9) = Ok ([sample_utxo a], Coin 1)"
    by (simp_all add: select_def sample_utxo_def utxo_value_def more le)
  have less: "coin_zero < Coin 2" "\<not> Coin 2 < Coin 2" by (simp_all add: coin_less_iff coin_val_def coin_zero_def)
  have "select_and_build_loop sample_ext sample_fee_env [sample_utxo a] [sample_payment] (OrTree [6]) sample_attributes
      (Coin 7) (Coin 2) = Done (Ok (build_raw_transaction [sample_utxo a] [sample_payment] (OrTree [6]) (Coin 1) sample_attributes))"
    by (subst select_and_build_loop.simps) (simp add: add sel sample_estimate)
  then have "select_and_build_loop sample_ext sample_fee_env [sample_utxo a] [sample_payment] (OrTree [6]) sample_attributes
      (Coin 7) coin_zero = Done (Ok (build_raw_transaction [sample_utxo a] [sample_payment] (OrTree [6]) (Coin 1) sample_attributes))"
    by (subst select_and_build_loop.simps) (simp add: add sel sample_estimate less)
  then show ?thesis by (simp add: select_and_build_def sample_payment_def add(3))
qed

theorem select_and_build_ends_witness:
  "\<exists>r est paid. select_and_build sample_ext sample_fee_env [sample_utxo (OrTree [3])] [sample_payment] (OrTree [6])
      sample_attributes = Done (Ok r) \<and> outs_total (raw_outputs r) + coin_val paid = 10 \<and>
    estimate_fee sample_ext sample_fee_env r = Done (Ok est) \<and> est \<le> paid"
proof -
  have "fe_sig_from_default sample_fee_env (replicate 64 0) = Some (replicate 64 0)" by (simp add: sample_fee_env_def)
  from select_and_build_ends [OF this, of sample_ext "[sample_utxo (OrTree [3])]" "[sample_payment]" "OrTree [6]" sample_attributes]
  obtain sel rest est paid where *: "[sample_utxo (OrTree [3])] = sel @ rest"
    "map prev_txo_pointer (raw_inputs (build_raw_transaction [sample_utxo (OrTree [3])] [sample_payment] (OrTree [6]) (Coin 1)
      sample_attributes)) = map fst sel"
    "utxo_total sel = outs_total (raw_outputs (build_raw_transaction [sample_utxo (OrTree [3])] [sample_payment] (OrTree [6]) (Coin 1)
      sample_attributes)) + coin_val paid"
    "estimate_fee sample_ext sample_fee_env (build_raw_transaction [sample_utxo (OrTree [3])] [sample_payment] (OrTree [6]) (Coin 1)
      sample_attributes) = Done (Ok est)" "est \<le> paid"
    unfolding sample_select_and_build by auto
  have "sel = [sample_utxo (OrTree [3])]"
    using *(1,2) by (cases sel) (simp_all add: build_raw_transaction_eq)
  then have "utxo_total sel = 10" by (simp add: sample_utxo_def utxo_value_def coin_val_def)
  then show ?thesis using *(3-5) sample_select_and_build by metis
qed

definition sample_prev :: "extended_addr \<Rightarrow> tx_with_outputs" where
  "sample_prev a = Transfer (sample_prev_tx\<lparr>tx_outputs := [snd (sample_utxo a)]\<rparr>)"

lemma sample_known: "known_output sample_ext sample_info (\<lambda>_. sample_prev a) (sample_utxo a)"
  by (simp add: known_output_def sample_utxo_def sample_prev_def spent_output_def sample_info_def tx_id_def
      sample_ext_def)

text \<open>The transaction with one input, built and signed.\<close>

lemma sample_signed:
  assumes "\<And>i. \<exists>wit. wallet_schnorr_sign sample_signer_env [7] [9] i a w = Done (Ok wit, w) \<and>
      verify_tx_address sample_ext wit i a = Ok ()"
    and "wallet_sign_condition sample_signer_env [7] [9] a w = Done (Ok SingleSignUnlock, w)"
  shows "\<exists>aux. build_transfer_tx sample_signer_env sample_fee_env sample_encrypt [7] [9] [sample_utxo a] [sample_payment]
    (OrTree [6]) sample_attributes w = Done (Ok aux, w)"
proof -
  let ?r = "build_raw_transaction [sample_utxo a] [sample_payment] (OrTree [6]) (Coin 1) sample_attributes"
  let ?i = "raw_tx_id sample_ext ?r"
  obtain wit where wit: "wallet_schnorr_sign sample_signer_env [7] [9] ?i a w = Done (Ok wit, w)"
    "verify_tx_address sample_ext wit ?i a = Ok ()" using assms(1) by blast
  have ins: "raw_inputs ?r = [unsigned_utxo (sample_utxo a)]" by (simp add: build_raw_transaction_eq)
  have addr: "out_address (prev_tx_out (unsigned_utxo (sample_utxo a))) = a"
    by (simp add: unsigned_utxo_def sample_utxo_def)
  define r' where "r' = ?r\<lparr>raw_inputs := [(unsigned_utxo (sample_utxo a))\<lparr>utxo_witness := Some wit\<rparr>]\<rparr>"
  have req: "request_witnesses (create_signer sample_signer_env [7] [9]) ?i 0 (raw_inputs ?r) w = Done (Ok [(0, wit)], w)"
    unfolding ins by (simp add: addr create_signer_def assms(2) wit(1))
  have add: "add_witness sample_ext 0 wit ?r = Done (Ok (), r')"
    by (simp add: add_witness_def input_at_index_def index_run_def ins addr wit(2) r'_def)
  have sign: "sign_all sample_ext (create_signer sample_signer_env [7] [9]) (?r, w) = Done (Ok (), (r', w))"
    by (simp add: sign_all_def req add)
  have same: "to_tx r' = to_tx ?r" using same_to_tx [OF sign_all_same [OF sign]] .
  have "raw_verify sample_ext r' = Done (Ok ())"
    unfolding raw_verify_Ok same
  proof (intro exI [of _ "[wit]"] conjI)
    show "check_inputs_basic (tx_inputs (to_tx ?r)) [wit] = Ok ()" by (simp add: check_inputs_basic_def to_tx_def ins)
    show "check_outputs_basic (raw_outputs r') = Ok ()"
      by (simp add: check_outputs_basic_Ok r'_def build_raw_transaction_eq sample_payment_def coin_zero_def coin_val_def)
    show "verify_each_witness sample_ext (tx_id sample_ext (to_tx ?r)) (raw_inputs r') = Ok ()"
      using wit(2) by (simp add: r'_def raw_tx_id_def unsigned_utxo_def sample_utxo_def)
  qed (simp_all add: r'_def unsigned_utxo_def sample_utxo_def build_raw_transaction_eq sample_payment_def coin_zero_def coin_val_def)
  moreover have "raw_witnesses r' = Done [wit]" by (simp add: raw_witnesses_def r'_def)
  ultimately have "\<exists>aux. to_tx_aux sample_ext sample_encrypt r' = Done (Ok aux)" by (simp add: to_tx_aux_def sample_encrypt_def)
  then show ?thesis
    by (auto simp: build_transfer_tx_def sample_select_and_build sign act_bind_def)
qed

theorem built_transfer_accepted_witness:
  "\<exists>a w aux w' t ws paid. build_transfer_tx sample_signer_env sample_fee_env sample_encrypt [7] [9] [sample_utxo a] [sample_payment]
      (OrTree [6]) sample_attributes w = Done (Ok aux, w') \<and> sample_encrypt (SignedTransfer t ws) = Ok aux \<and>
    verify_transfer sample_ext t ws sample_info (map (\<lambda>_. sample_prev a) (tx_inputs t)) = Done (Ok (Fee paid))"
proof -
  obtain a w where signs: "\<And>i. \<exists>wit. wallet_schnorr_sign sample_signer_env [7] [9] i a w = Done (Ok wit, w) \<and>
      verify_tx_address sample_ext wit i a = Ok ()"
    "wallet_sign_condition sample_signer_env [7] [9] a w = Done (Ok SingleSignUnlock, w)" by (rule sample_wallet_signs) (rule that)
  obtain aux where aux: "build_transfer_tx sample_signer_env sample_fee_env sample_encrypt [7] [9] [sample_utxo a] [sample_payment]
      (OrTree [6]) sample_attributes w = Done (Ok aux, w)" using sample_signed [OF signs] by blast
  have hyps: "fe_sig_from_default sample_fee_env (replicate 64 0) = Some (replicate 64 0)"
    "\<forall>u \<in> set [sample_utxo a]. known_output (sv_ext sample_signer_env) sample_info (\<lambda>_. sample_prev a) u"
    "info_chain_hex_id sample_info = chain_hex_id sample_attributes"
    using sample_known [of a] by (simp_all add: sample_fee_env_def) (simp add: sample_info_def sample_attributes_def)
  have fee: "min_fee sample_info \<le> coin_val (Coin 2)" by (simp add: sample_info_def)
  from built_transfer_accepted [OF aux hyps] obtain t ws r est paid where
    t: "sample_encrypt (SignedTransfer t ws) = Ok aux" "estimate_fee sample_ext sample_fee_env r = Done (Ok est)"
      "min_fee sample_info \<le> coin_val est \<longrightarrow>
        verify_transfer sample_ext t ws sample_info (map (\<lambda>_. sample_prev a) (tx_inputs t)) = Done (Ok (Fee paid))"
    unfolding sample_signer_projections by (elim exE conjE) (rule that)
  have "est = Coin 2" using t(2) sample_estimate [of r] by simp
  then have "verify_transfer sample_ext t ws sample_info (map (\<lambda>_. sample_prev a) (tx_inputs t)) = Done (Ok (Fee paid))"
    using t(3) fee by simp
  with aux t(1) show ?thesis by blast
qed

end
