(* ===== verification/Spec2Isabelle.thy ===== *)
theory Spec2Isabelle
  imports Milli_Fee Merkle_Tree Tx_Validation Genesis_Config Bloom_Filter Punishment_State Utxo_Store Init_Chain
    Validation_Server Service_Refinement Wallet_State Multi_Sig_Address Multi_Sig_Session Tx_Signers
    Transaction_Builder
begin

text \<open>
  Verification of the chain node, its transaction validation service and the wallet
  library of the clients.

  The program.  The node (chain-abci) is an application of the Tendermint consensus
  engine: it keeps staking accounts in a trie, unspent outputs in a key-value store and
  the validator set in memory, and changes them block by block through \<open>init_chain\<close>,
  \<open>begin_block\<close>, \<open>deliver_tx\<close>, \<open>end_block\<close> and \<open>commit\<close>.  Public transactions are checked
  by chain-tx-validation on the data types of chain-core.  Transactions with hidden
  content are checked by a separate service (chain-tx-enclave/tx-validation) that keeps
  earlier transactions sealed and answers over the messages of enclave-protocol.  The
  clients (client-common, client-core) keep keys and addresses in an encrypted storage,
  follow the chain to know their unspent outputs, and build and sign transfers.

  Conventions (Chain_Prelude).  Integers are words of the width of the Rust type and
  wrap; checked operations give an option.  \<open>Err\<close> and \<open>Ok\<close> are the sides of a sum, a panic
  is the value \<open>Panic\<close> of the type \<open>run\<close>.  Structs are records, enums datatypes, methods
  functions on an explicit state.  Services of the clients are actions: a result and the
  next state, or a panic.  Third-party code (hash functions, secp256k1, codecs, ciphers,
  databases, SGX sealing, bit vectors, fixed-point numbers) is a record of parameters
  with a predicate for its documented laws, and every such predicate is satisfied by a
  concrete instance in the witnesses.

  Basic types.  Decimal_Text: printing and parsing of integers.  Coin_Amount: \<open>Coin\<close> of
  chain-core/src/init/coin.rs; the locale \<open>bounded_amount\<close> gives exact sums below the
  maximal supply.  Milli_Fee: chain-core/src/tx/fee; the loop of the square root is a
  partial function that is shown to return a value.  Btree_Map: ordered maps, with the
  locale \<open>ordered_map\<close>.  Bit_Vector: the interface of bit vectors.  Merkle_Tree:
  chain-core/src/common/merkle_tree.rs with the locale \<open>inclusion_scheme\<close>: completeness of
  proofs and what a verified path shows.  Tendermint_Types, Staked_State (locale
  \<open>account_op\<close>: what an update does to the total of an account), Tx_Types: accounts,
  transactions, identifiers and witnesses.  Event_Keys: names of block events.

  Validation.  Tx_Validation: the verify functions of chain-tx-validation/src/lib.rs; a
  transfer conserves value, staking transactions are bound to the nonce and the balance
  (locales \<open>nonce_guarded\<close> and \<open>value_guarded\<close>), jailed accounts are locked; but as the
  proof in a witness is not tied to its key, an accepted transfer is also accepted with
  witnesses under any other key.  Bloom_Filter:
  chain-tx-filter, no false negatives.  Genesis_Config: a valid configuration issues the
  whole supply.

  The node.  Punishment_State: liveness trackers and the slashing schedule.  Utxo_Store:
  the records of spent outputs.  Validator_Updates: the index of council nodes by power
  and the changes reported to the consensus engine, with the exact conditions under which
  their computation panics.  Node_State, Deliver_Tx, Rewards,
  Begin_Block, Commit_Block, Init_Chain: the state of the application and the handlers of
  chain-abci/src/app in the order of a block.  The theorems show that no output is spent
  twice in a block or against the store, the exact effect of an accepted transaction, the
  conservation of value by slashing and rewards, the jailing of offenders, the durability
  of a commit, the validators the genesis block leaves, and what a restart recovers: the
  committed state and the positive voting powers, together with entries of power zero
  that a node that kept running does not have.

  The validation service.  Enclave_Protocol: the messages and the stand-in service of the
  node.  Validation_Enclave, Validation_Server: the enclave and the server around it.
  Sample_Codecs, Service_Refinement: under the laws of the parameters the server refines
  an ideal service that keeps the transactions themselves (locale \<open>validation_service\<close>).
  What the enclave encrypts it validates later, for public inputs that agree with those
  of the transfer in their transaction ids, whatever their output indices.

  The wallet library.  Client_Storage: storage interface and encrypted access (locales
  \<open>key_value_storage\<close> and \<open>secure_storage\<close>, interpreted by the storage in memory; the
  services prove their lemmas inside \<open>secure_storage\<close>).  HD_Wallet: key derivation.
  Wallet_Service: the services for wallets, keys, seeds and synchronisation state.
  Wallet_State: the unspent outputs and the balance after a batch of blocks.
  Multi_Sig_Address: m-of-n addresses, each choice of m keys has a valid proof.
  Multi_Sig_Session: signing sessions; the service refines steps on the session alone,
  which only grows, so no signer answers twice with different values.  The binary search
  of the standard library is modelled and proved correct.  Tx_Signers: witnesses of the
  wallet signer pass the check of the chain.  Transaction_Builder: selection of outputs,
  the raw transaction and the fee; a transfer that the builder returns is accepted by
  \<open>verify_transfer\<close>.

  Loops and bounds.  No definition uses fuel.  Loops over data are structural; the merge
  loop of the Merkle tree, the binary search and the packing of bits recurse on a
  decreasing length.  The fee loop of the builder starts again only with a strictly larger
  fee, and a fee is a 64-bit word, which bounds the number of rounds.

  Not modelled.  Command lines, servers, logging and the JSON-RPC front ends are input and
  output.  The read-only queries of the node, the query enclave with its attestation and
  TLS, the remote Tendermint clients, the embedded databases and the vendored SGX files
  call code outside the repository almost exclusively.  The binary, base64 and serde forms
  of the data types are parameters.  Of the client, the wallet client that composes the
  services, the network part of the synchronisation and the construction of staking
  transactions (client-network) are not covered.
\<close>

end
